(* ===== verification/Prelude.thy ===== *)
theory Prelude
  imports Main "HOL-Library.Word" "HOL-Library.Sublist"
begin

text \<open>
  Shared vocabulary of the development: the machine integers of the source, the part of
  the Rust standard library on strings that the source uses, results, and the list facts
  the component theories rest on.

  A Rust \<open>str\<close> is modelled as a list of characters whose code is the Unicode code point.
  Isabelle characters carry codes 0 to 255, so the model covers strings over the code
  points U+0000 to U+00FF; on that range the white-space test and both case conversions
  below are the ones of \<open>char\<close> in the Rust standard library.  Every literal the source
  compares with is ASCII.
\<close>

section \<open>Collections of facts\<close>

named_theorems str_simps \<open>rewrite rules of the string operations\<close>
named_theorems addr_simps \<open>unfolding rules of the address predicates\<close>

section \<open>Machine integers and results\<close>

type_synonym u8 = "8 word"
type_synonym u16 = "16 word"
type_synonym u32 = "32 word"
type_synonym u64 = "64 word"
type_synonym bytes = "8 word list"

text \<open>\<open>Result<T, E>\<close>: \<open>Inl\<close> is \<open>Err\<close>, \<open>Inr\<close> is \<open>Ok\<close>.\<close>

type_synonym ('a, 'e) result = "'e + 'a"

fun map_err :: "('e \<Rightarrow> 'f) \<Rightarrow> 'e + 'a \<Rightarrow> 'f + 'a" where
  "map_err f (Inl e) = Inl (f e)"
| "map_err f (Inr x) = Inr x"

fun is_ok :: "'e + 'a \<Rightarrow> bool" where
  "is_ok (Inl _) = False"
| "is_ok (Inr _) = True"

text \<open>\<open>Result::ok\<close>.\<close>

fun ok :: "'e + 'a \<Rightarrow> 'a option" where
  "ok (Inl _) = None"
| "ok (Inr x) = Some x"

text \<open>Collecting an iterator of results stops at the first error.\<close>

fun collect_results :: "('e + 'a) list \<Rightarrow> 'e + 'a list" where
  "collect_results [] = Inr []"
| "collect_results (r # rs) =
     (case r of Inl e \<Rightarrow> Inl e
      | Inr x \<Rightarrow> (case collect_results rs of Inl e \<Rightarrow> Inl e | Inr xs \<Rightarrow> Inr (x # xs)))"

section \<open>Characters and strings\<close>

definition code_point :: "char \<Rightarrow> nat" where
  "code_point c = of_char c"

definition is_whitespace :: "char \<Rightarrow> bool" where
  "is_whitespace c \<longleftrightarrow>
     (9 \<le> code_point c \<and> code_point c \<le> 13) \<or> code_point c = 32
       \<or> code_point c = 133 \<or> code_point c = 160"

definition is_ascii_upper :: "char \<Rightarrow> bool" where
  "is_ascii_upper c \<longleftrightarrow> 65 \<le> code_point c \<and> code_point c \<le> 90"

definition is_ascii_lower :: "char \<Rightarrow> bool" where
  "is_ascii_lower c \<longleftrightarrow> 97 \<le> code_point c \<and> code_point c \<le> 122"

definition char_ascii_lower :: "char \<Rightarrow> char" where
  "char_ascii_lower c = (if is_ascii_upper c then char_of (code_point c + 32) else c)"

definition char_ascii_upper :: "char \<Rightarrow> char" where
  "char_ascii_upper c = (if is_ascii_lower c then char_of (code_point c - 32) else c)"

text \<open>Full lower-casing adds the accented capitals U+00C0 to U+00DE (all but U+00D7).\<close>

definition char_lower :: "char \<Rightarrow> char" where
  "char_lower c =
     (if is_ascii_upper c
         \<or> (192 \<le> code_point c \<and> code_point c \<le> 222 \<and> code_point c \<noteq> 215)
      then char_of (code_point c + 32) else c)"

definition to_ascii_lowercase :: "string \<Rightarrow> string" where
  "to_ascii_lowercase s = map char_ascii_lower s"

definition to_ascii_uppercase :: "string \<Rightarrow> string" where
  "to_ascii_uppercase s = map char_ascii_upper s"

definition to_lowercase :: "string \<Rightarrow> string" where
  "to_lowercase s = map char_lower s"

definition eq_ignore_ascii_case :: "string \<Rightarrow> string \<Rightarrow> bool" where
  "eq_ignore_ascii_case s t \<longleftrightarrow> to_ascii_lowercase s = to_ascii_lowercase t"

definition trim_start :: "string \<Rightarrow> string" where
  "trim_start s = dropWhile is_whitespace s"

definition trim_end :: "string \<Rightarrow> string" where
  "trim_end s = rev (dropWhile is_whitespace (rev s))"

definition trim :: "string \<Rightarrow> string" where
  "trim s = trim_start (trim_end s)"

definition trim_end_matches :: "char \<Rightarrow> string \<Rightarrow> string" where
  "trim_end_matches c s = rev (dropWhile (\<lambda>x. x = c) (rev s))"

fun split_on :: "char \<Rightarrow> string \<Rightarrow> string list" where
  "split_on c [] = [[]]"
| "split_on c (x # xs) =
     (if x = c then [] # split_on c xs
      else (case split_on c xs of [] \<Rightarrow> [[x]] | p # ps \<Rightarrow> (x # p) # ps))"

fun join_with :: "string \<Rightarrow> string list \<Rightarrow> string" where
  "join_with sep [] = []"
| "join_with sep [p] = p"
| "join_with sep (p # q # ps) = p @ sep @ join_with sep (q # ps)"

section \<open>Decimal numbers\<close>

definition is_digit :: "char \<Rightarrow> bool" where
  "is_digit c \<longleftrightarrow> 48 \<le> code_point c \<and> code_point c \<le> 57"

definition digit_val :: "char \<Rightarrow> nat" where
  "digit_val c = code_point c - 48"

definition digit_char :: "nat \<Rightarrow> char" where
  "digit_char d = char_of (48 + d)"

text \<open>\<open>to_string\<close> of an unsigned integer.\<close>

fun dec_of_nat :: "nat \<Rightarrow> string" where
  "dec_of_nat n =
     (if n < 10 then [digit_char n] else dec_of_nat (n div 10) @ [digit_char (n mod 10)])"

declare dec_of_nat.simps [simp del]

text \<open>
  \<open>str::parse\<close> at an unsigned integer type with maximum \<open>mx\<close>: one leading plus sign is
  accepted, at least one digit is required, and a value above the maximum is an error at
  the digit where it is reached.
\<close>

fun parse_dec_from :: "nat \<Rightarrow> nat \<Rightarrow> string \<Rightarrow> nat option" where
  "parse_dec_from mx acc [] = Some acc"
| "parse_dec_from mx acc (c # cs) =
     (if is_digit c \<and> acc * 10 + digit_val c \<le> mx
      then parse_dec_from mx (acc * 10 + digit_val c) cs else None)"

definition parse_uint :: "nat \<Rightarrow> string \<Rightarrow> nat option" where
  "parse_uint mx s =
     (case s of [] \<Rightarrow> None
      | c # cs \<Rightarrow>
          if c = CHR ''+'' then (if cs = [] then None else parse_dec_from mx 0 cs)
          else parse_dec_from mx 0 s)"

definition parse_u16 :: "string \<Rightarrow> u16 option" where
  "parse_u16 s = map_option of_nat (parse_uint 65535 s)"

section \<open>Durations\<close>

text \<open>Instants and durations are natural numbers of nanoseconds.\<close>

definition secs :: "nat \<Rightarrow> nat" where
  "secs n = n * 1000000000"

section \<open>Facts on strings\<close>

lemma code_point_bound: "code_point c < 256"
  by (simp add: code_point_def)

lemma char_of_code_point [simp]: "char_of (code_point c) = c"
  by (simp add: code_point_def)

lemma code_point_char_of: "n < 256 \<Longrightarrow> code_point (char_of n) = n"
  by (simp add: code_point_def of_char_of)

lemma code_point_eq_iff: "code_point c = code_point d \<longleftrightarrow> c = d"
  by (metis char_of_code_point)

lemma split_on_not_Nil [simp]: "split_on c s \<noteq> []"
  by (cases s) (auto split: list.splits)

lemma split_on_absent [str_simps]: "c \<notin> set s \<Longrightarrow> split_on c s = [s]"
  by (induction s) auto

lemma split_on_sep [str_simps]: "c \<notin> set p \<Longrightarrow> split_on c (p @ c # s) = p # split_on c s"
  by (induction p) auto

lemma split_on_parts: "p \<in> set (split_on c s) \<Longrightarrow> c \<notin> set p"
  by (induction s arbitrary: p) (fastforce split: if_splits list.splits)+

lemma split_on_parts_sub: "p \<in> set (split_on c s) \<Longrightarrow> set p \<subseteq> set s"
proof (induction s arbitrary: p)
  case (Cons x xs)
  then show ?case by (cases "split_on c xs") (fastforce split: if_splits)+
qed simp

lemma join_with_split_on: "join_with [c] (split_on c s) = s"
proof (induction s)
  case (Cons x xs)
  show ?case
  proof (cases "split_on c xs")
    case (Cons p ps)
    with Cons.IH show ?thesis by (cases ps) auto
  qed simp
qed simp

lemma split_on_append_sep: "split_on c (p @ c # s) = split_on c p @ split_on c s"
  by (induction p) (auto split: list.split)

lemma join_with_append:
  "ps \<noteq> [] \<Longrightarrow> qs \<noteq> [] \<Longrightarrow> join_with sep (ps @ qs) = join_with sep ps @ sep @ join_with sep qs"
proof (induction ps)
  case (Cons p ps)
  then show ?case by (cases ps; cases qs) auto
qed simp

text \<open>Ending in a separator and \<open>s\<close>, or being \<open>s\<close>, is ending in the parts of \<open>s\<close>.\<close>

lemma suffix_parts_iff:
  "v = s \<or> suffix (c # s) v \<longleftrightarrow> suffix (split_on c s) (split_on c v)"
proof
  show "v = s \<or> suffix (c # s) v \<Longrightarrow> suffix (split_on c s) (split_on c v)"
    by (auto simp: suffix_def split_on_append_sep)
next
  assume "suffix (split_on c s) (split_on c v)"
  then obtain ps where ps: "split_on c v = ps @ split_on c s" by (auto simp: suffix_def)
  show "v = s \<or> suffix (c # s) v"
  proof (cases "ps = []")
    case True
    with ps show ?thesis using join_with_split_on by (metis append_Nil)
  next
    case False
    have "v = join_with [c] (ps @ split_on c s)" using join_with_split_on [of c v] ps by simp
    also have "\<dots> = join_with [c] ps @ c # s"
      using False by (simp add: join_with_append join_with_split_on)
    finally show ?thesis by (simp add: suffix_def)
  qed
qed

lemma trim_end_Nil_iff: "trim_end s = [] \<longleftrightarrow> (\<forall>x \<in> set s. is_whitespace x)"
  by (simp add: trim_end_def)

lemma last_trim_end: "trim_end s \<noteq> [] \<Longrightarrow> \<not> is_whitespace (last (trim_end s))"
  by (simp add: trim_end_def last_rev hd_dropWhile del: dropWhile_eq_Nil_conv)

lemma trim_start_id: "s = [] \<or> \<not> is_whitespace (hd s) \<Longrightarrow> trim_start s = s"
  by (cases s) (auto simp: trim_start_def)

lemma trim_end_id: "s = [] \<or> \<not> is_whitespace (last s) \<Longrightarrow> trim_end s = s"
  by (cases s rule: rev_cases) (auto simp: trim_end_def)

lemma trim_id: "s = [] \<or> (\<not> is_whitespace (hd s) \<and> \<not> is_whitespace (last s)) \<Longrightarrow> trim s = s"
  by (auto simp: trim_def trim_end_id trim_start_id)

lemma trim_ends: "trim s \<noteq> [] \<Longrightarrow> \<not> is_whitespace (hd (trim s)) \<and> \<not> is_whitespace (last (trim s))"
proof
  assume ne: "trim s \<noteq> []"
  then show "\<not> is_whitespace (hd (trim s))"
    by (metis hd_dropWhile trim_def trim_start_def dropWhile_eq_Nil_conv)
  have "trim_end s = takeWhile is_whitespace (trim_end s) @ trim s"
    by (simp add: trim_def trim_start_def)
  with ne have "last (trim_end s) = last (trim s)" by (metis last_append)
  moreover from ne have "trim_end s \<noteq> []" by (auto simp: trim_def trim_start_def)
  ultimately show "\<not> is_whitespace (last (trim s))" using last_trim_end by metis
qed

lemma trim_trim [simp]: "trim (trim s) = trim s"
  by (rule trim_id) (use trim_ends in blast)

lemma trim_Nil [simp]: "trim [] = []"
  by (simp add: trim_def trim_end_def trim_start_def)

lemma set_trim_end: "set (trim_end s) \<subseteq> set s"
  by (auto simp: trim_end_def dest: set_dropWhileD)

lemma set_trim: "set (trim s) \<subseteq> set s"
  using set_trim_end [of s] by (auto simp: trim_def trim_start_def dest: set_dropWhileD)

lemma trim_no_whitespace: "(\<forall>x \<in> set s. \<not> is_whitespace x) \<Longrightarrow> trim s = s"
  by (rule trim_id) (use hd_in_set last_in_set in blast)

lemma set_trim_end_matches: "set (trim_end_matches c s) \<subseteq> set s"
  by (auto simp: trim_end_matches_def dest: set_dropWhileD)

lemma last_trim_end_matches:
  "trim_end_matches c s \<noteq> [] \<Longrightarrow> last (trim_end_matches c s) \<noteq> c"
  using hd_dropWhile [of "\<lambda>x. x = c" "rev s"]
  by (auto simp: trim_end_matches_def last_rev simp del: dropWhile_eq_Nil_conv)

lemma trim_end_matches_id: "s = [] \<or> last s \<noteq> c \<Longrightarrow> trim_end_matches c s = s"
  by (cases s rule: rev_cases) (auto simp: trim_end_matches_def)

text \<open>Case conversion is idempotent and maps no other character to the given separator.\<close>

lemma char_ascii_lower_idem [simp]: "char_ascii_lower (char_ascii_lower c) = char_ascii_lower c"
  using code_point_bound [of c]
  by (auto simp: char_ascii_lower_def is_ascii_upper_def code_point_char_of)

lemma char_ascii_upper_idem [simp]: "char_ascii_upper (char_ascii_upper c) = char_ascii_upper c"
  using code_point_bound [of c]
  by (auto simp: char_ascii_upper_def is_ascii_lower_def code_point_char_of)

lemma char_ascii_upper_lower [simp]: "char_ascii_lower (char_ascii_upper c) = char_ascii_lower c"
  by (auto simp: char_ascii_upper_def char_ascii_lower_def is_ascii_lower_def is_ascii_upper_def
      code_point_char_of)

lemma to_ascii_lowercase_idem [simp]:
  "to_ascii_lowercase (to_ascii_lowercase s) = to_ascii_lowercase s"
  by (simp add: to_ascii_lowercase_def)

lemma to_ascii_uppercase_idem [simp]:
  "to_ascii_uppercase (to_ascii_uppercase s) = to_ascii_uppercase s"
  by (simp add: to_ascii_uppercase_def)

lemma to_ascii_lowercase_upper [simp]:
  "to_ascii_lowercase (to_ascii_uppercase s) = to_ascii_lowercase s"
  by (simp add: to_ascii_lowercase_def to_ascii_uppercase_def)

lemma to_ascii_case_Nil [simp]: "to_ascii_lowercase [] = []" "to_ascii_uppercase [] = []"
  by (simp_all add: to_ascii_lowercase_def to_ascii_uppercase_def)

lemma to_ascii_lowercase_Nil_iff [simp]: "to_ascii_lowercase s = [] \<longleftrightarrow> s = []"
  by (simp add: to_ascii_lowercase_def)

lemma to_ascii_uppercase_Nil_iff [simp]: "to_ascii_uppercase s = [] \<longleftrightarrow> s = []"
  by (simp add: to_ascii_uppercase_def)

lemma char_ascii_lower_fix:
  "\<not> is_ascii_lower d \<Longrightarrow> char_ascii_lower c = d \<longleftrightarrow> c = d \<and> \<not> is_ascii_upper d"
  using code_point_bound [of c]
  by (auto simp: char_ascii_lower_def is_ascii_upper_def is_ascii_lower_def code_point_char_of)

section \<open>Facts on decimal numbers\<close>

lemma digit_char_props [simp]:
  assumes "d < 10"
  shows "is_digit (digit_char d)" and "digit_val (digit_char d) = d"
  using assms by (auto simp: is_digit_def digit_val_def digit_char_def code_point_char_of)

lemma dec_of_nat_not_Nil [simp]: "dec_of_nat n \<noteq> []"
  by (subst dec_of_nat.simps) simp

lemma dec_of_nat_digits: "c \<in> set (dec_of_nat n) \<Longrightarrow> is_digit c"
proof (induction n arbitrary: c rule: dec_of_nat.induct)
  case (1 n)
  then show ?case by (subst (asm) (2) dec_of_nat.simps) (auto split: if_splits)
qed

lemma parse_dec_from_append:
  "parse_dec_from mx acc (s @ t) =
     (case parse_dec_from mx acc s of None \<Rightarrow> None | Some v \<Rightarrow> parse_dec_from mx v t)"
  by (induction s arbitrary: acc) auto

lemma parse_dec_of_nat: "n \<le> mx \<Longrightarrow> parse_dec_from mx 0 (dec_of_nat n) = Some n"
proof (induction n rule: dec_of_nat.induct)
  case (1 n)
  show ?case
  proof (cases "n < 10")
    case True
    with "1.prems" show ?thesis by (simp add: dec_of_nat.simps)
  next
    case False
    with 1 have "parse_dec_from mx 0 (dec_of_nat (n div 10)) = Some (n div 10)" by simp
    with False "1.prems" show ?thesis
      by (subst dec_of_nat.simps) (simp add: parse_dec_from_append)
  qed
qed

lemma dec_of_nat_hd: "is_digit (hd (dec_of_nat n))"
  by (rule dec_of_nat_digits [of _ n]) simp

lemma plus_not_digit: "\<not> is_digit CHR ''+''"
  by (simp add: is_digit_def code_point_def)

lemma parse_uint_no_plus: "s \<noteq> [] \<Longrightarrow> is_digit (hd s) \<Longrightarrow> parse_uint mx s = parse_dec_from mx 0 s"
  using plus_not_digit by (cases s) (auto simp: parse_uint_def)

lemma parse_uint_dec_of_nat: "n \<le> mx \<Longrightarrow> parse_uint mx (dec_of_nat n) = Some n"
  by (simp add: parse_uint_no_plus dec_of_nat_hd parse_dec_of_nat)

lemma parse_dec_from_bound: "acc \<le> mx \<Longrightarrow> parse_dec_from mx acc s = Some n \<Longrightarrow> n \<le> mx"
  by (induction s arbitrary: acc) (auto split: if_splits)

lemma parse_uint_bound: "parse_uint mx s = Some n \<Longrightarrow> n \<le> mx"
  by (auto simp: parse_uint_def dest: parse_dec_from_bound [rotated]
      split: list.splits if_splits)

lemma parse_u16_dec [simp]: "parse_u16 (dec_of_nat (unat (p :: u16))) = Some p"
  using unsigned_less [of p, where ?'a = nat] by (simp add: parse_u16_def parse_uint_dec_of_nat)

lemma collect_results_map_Inr [simp]: "collect_results (map Inr xs) = Inr xs"
  by (induction xs) auto

lemma collect_results_Inr: "collect_results rs = Inr xs \<longleftrightarrow> rs = map Inr xs"
proof
  show "collect_results rs = Inr xs \<Longrightarrow> rs = map Inr xs"
    by (induction rs arbitrary: xs) (auto split: sum.splits)
qed simp

section \<open>Facts on division\<close>

lemma radix_inj:
  assumes "y < m" and "y' < m"
  shows "x * m + y = x' * m + y' \<longleftrightarrow> x = x' \<and> y = (y' :: nat)"
proof
  assume eq: "x * m + y = x' * m + y'"
  have "(k * m + z) div m = k" if "z < m" for k z using that by simp
  with assms eq have "x = x'" by metis
  with eq show "x = x' \<and> y = y'" by simp
qed simp

lemma div_eq_bounds: "0 < q \<Longrightarrow> n div q = k \<longleftrightarrow> k * q \<le> n \<and> n < Suc k * (q :: nat)"
  by (metis div_less_iff_less_mult less_Suc_eq_le less_eq_div_iff_mult_less_eq order_antisym_conv
      order_refl)

text \<open>Evaluation of string operations on literals.\<close>

lemmas str_eval =
  trim_def trim_end_def trim_start_def trim_end_matches_def is_whitespace_def code_point_def
  to_ascii_lowercase_def to_ascii_uppercase_def to_lowercase_def
  char_ascii_lower_def char_ascii_upper_def char_lower_def is_ascii_upper_def is_ascii_lower_def
  is_digit_def digit_val_def char_of_def bit_Suc_0_iff Let_def

end
