(* ===== verification/Net_Addr.thy ===== *)
theory Net_Addr
  imports Prelude
begin

text \<open>
  The address types of \<open>std::net\<close> as the source uses them: IPv4 and IPv6 addresses, their
  classification predicates, their textual form and its parser, and socket addresses.
  The flow label and scope of an IPv6 socket address are not modelled: the source never
  reads them.
\<close>

section \<open>Address types\<close>

datatype ipv4addr = Ipv4Addr u8 u8 u8 u8

datatype ipv6addr = Ipv6Addr u16 u16 u16 u16 u16 u16 u16 u16

datatype ipaddr = V4 ipv4addr | V6 ipv6addr

record sockaddr =
  sa_ip :: ipaddr
  sa_port :: u16

fun octets :: "ipv4addr \<Rightarrow> u8 list" where
  "octets (Ipv4Addr a b c d) = [a, b, c, d]"

fun segments :: "ipv6addr \<Rightarrow> u16 list" where
  "segments (Ipv6Addr a b c d e f g h) = [a, b, c, d, e, f, g, h]"

text \<open>The numeric value of an address, in network order.\<close>

fun ipv4_nat :: "ipv4addr \<Rightarrow> nat" where
  "ipv4_nat (Ipv4Addr a b c d) = ((unat a * 256 + unat b) * 256 + unat c) * 256 + unat d"

definition ipv4_to_u32 :: "ipv4addr \<Rightarrow> u32" where
  "ipv4_to_u32 ip = of_nat (ipv4_nat ip)"

definition ipv4_from_u32 :: "u32 \<Rightarrow> ipv4addr" where
  "ipv4_from_u32 w =
     Ipv4Addr (of_nat (unat w div 16777216)) (of_nat (unat w div 65536))
       (of_nat (unat w div 256)) (of_nat (unat w))"

section \<open>Classification\<close>

fun v4_is_private :: "ipv4addr \<Rightarrow> bool" where
  "v4_is_private (Ipv4Addr a b c d) \<longleftrightarrow>
     a = 10 \<or> (a = 172 \<and> 16 \<le> b \<and> b \<le> 31) \<or> (a = 192 \<and> b = 168)"

fun v4_is_loopback :: "ipv4addr \<Rightarrow> bool" where
  "v4_is_loopback (Ipv4Addr a b c d) \<longleftrightarrow> a = 127"

fun v4_is_link_local :: "ipv4addr \<Rightarrow> bool" where
  "v4_is_link_local (Ipv4Addr a b c d) \<longleftrightarrow> a = 169 \<and> b = 254"

fun v4_is_unspecified :: "ipv4addr \<Rightarrow> bool" where
  "v4_is_unspecified (Ipv4Addr a b c d) \<longleftrightarrow> a = 0 \<and> b = 0 \<and> c = 0 \<and> d = 0"

fun v4_is_broadcast :: "ipv4addr \<Rightarrow> bool" where
  "v4_is_broadcast (Ipv4Addr a b c d) \<longleftrightarrow> a = 255 \<and> b = 255 \<and> c = 255 \<and> d = 255"

fun v4_is_multicast :: "ipv4addr \<Rightarrow> bool" where
  "v4_is_multicast (Ipv4Addr a b c d) \<longleftrightarrow> 224 \<le> a \<and> a \<le> 239"

fun v6_is_multicast :: "ipv6addr \<Rightarrow> bool" where
  "v6_is_multicast (Ipv6Addr a b c d e f g h) \<longleftrightarrow> and a 0xff00 = 0xff00"

fun v6_is_unspecified :: "ipv6addr \<Rightarrow> bool" where
  "v6_is_unspecified ip \<longleftrightarrow> ip = Ipv6Addr 0 0 0 0 0 0 0 0"

fun v6_is_loopback :: "ipv6addr \<Rightarrow> bool" where
  "v6_is_loopback ip \<longleftrightarrow> ip = Ipv6Addr 0 0 0 0 0 0 0 1"

fun ip_is_loopback :: "ipaddr \<Rightarrow> bool" where
  "ip_is_loopback (V4 a) = v4_is_loopback a"
| "ip_is_loopback (V6 a) = v6_is_loopback a"

section \<open>Text\<close>

definition ipv4_to_string :: "ipv4addr \<Rightarrow> string" where
  "ipv4_to_string ip = join_with ''.'' (map (\<lambda>x. dec_of_nat (unat x)) (octets ip))"

text \<open>\<open>char::to_digit\<close> for a radix up to 16.\<close>

definition to_digit :: "nat \<Rightarrow> char \<Rightarrow> nat option" where
  "to_digit radix c =
     (let v = (if is_digit c then Some (digit_val c)
               else if is_ascii_lower c then Some (code_point c - 97 + 10)
               else if is_ascii_upper c then Some (code_point c - 65 + 10)
               else None)
      in case v of None \<Rightarrow> None | Some d \<Rightarrow> if d < radix then Some d else None)"

text \<open>
  The reader of numbers: it stops at the first character that is no digit, and gives up
  once more than \<open>maxd\<close> digits have been read.
\<close>

fun read_digits :: "nat \<Rightarrow> nat \<Rightarrow> nat \<Rightarrow> nat \<Rightarrow> string \<Rightarrow> (nat \<times> nat \<times> string) option" where
  "read_digits radix maxd res cnt [] = Some (res, cnt, [])"
| "read_digits radix maxd res cnt (c # cs) =
     (case to_digit radix c of
        None \<Rightarrow> Some (res, cnt, c # cs)
      | Some d \<Rightarrow> if maxd < cnt + 1 then None
                 else read_digits radix maxd (res * radix + d) (cnt + 1) cs)"

definition read_number :: "nat \<Rightarrow> nat \<Rightarrow> bool \<Rightarrow> nat \<Rightarrow> string \<Rightarrow> (nat \<times> string) option" where
  "read_number radix maxd allow_zero_prefix limit s =
     (case read_digits radix maxd 0 0 s of
        None \<Rightarrow> None
      | Some (res, cnt, rest) \<Rightarrow>
          if cnt = 0 then None
          else if \<not> allow_zero_prefix \<and> take 1 s = ''0'' \<and> cnt > 1 then None
          else if res \<le> limit then Some (res, rest) else None)"

definition read_given_char :: "char \<Rightarrow> string \<Rightarrow> string option" where
  "read_given_char c s = (case s of [] \<Rightarrow> None | x # xs \<Rightarrow> if x = c then Some xs else None)"

text \<open>The reader of the remaining \<open>n\<close> octets of a dotted quad; only the first has no dot.\<close>

fun read_octets :: "nat \<Rightarrow> bool \<Rightarrow> string \<Rightarrow> (nat list \<times> string) option" where
  "read_octets 0 first s = Some ([], s)"
| "read_octets (Suc n) first s =
     (case (if first then Some s else read_given_char CHR ''.'' s) of
        None \<Rightarrow> None
      | Some s1 \<Rightarrow>
          (case read_number 10 3 False 255 s1 of
             None \<Rightarrow> None
           | Some (v, s2) \<Rightarrow>
               (case read_octets n False s2 of
                  None \<Rightarrow> None
                | Some (vs, s3) \<Rightarrow> Some (v # vs, s3))))"

definition read_ipv4_addr :: "string \<Rightarrow> (ipv4addr \<times> string) option" where
  "read_ipv4_addr s =
     (case read_octets 4 True s of
        Some ([a, b, c, d], rest) \<Rightarrow>
          Some (Ipv4Addr (of_nat a) (of_nat b) (of_nat c) (of_nat d), rest)
      | _ \<Rightarrow> None)"

definition parse_ipv4 :: "string \<Rightarrow> ipv4addr option" where
  "parse_ipv4 s =
     (if 15 < length s then None
      else case read_ipv4_addr s of Some (a, []) \<Rightarrow> Some a | _ \<Rightarrow> None)"

text \<open>
  The reader of IPv6 groups: at most \<open>n\<close> further groups, a trailing dotted quad standing
  for two of them.  The flag in the result says whether such a quad ended the groups.
\<close>

fun read_groups :: "nat \<Rightarrow> bool \<Rightarrow> string \<Rightarrow> u16 list \<times> bool \<times> string" where
  "read_groups 0 first s = ([], False, s)"
| "read_groups (Suc n) first s =
     (let at = (if first then Some s else read_given_char CHR '':'' s) in
      case (if 0 < n then Option.bind at read_ipv4_addr else None) of
        Some (Ipv4Addr a b c d, s2) \<Rightarrow>
          ([of_nat (unat a * 256 + unat b), of_nat (unat c * 256 + unat d)], True, s2)
      | None \<Rightarrow>
          (case Option.bind at (read_number 16 4 True 65535) of
             None \<Rightarrow> ([], False, s)
           | Some (g, s2) \<Rightarrow>
               (case read_groups n False s2 of
                  (gs, quad, s3) \<Rightarrow> (of_nat g # gs, quad, s3))))"

fun ipv6_of_segments :: "u16 list \<Rightarrow> ipv6addr option" where
  "ipv6_of_segments [a, b, c, d, e, f, g, h] = Some (Ipv6Addr a b c d e f g h)"
| "ipv6_of_segments _ = None"

definition read_ipv6_addr :: "string \<Rightarrow> (ipv6addr \<times> string) option" where
  "read_ipv6_addr s =
     (case read_groups 8 True s of
        (head, quad, s1) \<Rightarrow>
          if length head = 8 then map_option (\<lambda>a. (a, s1)) (ipv6_of_segments head)
          else if quad then None
          else case Option.bind (read_given_char CHR '':'' s1) (read_given_char CHR '':'') of
                 None \<Rightarrow> None
               | Some s2 \<Rightarrow>
                   (case read_groups (8 - (length head + 1)) True s2 of
                      (tail, _, s3) \<Rightarrow>
                        map_option (\<lambda>a. (a, s3))
                          (ipv6_of_segments
                             (head @ replicate (8 - length head - length tail) 0 @ tail))))"

definition parse_ip :: "string \<Rightarrow> ipaddr option" where
  "parse_ip s =
     (case read_ipv4_addr s of
        Some (a, rest) \<Rightarrow> if rest = [] then Some (V4 a) else None
      | None \<Rightarrow>
          (case read_ipv6_addr s of
             Some (a, rest) \<Rightarrow> if rest = [] then Some (V6 a) else None
           | None \<Rightarrow> None))"

text \<open>Printing an IPv6 address: the first longest run of two or more zero groups is elided.\<close>

definition hex_digit :: "nat \<Rightarrow> char" where
  "hex_digit d = (if d < 10 then char_of (48 + d) else char_of (87 + d))"

fun hex_of_nat :: "nat \<Rightarrow> string" where
  "hex_of_nat n =
     (if n < 16 then [hex_digit n] else hex_of_nat (n div 16) @ [hex_digit (n mod 16)])"

declare hex_of_nat.simps [simp del]

fun zero_span :: "nat \<Rightarrow> nat \<times> nat \<Rightarrow> nat \<times> nat \<Rightarrow> u16 list \<Rightarrow> nat \<times> nat" where
  "zero_span i cur longest [] = longest"
| "zero_span i cur longest (x # xs) =
     (if x = 0 then
        (let cur' = (if snd cur = 0 then (i, 1) else (fst cur, snd cur + 1)) in
         zero_span (i + 1) cur' (if snd longest < snd cur' then cur' else longest) xs)
      else zero_span (i + 1) (0, 0) longest xs)"

definition fmt_subslice :: "u16 list \<Rightarrow> string" where
  "fmt_subslice gs = join_with '':'' (map (\<lambda>g. hex_of_nat (unat g)) gs)"

fun ipv6_to_string :: "ipv6addr \<Rightarrow> string" where
  "ipv6_to_string (Ipv6Addr a b c d e f g h) =
     (if [a, b, c, d, e, f] = [0, 0, 0, 0, 0, 0xffff] then
        ''::ffff:'' @ ipv4_to_string
          (Ipv4Addr (of_nat (unat g div 256)) (of_nat (unat g))
             (of_nat (unat h div 256)) (of_nat (unat h)))
      else
        (let gs = [a, b, c, d, e, f, g, h]; (st, n) = zero_span 0 (0, 0) (0, 0) gs in
         if 1 < n then fmt_subslice (take st gs) @ ''::'' @ fmt_subslice (drop (st + n) gs)
         else fmt_subslice gs))"

fun ip_to_string :: "ipaddr \<Rightarrow> string" where
  "ip_to_string (V4 a) = ipv4_to_string a"
| "ip_to_string (V6 a) = ipv6_to_string a"

definition sockaddr_to_string :: "sockaddr \<Rightarrow> string" where
  "sockaddr_to_string sa =
     (case sa_ip sa of
        V4 a \<Rightarrow> ipv4_to_string a @ '':'' @ dec_of_nat (unat (sa_port sa))
      | V6 a \<Rightarrow> ''['' @ ipv6_to_string a @ '']:'' @ dec_of_nat (unat (sa_port sa)))"

section \<open>Order\<close>

text \<open>Addresses are compared octet by octet, which is the order of their numeric values.\<close>

lemma unat_u8_less: "unat (x :: u8) < 256"
  using unsigned_less [of x, where ?'a = nat] by simp

lemma radix_256_inj:
  "m * 256 + unat (x :: u8) = n * 256 + unat (y :: u8) \<longleftrightarrow> m = n \<and> x = y"
  using radix_inj [OF unat_u8_less unat_u8_less, of m x n y] by (simp add: word_unat_eq_iff)

lemma ipv4_nat_inj: "ipv4_nat x = ipv4_nat y \<longleftrightarrow> x = y"
proof (cases x; cases y)
  fix a b c d a' b' c' d'
  assume "x = Ipv4Addr a b c d" and "y = Ipv4Addr a' b' c' d'"
  then show ?thesis
    by (simp only: ipv4_nat.simps radix_256_inj) (auto simp: word_unat_eq_iff)
qed

instantiation ipv4addr :: linorder
begin

definition less_eq_ipv4addr :: "ipv4addr \<Rightarrow> ipv4addr \<Rightarrow> bool" where
  "less_eq_ipv4addr x y \<longleftrightarrow> ipv4_nat x \<le> ipv4_nat y"

definition less_ipv4addr :: "ipv4addr \<Rightarrow> ipv4addr \<Rightarrow> bool" where
  "less_ipv4addr x y \<longleftrightarrow> ipv4_nat x < ipv4_nat y"

instance
  by standard (auto simp: less_eq_ipv4addr_def less_ipv4addr_def ipv4_nat_inj)

end

section \<open>Facts\<close>

lemma unat_u16_less: "unat (x :: u16) < 65536"
  using unsigned_less [of x, where ?'a = nat] by simp

lemma ipv4_nat_bound: "ipv4_nat ip < 4294967296"
proof (cases ip)
  case (Ipv4Addr a b c d)
  then show ?thesis
    using unat_u8_less [of a] unat_u8_less [of b] unat_u8_less [of c] unat_u8_less [of d]
    by simp
qed

lemma unat_ipv4_to_u32: "unat (ipv4_to_u32 ip) = ipv4_nat ip"
  using ipv4_nat_bound [of ip]
  by (simp add: ipv4_to_u32_def unsigned_of_nat take_bit_eq_mod)

lemma of_nat_unat_mod: "(of_nat (k * 256 + unat (x :: u8)) :: u8) = x"
proof -
  have "(of_nat (k * 256) :: u8) = of_nat k * 256" by simp
  also have "(256 :: u8) = 0" by simp
  finally show ?thesis by (simp only: of_nat_add) simp
qed

lemma ipv4_from_to_u32 [simp]: "ipv4_from_u32 (ipv4_to_u32 ip) = ip"
proof (cases ip)
  case (Ipv4Addr a b c d)
  let ?n = "ipv4_nat ip"
  have "?n div 256 = (unat a * 256 + unat b) * 256 + unat c"
    and "?n div 65536 = unat a * 256 + unat b" and "?n div 16777216 = unat a"
    using unat_u8_less [of a] unat_u8_less [of b] unat_u8_less [of c] unat_u8_less [of d]
    unfolding Ipv4Addr by simp_all
  then show ?thesis
    using of_nat_unat_mod [of 0 a] of_nat_unat_mod [of "unat a" b]
      of_nat_unat_mod [of "unat a * 256 + unat b" c]
      of_nat_unat_mod [of "(unat a * 256 + unat b) * 256 + unat c" d]
    by (simp only: ipv4_from_u32_def unat_ipv4_to_u32 Ipv4Addr ipv4_nat.simps) simp
qed

subsection \<open>Printing and parsing IPv4 addresses\<close>

lemma to_digit_10: "to_digit 10 c = (if is_digit c then Some (digit_val c) else None)"
  by (auto simp: to_digit_def is_digit_def digit_val_def Let_def)

text \<open>A run of digits that is followed by no digit is read as a whole.\<close>

lemma read_digits_10:
  assumes "\<forall>c \<in> set ds. is_digit c" and "rest = [] \<or> \<not> is_digit (hd rest)"
    and "cnt + length ds \<le> maxd"
  shows "read_digits 10 maxd res cnt (ds @ rest)
      = Some (foldl (\<lambda>r c. r * 10 + digit_val c) res ds, cnt + length ds, rest)"
  using assms
proof (induction ds arbitrary: res cnt)
  case Nil
  then show ?case by (cases rest) (auto simp: to_digit_10)
qed (auto simp: to_digit_10)

lemma foldl_dec_of_nat: "foldl (\<lambda>r c. r * 10 + digit_val c) 0 (dec_of_nat n) = n"
proof (induction n rule: dec_of_nat.induct)
  case (1 n)
  then show ?case by (subst dec_of_nat.simps) simp
qed

lemma length_dec_of_nat: "n < 10 ^ k \<Longrightarrow> 0 < k \<Longrightarrow> length (dec_of_nat n) \<le> k"
proof (induction k arbitrary: n)
  case (Suc k)
  show ?case
  proof (cases "n < 10")
    case True
    then show ?thesis by (simp add: dec_of_nat.simps)
  next
    case False
    with Suc.prems have "n div 10 < 10 ^ k" and "0 < k" by (auto intro: gr0I)
    with Suc.IH [of "n div 10"] False show ?thesis by (subst dec_of_nat.simps) simp
  qed
qed simp

lemma digit_char_0_iff: "d < 10 \<Longrightarrow> digit_char d = CHR ''0'' \<longleftrightarrow> d = 0"
proof
  assume "d < 10" and "digit_char d = CHR ''0''"
  moreover have "digit_val CHR ''0'' = 0" by (simp add: digit_val_def code_point_def)
  ultimately show "d = 0" by (metis digit_char_props(2))
next
  assume "d = 0"
  moreover have "code_point (digit_char 0) = code_point CHR ''0''"
    by (simp add: digit_char_def code_point_char_of) (simp add: code_point_def)
  ultimately show "digit_char d = CHR ''0''" by (simp only: code_point_eq_iff)
qed

lemma hd_dec_of_nat: "0 < n \<Longrightarrow> hd (dec_of_nat n) \<noteq> CHR ''0''"
proof (induction n rule: dec_of_nat.induct)
  case (1 n)
  then show ?case by (subst dec_of_nat.simps) (auto simp: digit_char_0_iff)
qed

lemma no_leading_zero: "1 < length (dec_of_nat n) \<Longrightarrow> hd (dec_of_nat n) \<noteq> CHR ''0''"
  by (cases "n = 0") (auto simp: dec_of_nat.simps [of 0] hd_dec_of_nat)

lemma read_number_dec:
  assumes "n < 1000" and "n \<le> limit" and "rest = [] \<or> \<not> is_digit (hd rest)"
  shows "read_number 10 3 False limit (dec_of_nat n @ rest) = Some (n, rest)"
proof -
  have "length (dec_of_nat n) \<le> 3" using assms(1) by (intro length_dec_of_nat) auto
  then have "read_digits 10 3 0 0 (dec_of_nat n @ rest) = Some (n, length (dec_of_nat n), rest)"
    using read_digits_10 [of "dec_of_nat n" rest 0 3 0] assms(3)
    by (auto simp: foldl_dec_of_nat intro: dec_of_nat_digits)
  moreover have "take 1 (dec_of_nat n @ rest) = [hd (dec_of_nat n)]"
    by (cases "dec_of_nat n") auto
  ultimately show ?thesis
    using assms(2) no_leading_zero [of n] by (auto simp: read_number_def)
qed

lemma dot_not_digit: "\<not> is_digit CHR ''.''"
  by (simp add: is_digit_def code_point_def)

lemma read_octets_dec:
  assumes "\<forall>n \<in> set ns. n < 256" and "rest = [] \<or> \<not> is_digit (hd rest)"
  shows "read_octets (length ns) False (concat (map (\<lambda>n. CHR ''.'' # dec_of_nat n) ns) @ rest)
      = Some (ns, rest)"
  using assms
proof (induction ns)
  case (Cons n ns)
  let ?t = "concat (map (\<lambda>n. CHR ''.'' # dec_of_nat n) ns) @ rest"
  have "?t = [] \<or> \<not> is_digit (hd ?t)"
    using Cons.prems(2) dot_not_digit by (cases ns) auto
  then have "read_number 10 3 False 255 (dec_of_nat n @ ?t) = Some (n, ?t)"
    using Cons.prems(1) by (intro read_number_dec) auto
  with Cons show ?case by (simp add: read_given_char_def)
qed simp

lemma ipv4_to_string_dots:
  "ipv4_to_string (Ipv4Addr a b c d) = dec_of_nat (unat a)
     @ concat (map (\<lambda>n. CHR ''.'' # dec_of_nat n) [unat b, unat c, unat d])"
  by (simp add: ipv4_to_string_def)

lemma read_ipv4_to_string:
  assumes "rest = [] \<or> \<not> is_digit (hd rest)"
  shows "read_ipv4_addr (ipv4_to_string ip @ rest) = Some (ip, rest)"
proof (cases ip)
  case (Ipv4Addr a b c d)
  let ?ns = "[unat b, unat c, unat d]"
  let ?t = "concat (map (\<lambda>n. CHR ''.'' # dec_of_nat n) ?ns) @ rest"
  have "read_octets (length ?ns) False ?t = Some (?ns, rest)"
    by (rule read_octets_dec) (use assms unat_u8_less in auto)
  moreover have "length ?ns = 3" by simp
  ultimately have "read_octets 3 False ?t = Some (?ns, rest)" by (simp only:)
  moreover have "read_number 10 3 False 255 (dec_of_nat (unat a) @ ?t) = Some (unat a, ?t)"
    using unat_u8_less [of a] dot_not_digit by (intro read_number_dec) auto
  ultimately have "read_octets (Suc 3) True (dec_of_nat (unat a) @ ?t) = Some (unat a # ?ns, rest)"
    by (simp only: read_octets.simps if_True option.case prod.case)
  moreover have "Suc 3 = 4" by simp
  ultimately have "read_octets 4 True (dec_of_nat (unat a) @ ?t) = Some (unat a # ?ns, rest)"
    by (simp only:)
  then show ?thesis
    unfolding Ipv4Addr ipv4_to_string_dots read_ipv4_addr_def append_assoc
    by (simp only: option.case prod.case list.case) simp
qed

lemma length_ipv4_to_string: "length (ipv4_to_string ip) \<le> 15"
proof (cases ip)
  case (Ipv4Addr a b c d)
  have "length (dec_of_nat (unat x)) \<le> 3" for x :: u8
    using unat_u8_less [of x] by (intro length_dec_of_nat) auto
  from this [of a] this [of b] this [of c] this [of d] show ?thesis
    unfolding Ipv4Addr ipv4_to_string_dots by simp
qed

lemma parse_ipv4_to_string [simp]: "parse_ipv4 (ipv4_to_string ip) = Some ip"
  using read_ipv4_to_string [of "[]" ip] length_ipv4_to_string [of ip]
  by (simp add: parse_ipv4_def)

lemma parse_ip_ipv4_to_string [simp]: "parse_ip (ipv4_to_string ip) = Some (V4 ip)"
  using read_ipv4_to_string [of "[]" ip] by (simp add: parse_ip_def)

end
