(* ===== verification/Rule_Model.thy ===== *)
theory Rule_Model
  imports Prelude
begin

text \<open>
  The data of the rule engine and its compact text form: \<open>rules/action.rs\<close> (the action of
  a rule) and \<open>rules/rule.rs\<close> (protocols, rules, the parser of the compact form and the
  printer).  Error messages are the strings the source builds.
\<close>

section \<open>Actions (action.rs)\<close>

datatype rule_action = Direct | Proxy | Reject

definition default_rule_action :: rule_action where
  "default_rule_action = Direct"

fun action_to_string :: "rule_action \<Rightarrow> string" where
  "action_to_string Direct = ''Direct''"
| "action_to_string Proxy = ''Proxy''"
| "action_to_string Reject = ''Reject''"

section \<open>Protocols\<close>

datatype protocol = Tcp | Udp | Icmp | Other u8

definition protocol_from_u8 :: "u8 \<Rightarrow> protocol" where
  "protocol_from_u8 value =
     (if value = 6 then Tcp else if value = 17 then Udp else if value = 1 then Icmp
      else Other value)"

definition protocol_from_str :: "string \<Rightarrow> protocol option" where
  "protocol_from_str s =
     (let l = to_lowercase s in
      if l = ''tcp'' then Some Tcp
      else if l = ''udp'' then Some Udp
      else if l = ''icmp'' then Some Icmp
      else None)"

definition default_protocol :: protocol where
  "default_protocol = Other 0"

fun protocol_to_string :: "protocol \<Rightarrow> string" where
  "protocol_to_string Tcp = ''tcp''"
| "protocol_to_string Udp = ''udp''"
| "protocol_to_string Icmp = ''icmp''"
| "protocol_to_string (Other n) = ''other('' @ dec_of_nat (unat n) @ '')''"

section \<open>Rules\<close>

record rule =
  r_src_ip_cidr :: "string option"
  r_dst_ip_cidr :: "string option"
  r_src_port :: "string option"
  r_dst_port :: "string option"
  r_proto :: "string option"
  r_domain :: "string option"
  r_domain_suffix :: "string option"
  r_domain_keyword :: "string option"
  r_geoip :: "string option"
  r_match_all :: bool
  r_action :: rule_action

definition rule_new :: "rule_action \<Rightarrow> rule" where
  "rule_new action =
     \<lparr>r_src_ip_cidr = None, r_dst_ip_cidr = None, r_src_port = None, r_dst_port = None,
      r_proto = None, r_domain = None, r_domain_suffix = None, r_domain_keyword = None,
      r_geoip = None, r_match_all = False, r_action = action\<rparr>"

definition parse_action :: "string \<Rightarrow> string + rule_action" where
  "parse_action value =
     (let l = to_ascii_lowercase value in
      if l = ''direct'' then Inr Direct
      else if l = ''proxy'' then Inr Proxy
      else if l = ''reject'' \<or> l = ''drop'' then Inr Reject
      else Inl (''unknown rule action '' @ [CHR 0x27] @ value @ [CHR 0x27]))"

definition parse_field_rule_parts :: "string list \<Rightarrow> string \<Rightarrow> string + (string \<times> rule_action)" where
  "parse_field_rule_parts parts field =
     (if length parts \<noteq> 3 then
        Inl (field @ '' rule format must be '' @ field @ '',value,action'')
      else if parts ! 1 = [] then Inl (field @ '' rule value cannot be empty'')
      else case parse_action (parts ! 2) of
             Inl e \<Rightarrow> Inl e
           | Inr action \<Rightarrow> Inr (parts ! 1, action))"

text \<open>The characters no domain or country value may contain.\<close>

definition bad_value_char :: "char \<Rightarrow> bool" where
  "bad_value_char ch \<longleftrightarrow> is_whitespace ch \<or> ch = CHR ''/'' \<or> ch = CHR '',''"

definition normalize_domain_rule_value :: "string \<Rightarrow> string + string" where
  "normalize_domain_rule_value value =
     (let v = to_ascii_lowercase (trim_end_matches CHR ''.'' (trim value)) in
      if v = [] then Inl ''domain rule value cannot be empty''
      else if list_ex bad_value_char v then
        Inl (''invalid domain rule value '' @ [CHR 0x27] @ v @ [CHR 0x27])
      else Inr v)"

definition normalize_geoip_rule_value :: "string \<Rightarrow> string + string" where
  "normalize_geoip_rule_value value =
     (let v = to_ascii_uppercase (trim value) in
      if v = [] then Inl ''GEOIP rule value cannot be empty''
      else if list_ex bad_value_char v then
        Inl (''invalid GEOIP rule value '' @ [CHR 0x27] @ v @ [CHR 0x27])
      else Inr v)"

definition parse_domain_rule_parts :: "string list \<Rightarrow> string \<Rightarrow> string + (string \<times> rule_action)" where
  "parse_domain_rule_parts parts field =
     (case parse_field_rule_parts parts field of
        Inl e \<Rightarrow> Inl e
      | Inr (value, action) \<Rightarrow>
          (case normalize_domain_rule_value value of
             Inl e \<Rightarrow> Inl e
           | Inr v \<Rightarrow> Inr (v, action)))"

definition parse_geoip_rule_parts :: "string list \<Rightarrow> string \<Rightarrow> string + (string \<times> rule_action)" where
  "parse_geoip_rule_parts parts field =
     (case parse_field_rule_parts parts field of
        Inl e \<Rightarrow> Inl e
      | Inr (value, action) \<Rightarrow>
          (case normalize_geoip_rule_value value of
             Inl e \<Rightarrow> Inl e
           | Inr v \<Rightarrow> Inr (v, action)))"

text \<open>The continuation after a successful parse of value and action: set one field.\<close>

definition with_value ::
  "string + (string \<times> rule_action) \<Rightarrow> (string \<Rightarrow> rule \<Rightarrow> rule) \<Rightarrow> string + rule" where
  "with_value r set_field =
     (case r of Inl e \<Rightarrow> Inl e | Inr (v, action) \<Rightarrow> Inr (set_field v (rule_new action)))"

definition parse_compact :: "string \<Rightarrow> string + rule" where
  "parse_compact value =
     (let parts = map trim (split_on CHR '','' value) in
      if parts = [] \<or> parts ! 0 = [] then Inl ''rule is empty''
      else
        (let field = to_ascii_uppercase (parts ! 0) in
         if field = ''MATCH'' then
           (if length parts \<noteq> 2 then Inl ''MATCH rule format must be MATCH,action''
            else case parse_action (parts ! 1) of
                   Inl e \<Rightarrow> Inl e
                 | Inr action \<Rightarrow> Inr ((rule_new action)\<lparr>r_match_all := True\<rparr>))
         else if field = ''SRC-IP-CIDR'' then
           with_value (parse_field_rule_parts parts field) (\<lambda>v r. r\<lparr>r_src_ip_cidr := Some v\<rparr>)
         else if field = ''DST-IP-CIDR'' then
           with_value (parse_field_rule_parts parts field) (\<lambda>v r. r\<lparr>r_dst_ip_cidr := Some v\<rparr>)
         else if field = ''SRC-PORT'' then
           with_value (parse_field_rule_parts parts field) (\<lambda>v r. r\<lparr>r_src_port := Some v\<rparr>)
         else if field = ''DST-PORT'' then
           with_value (parse_field_rule_parts parts field) (\<lambda>v r. r\<lparr>r_dst_port := Some v\<rparr>)
         else if field = ''PROTO'' then
           with_value (parse_field_rule_parts parts field) (\<lambda>v r. r\<lparr>r_proto := Some v\<rparr>)
         else if field = ''DOMAIN'' then
           with_value (parse_domain_rule_parts parts field) (\<lambda>v r. r\<lparr>r_domain := Some v\<rparr>)
         else if field = ''DOMAIN-SUFFIX'' then
           with_value (parse_domain_rule_parts parts field) (\<lambda>v r. r\<lparr>r_domain_suffix := Some v\<rparr>)
         else if field = ''DOMAIN-KEYWORD'' then
           with_value (parse_domain_rule_parts parts field) (\<lambda>v r. r\<lparr>r_domain_keyword := Some v\<rparr>)
         else if field = ''GEOIP'' then
           with_value (parse_geoip_rule_parts parts field) (\<lambda>v r. r\<lparr>r_geoip := Some v\<rparr>)
         else Inl (''unknown rule field '' @ [CHR 0x27] @ parts ! 0 @ [CHR 0x27])))"

definition has_conditions :: "rule \<Rightarrow> bool" where
  "has_conditions r \<longleftrightarrow>
     r_match_all r \<or> r_src_ip_cidr r \<noteq> None \<or> r_dst_ip_cidr r \<noteq> None
     \<or> r_src_port r \<noteq> None \<or> r_dst_port r \<noteq> None \<or> r_proto r \<noteq> None
     \<or> r_domain r \<noteq> None \<or> r_domain_suffix r \<noteq> None \<or> r_domain_keyword r \<noteq> None
     \<or> r_geoip r \<noteq> None"

definition compact :: "string \<Rightarrow> string \<Rightarrow> rule_action \<Rightarrow> string" where
  "compact field value action = field @ '','' @ value @ '','' @ action_to_string action"

definition rule_to_string :: "rule \<Rightarrow> string" where
  "rule_to_string r =
     (if r_match_all r then ''MATCH,'' @ action_to_string (r_action r)
      else case r_src_ip_cidr r of Some v \<Rightarrow> compact ''SRC-IP-CIDR'' v (r_action r) | None \<Rightarrow>
      (case r_dst_ip_cidr r of Some v \<Rightarrow> compact ''DST-IP-CIDR'' v (r_action r) | None \<Rightarrow>
      (case r_src_port r of Some v \<Rightarrow> compact ''SRC-PORT'' v (r_action r) | None \<Rightarrow>
      (case r_dst_port r of Some v \<Rightarrow> compact ''DST-PORT'' v (r_action r) | None \<Rightarrow>
      (case r_proto r of Some v \<Rightarrow> compact ''PROTO'' v (r_action r) | None \<Rightarrow>
      (case r_domain r of Some v \<Rightarrow> compact ''DOMAIN'' v (r_action r) | None \<Rightarrow>
      (case r_domain_suffix r of Some v \<Rightarrow> compact ''DOMAIN-SUFFIX'' v (r_action r) | None \<Rightarrow>
      (case r_domain_keyword r of Some v \<Rightarrow> compact ''DOMAIN-KEYWORD'' v (r_action r) | None \<Rightarrow>
      (case r_geoip r of Some v \<Rightarrow> compact ''GEOIP'' v (r_action r) | None \<Rightarrow>
       ''MATCH,'' @ action_to_string (r_action r))))))))))"

text \<open>Serde: a rule is written as its text, and read from a string or from the error of the reader.\<close>

definition rule_serialize :: "rule \<Rightarrow> string" where
  "rule_serialize r = rule_to_string r"

definition rule_deserialize :: "string + string \<Rightarrow> string + rule" where
  "rule_deserialize value =
     (case value of Inl e \<Rightarrow> Inl e | Inr s \<Rightarrow> (case parse_compact s of Inl e \<Rightarrow> Inl e | Inr r \<Rightarrow> Inr r))"

section \<open>The shape of parsed rules\<close>

text \<open>
  A parsed rule is either the catch-all or sets exactly one condition.  A kind names the
  condition; \<open>rule_of\<close> builds the rule and \<open>kind_normal\<close> says which values the parser can
  leave in the field.
\<close>

datatype rule_kind =
  K_src_ip_cidr | K_dst_ip_cidr | K_src_port | K_dst_port | K_proto
| K_domain | K_domain_suffix | K_domain_keyword | K_geoip

fun kind_field :: "rule_kind \<Rightarrow> string" where
  "kind_field K_src_ip_cidr = ''SRC-IP-CIDR''"
| "kind_field K_dst_ip_cidr = ''DST-IP-CIDR''"
| "kind_field K_src_port = ''SRC-PORT''"
| "kind_field K_dst_port = ''DST-PORT''"
| "kind_field K_proto = ''PROTO''"
| "kind_field K_domain = ''DOMAIN''"
| "kind_field K_domain_suffix = ''DOMAIN-SUFFIX''"
| "kind_field K_domain_keyword = ''DOMAIN-KEYWORD''"
| "kind_field K_geoip = ''GEOIP''"

fun kind_set :: "rule_kind \<Rightarrow> string \<Rightarrow> rule \<Rightarrow> rule" where
  "kind_set K_src_ip_cidr v r = r\<lparr>r_src_ip_cidr := Some v\<rparr>"
| "kind_set K_dst_ip_cidr v r = r\<lparr>r_dst_ip_cidr := Some v\<rparr>"
| "kind_set K_src_port v r = r\<lparr>r_src_port := Some v\<rparr>"
| "kind_set K_dst_port v r = r\<lparr>r_dst_port := Some v\<rparr>"
| "kind_set K_proto v r = r\<lparr>r_proto := Some v\<rparr>"
| "kind_set K_domain v r = r\<lparr>r_domain := Some v\<rparr>"
| "kind_set K_domain_suffix v r = r\<lparr>r_domain_suffix := Some v\<rparr>"
| "kind_set K_domain_keyword v r = r\<lparr>r_domain_keyword := Some v\<rparr>"
| "kind_set K_geoip v r = r\<lparr>r_geoip := Some v\<rparr>"

definition rule_of :: "rule_kind \<Rightarrow> string \<Rightarrow> rule_action \<Rightarrow> rule" where
  "rule_of k v a = kind_set k v (rule_new a)"

definition match_rule :: "rule_action \<Rightarrow> rule" where
  "match_rule a = (rule_new a)\<lparr>r_match_all := True\<rparr>"

definition plain_value :: "string \<Rightarrow> bool" where
  "plain_value v \<longleftrightarrow> v \<noteq> [] \<and> trim v = v \<and> CHR '','' \<notin> set v"

fun kind_normal :: "rule_kind \<Rightarrow> string \<Rightarrow> bool" where
  "kind_normal K_domain v \<longleftrightarrow> normalize_domain_rule_value v = Inr v"
| "kind_normal K_domain_suffix v \<longleftrightarrow> normalize_domain_rule_value v = Inr v"
| "kind_normal K_domain_keyword v \<longleftrightarrow> normalize_domain_rule_value v = Inr v"
| "kind_normal K_geoip v \<longleftrightarrow> normalize_geoip_rule_value v = Inr v"
| "kind_normal k v \<longleftrightarrow> plain_value v"

definition kind_parser ::
  "rule_kind \<Rightarrow> string list \<Rightarrow> string \<Rightarrow> string + (string \<times> rule_action)" where
  "kind_parser k =
     (if k = K_geoip then parse_geoip_rule_parts
      else if k \<in> {K_domain, K_domain_suffix, K_domain_keyword} then parse_domain_rule_parts
      else parse_field_rule_parts)"

section \<open>Facts on the parser\<close>

lemma with_value_Inr:
  "with_value x f = Inr r \<longleftrightarrow> (\<exists>v a. x = Inr (v, a) \<and> r = f v (rule_new a))"
  by (auto simp: with_value_def split: sum.splits)

lemma parse_field_rule_parts_Inr:
  "parse_field_rule_parts parts field = Inr (v, a) \<longleftrightarrow>
     length parts = 3 \<and> parts ! 1 = v \<and> v \<noteq> [] \<and> parse_action (parts ! 2) = Inr a"
  by (auto simp: parse_field_rule_parts_def split: sum.splits)

lemma whitespace_not_upper: "is_whitespace c \<Longrightarrow> \<not> is_ascii_upper c \<and> \<not> is_ascii_lower c"
  by (auto simp: is_whitespace_def is_ascii_upper_def is_ascii_lower_def)

lemma normal_no_bad:
  "\<not> list_ex bad_value_char v \<Longrightarrow> trim v = v \<and> CHR '','' \<notin> set v"
  by (auto simp: list_ex_iff bad_value_char_def intro: trim_no_whitespace)

lemma last_lowercase_dot:
  "s \<noteq> [] \<Longrightarrow> last s \<noteq> CHR ''.'' \<Longrightarrow> last (to_ascii_lowercase s) \<noteq> CHR ''.''"
proof -
  have "\<not> is_ascii_lower CHR ''.''" by (simp add: is_ascii_lower_def code_point_def)
  moreover assume "s \<noteq> []" and "last s \<noteq> CHR ''.''"
  ultimately show ?thesis by (simp add: to_ascii_lowercase_def last_map char_ascii_lower_fix)
qed

text \<open>A normalised value is left alone by a second normalisation.\<close>

lemma normalize_domain_idem:
  assumes "normalize_domain_rule_value w = Inr v"
  shows "normalize_domain_rule_value v = Inr v"
proof -
  let ?t = "trim_end_matches CHR ''.'' (trim w)"
  from assms have v: "v = to_ascii_lowercase ?t" and ne: "v \<noteq> []"
    and ok: "\<not> list_ex bad_value_char v"
    by (auto simp: normalize_domain_rule_value_def Let_def split: if_splits)
  from v ne have "?t \<noteq> []" by simp
  then have "last v \<noteq> CHR ''.''"
    unfolding v by (intro last_lowercase_dot last_trim_end_matches)
  then have "trim_end_matches CHR ''.'' v = v" by (simp add: trim_end_matches_id)
  moreover have "to_ascii_lowercase v = v" by (simp add: v)
  ultimately show ?thesis
    using ne ok normal_no_bad [OF ok] by (simp add: normalize_domain_rule_value_def)
qed

lemma normalize_geoip_idem:
  assumes "normalize_geoip_rule_value w = Inr v"
  shows "normalize_geoip_rule_value v = Inr v"
proof -
  from assms have v: "v = to_ascii_uppercase (trim w)" and ne: "v \<noteq> []"
    and ok: "\<not> list_ex bad_value_char v"
    by (auto simp: normalize_geoip_rule_value_def Let_def split: if_splits)
  have "to_ascii_uppercase v = v" by (simp add: v)
  then show ?thesis
    using ne ok normal_no_bad [OF ok] by (simp add: normalize_geoip_rule_value_def)
qed

lemma normalize_domain_plain: "normalize_domain_rule_value v = Inr v \<Longrightarrow> plain_value v"
  using normal_no_bad [of v]
  by (auto simp: normalize_domain_rule_value_def Let_def plain_value_def split: if_splits)

lemma normalize_geoip_plain: "normalize_geoip_rule_value v = Inr v \<Longrightarrow> plain_value v"
  using normal_no_bad [of v]
  by (auto simp: normalize_geoip_rule_value_def Let_def plain_value_def split: if_splits)

lemma kind_normal_plain: "kind_normal k v \<Longrightarrow> plain_value v"
  by (cases k) (auto intro: normalize_domain_plain normalize_geoip_plain)

lemma kind_parser_Inr:
  assumes "kind_parser k (map trim (split_on CHR '','' s)) field = Inr (v, a)"
  shows "kind_normal k v"
proof -
  let ?parts = "map trim (split_on CHR '','' s)"
  have plain: "plain_value w" if "parse_field_rule_parts ?parts field = Inr (w, a)" for w
  proof -
    from that have len: "length (split_on CHR '','' s) = 3" and w: "?parts ! 1 = w" "w \<noteq> []"
      by (auto simp: parse_field_rule_parts_Inr)
    from len have "split_on CHR '','' s ! 1 \<in> set (split_on CHR '','' s)" by simp
    then have "CHR '','' \<notin> set (split_on CHR '','' s ! 1)" by (rule split_on_parts)
    with w len show ?thesis using set_trim [of "split_on CHR '','' s ! 1"]
      by (auto simp: plain_value_def)
  qed
  from assms show ?thesis
    by (cases k) (auto simp: kind_parser_def parse_domain_rule_parts_def
        parse_geoip_rule_parts_def intro: plain normalize_domain_idem normalize_geoip_idem
        split: sum.splits)
qed

lemma kind_field_facts:
  "kind_field k \<noteq> []" "trim (kind_field k) = kind_field k"
  "to_ascii_uppercase (kind_field k) = kind_field k" "CHR '','' \<notin> set (kind_field k)"
  by (cases k; simp add: str_eval)+

lemma action_text_facts:
  "trim (action_to_string a) = action_to_string a"
  "CHR '','' \<notin> set (action_to_string a)" "parse_action (action_to_string a) = Inr a"
  by (cases a; simp add: parse_action_def str_eval)+

text \<open>The branch a field name selects, and the branch of an unknown name.\<close>

lemma parse_compact_field:
  assumes "to_ascii_uppercase (map trim (split_on CHR '','' s) ! 0) = kind_field k"
  shows "parse_compact s =
    with_value (kind_parser k (map trim (split_on CHR '','' s)) (kind_field k)) (kind_set k)"
proof -
  have ne: "map trim (split_on CHR '','' s) ! 0 \<noteq> []"
    using assms kind_field_facts(1) [of k] by auto
  show ?thesis
    unfolding parse_compact_def Let_def assms using ne
    by (cases k)
       (simp_all only: kind_field.simps if_False if_True list.inject char.inject
          list.distinct simp_thms kind_parser_def,
        simp_all add: with_value_def split: sum.split)
qed

lemma parse_compact_match:
  assumes "to_ascii_uppercase (map trim (split_on CHR '','' s) ! 0) = ''MATCH''"
  shows "parse_compact s =
    (if length (split_on CHR '','' s) \<noteq> 2 then Inl ''MATCH rule format must be MATCH,action''
     else case parse_action (map trim (split_on CHR '','' s) ! 1) of
            Inl e \<Rightarrow> Inl e | Inr a \<Rightarrow> Inr (match_rule a))"
proof -
  have "map trim (split_on CHR '','' s) ! 0 \<noteq> []" using assms by auto
  then show ?thesis
    unfolding parse_compact_def Let_def assms by (simp add: match_rule_def split: sum.split)
qed

lemma parse_compact_unknown:
  assumes "to_ascii_uppercase (map trim (split_on CHR '','' s) ! 0) \<noteq> ''MATCH''"
    and "\<forall>k. to_ascii_uppercase (map trim (split_on CHR '','' s) ! 0) \<noteq> kind_field k"
  shows "\<exists>e. parse_compact s = Inl e"
proof -
  let ?f = "to_ascii_uppercase (map trim (split_on CHR '','' s) ! 0)"
  have "?f \<noteq> kind_field K_src_ip_cidr" "?f \<noteq> kind_field K_dst_ip_cidr"
    "?f \<noteq> kind_field K_src_port" "?f \<noteq> kind_field K_dst_port" "?f \<noteq> kind_field K_proto"
    "?f \<noteq> kind_field K_domain" "?f \<noteq> kind_field K_domain_suffix"
    "?f \<noteq> kind_field K_domain_keyword" "?f \<noteq> kind_field K_geoip"
    using assms(2) by blast+
  with assms(1) show ?thesis
    unfolding parse_compact_def Let_def kind_field.simps by (simp only: if_False) simp
qed

lemma parse_compact_cases:
  assumes "parse_compact s = Inr r"
  obtains (Match) a where "r = match_rule a"
  | (Field) k v a where "r = rule_of k v a" and "kind_normal k v"
proof -
  let ?parts = "map trim (split_on CHR '','' s)"
  consider (m) "to_ascii_uppercase (?parts ! 0) = ''MATCH''"
    | (k) k where "to_ascii_uppercase (?parts ! 0) = kind_field k"
    | (u) "to_ascii_uppercase (?parts ! 0) \<noteq> ''MATCH''"
        "\<forall>k. to_ascii_uppercase (?parts ! 0) \<noteq> kind_field k"
    by blast
  then show thesis
  proof cases
    case m
    with assms Match show thesis
      by (auto simp: parse_compact_match split: if_splits sum.splits)
  next
    case k
    with assms Field kind_parser_Inr show thesis
      by (auto simp: parse_compact_field with_value_Inr rule_of_def)
  next
    case u
    with assms show thesis using parse_compact_unknown by fastforce
  qed
qed

section \<open>Printing and parsing rules\<close>

lemma split_compact:
  assumes "plain_value v"
  shows "map trim (split_on CHR '','' (compact (kind_field k) v a))
      = [kind_field k, v, action_to_string a]"
  using assms kind_field_facts [of k] action_text_facts [of a]
  by (simp add: compact_def plain_value_def str_simps)

lemma parse_compact_compact:
  assumes "kind_normal k v"
  shows "parse_compact (compact (kind_field k) v a) = Inr (rule_of k v a)"
proof -
  let ?parts = "[kind_field k, v, action_to_string a]"
  have parts: "map trim (split_on CHR '','' (compact (kind_field k) v a)) = ?parts"
    by (rule split_compact) (rule kind_normal_plain [OF assms])
  have "parse_field_rule_parts ?parts f = Inr (v, a)" for f
    using kind_normal_plain [OF assms] action_text_facts(3) [of a]
    by (simp add: parse_field_rule_parts_Inr plain_value_def)
  then have "kind_parser k ?parts (kind_field k) = Inr (v, a)"
    using assms
    by (cases k) (simp_all add: kind_parser_def parse_domain_rule_parts_def
        parse_geoip_rule_parts_def)
  then show ?thesis
    using parse_compact_field [of "compact (kind_field k) v a" k] kind_field_facts(3) [of k]
    unfolding parts by (simp add: with_value_def rule_of_def)
qed

lemma rule_to_string_rule_of: "rule_to_string (rule_of k v a) = compact (kind_field k) v a"
  by (cases k) (simp_all add: rule_to_string_def rule_of_def rule_new_def)

lemma parse_compact_match_text:
  "parse_compact (''MATCH,'' @ action_to_string a) = Inr (match_rule a)"
proof -
  have "split_on CHR '','' (''MATCH'' @ CHR '','' # action_to_string a)
      = [''MATCH'', action_to_string a]"
    using action_text_facts(2) [of a] by (subst split_on_sep) (simp_all add: str_simps)
  then have "map trim (split_on CHR '','' (''MATCH,'' @ action_to_string a))
      = [''MATCH'', action_to_string a]"
    using action_text_facts(1) [of a] by (simp add: str_eval)
  moreover have "to_ascii_uppercase ''MATCH'' = ''MATCH''" by (simp add: str_eval)
  ultimately show ?thesis
    using action_text_facts(3) [of a] parse_compact_match [of "''MATCH,'' @ action_to_string a"]
    by (metis (no_types, lifting) length_map list.size(3,4) nth_Cons_0 nth_Cons_Suc One_nat_def numeral_2_eq_2 add_0 plus_1_eq_Suc sum.case(2) add.commute)
qed

lemma rule_roundtrip:
  assumes "parse_compact s = Inr r"
  shows "parse_compact (rule_to_string r) = Inr r"
  using assms
proof (cases rule: parse_compact_cases)
  case (Match a)
  then show ?thesis
    using parse_compact_match_text [of a] by (simp add: rule_to_string_def match_rule_def rule_new_def)
next
  case (Field k v a)
  then show ?thesis by (simp add: rule_to_string_rule_of parse_compact_compact)
qed

lemma rule_serde_roundtrip:
  assumes "rule_deserialize value = Inr r"
  shows "rule_deserialize (Inr (rule_serialize r)) = Inr r"
  using assms rule_roundtrip by (auto simp: rule_deserialize_def rule_serialize_def split: sum.splits)

lemma parsed_rule_has_conditions: "parse_compact s = Inr r \<Longrightarrow> has_conditions r"
proof (elim parse_compact_cases)
  fix k v a assume "r = rule_of k v a"
  then show "has_conditions r" by (cases k) (auto simp: has_conditions_def rule_of_def)
qed (simp add: has_conditions_def match_rule_def)

section \<open>Properties\<close>

text \<open>C22: Printing a rule that was read from the configuration and parsing the printed text
  gives the same rule back, so saving and reloading a configuration keeps its rules.\<close>

theorem parse_display_roundtrip:
  assumes "parse_compact s = Inr r"
  shows "parse_compact (rule_to_string r) = Inr r"
  using assms by (rule rule_roundtrip)

theorem parse_display_roundtrip_witness:
  "parse_compact '' domain , Example.COM. , Drop'' = Inr (rule_of K_domain ''example.com'' Reject)
   \<and> parse_compact (rule_to_string (rule_of K_domain ''example.com'' Reject))
       = Inr (rule_of K_domain ''example.com'' Reject)"
proof -
  have "parse_compact '' domain , Example.COM. , Drop''
      = Inr (rule_of K_domain ''example.com'' Reject)"
    by (simp add: parse_compact_def parse_domain_rule_parts_def parse_field_rule_parts_def
        parse_action_def normalize_domain_rule_value_def with_value_def bad_value_char_def
        str_eval rule_of_def)
  then show ?thesis using parse_display_roundtrip by blast
qed

text \<open>C33: A successfully parsed rule is the catch-all with no other condition, or it sets
  exactly one condition, whose value is already in the normal form of its field; no parsed rule
  is without a condition.\<close>

theorem parsed_rule_one_condition:
  assumes "parse_compact s = Inr r"
  shows "has_conditions r \<and>
    ((\<exists>a. r = match_rule a) \<or> (\<exists>k v a. r = rule_of k v a \<and> kind_normal k v))"
  using assms parsed_rule_has_conditions [OF assms] by (cases rule: parse_compact_cases) auto

theorem parsed_rule_one_condition_witness:
  "has_conditions (rule_of K_dst_port ''22'' Reject) \<and>
    ((\<exists>a. rule_of K_dst_port ''22'' Reject = match_rule a) \<or>
     (\<exists>k v a. rule_of K_dst_port ''22'' Reject = rule_of k v a \<and> kind_normal k v))"
proof -
  have "parse_compact ''DST-PORT,22,reject'' = Inr (rule_of K_dst_port ''22'' Reject)"
    by (simp add: parse_compact_def parse_field_rule_parts_def parse_action_def with_value_def
        str_eval rule_of_def)
  then show ?thesis by (rule parsed_rule_one_condition)
qed

end
