(* ===== verification/Config.thy ===== *)
theory Config
  imports Net_Addr Rule_Model
begin

text \<open>
  The configuration (\<open>config.rs\<close>): its records and defaults, the validation of rules, port
  ranges, DNS server lists, and the loading and saving of the two configuration files.

  Parameters stand for code outside the repository: \<open>parse_net\<close> is the parser of
  \<open>ipnetwork::Ipv4Network\<close> (its error as the text it displays) and the YAML functions are
  those of \<open>serde_yaml\<close> at the types they are used at.  The file system is a state: the
  content of each path, and the errors the operating system would report.
\<close>

section \<open>Errors\<close>

datatype config_error =
  IoError string | ParseError string | ValidationError string | InvalidCidr string
| InvalidPortRange string

fun config_error_to_string :: "config_error \<Rightarrow> string" where
  "config_error_to_string (IoError e) = ''failed to read file: '' @ e"
| "config_error_to_string (ParseError e) = ''failed to parse YAML: '' @ e"
| "config_error_to_string (ValidationError msg) = ''rule validation failed: '' @ msg"
| "config_error_to_string (InvalidCidr cidr) = ''invalid CIDR notation: '' @ cidr"
| "config_error_to_string (InvalidPortRange rng) = ''invalid port range: '' @ rng"

text \<open>A sequence of checks that returns at the first error.\<close>

fun check_all :: "('e + unit) list \<Rightarrow> 'e + unit" where
  "check_all [] = Inr ()"
| "check_all (c # cs) = (case c of Inl e \<Rightarrow> Inl e | Inr _ \<Rightarrow> check_all cs)"

definition check_opt :: "'a option \<Rightarrow> ('a \<Rightarrow> 'e + unit) \<Rightarrow> 'e + unit" where
  "check_opt x f = (case x of None \<Rightarrow> Inr () | Some v \<Rightarrow> f v)"

section \<open>Port ranges\<close>

definition parse_port_range :: "string \<Rightarrow> string + (u16 \<times> u16)" where
  "parse_port_range s =
     (if CHR ''-'' \<in> set s then
        (let parts = split_on CHR ''-'' s in
         if length parts \<noteq> 2 then Inl ''invalid range format''
         else case parse_u16 (parts ! 0) of
                None \<Rightarrow> Inl ''invalid start port''
              | Some start \<Rightarrow>
                  (case parse_u16 (parts ! 1) of
                     None \<Rightarrow> Inl ''invalid end port''
                   | Some end_port \<Rightarrow>
                       if start > end_port then Inl ''start port is greater than end port''
                       else Inr (start, end_port)))
      else case parse_u16 s of None \<Rightarrow> Inl ''invalid port'' | Some port \<Rightarrow> Inr (port, port))"

section \<open>Rules configuration\<close>

record rules_config =
  rc_default_action :: rule_action
  rc_rules :: "rule list"
  rc_geoip_path :: "string option"

definition default_rules :: rules_config where
  "default_rules = \<lparr>rc_default_action = Reject, rc_rules = [], rc_geoip_path = None\<rparr>"

definition validate_geoip_rule_value :: "string \<Rightarrow> string \<Rightarrow> config_error + unit" where
  "validate_geoip_rule_value rule_name value =
     (if value = [] then
        Inl (ValidationError (''rule '' @ [CHR 0x27] @ rule_name @ [CHR 0x27]
               @ '' has an empty GEOIP value''))
      else if list_ex bad_value_char value then
        Inl (ValidationError (''rule '' @ [CHR 0x27] @ rule_name @ [CHR 0x27]
               @ '' has an invalid GEOIP value: '' @ value))
      else Inr ())"

definition validate_domain_rule_value ::
  "string \<Rightarrow> string \<Rightarrow> string \<Rightarrow> config_error + unit" where
  "validate_domain_rule_value rule_name field value =
     (if value = [] then
        Inl (ValidationError (''rule '' @ [CHR 0x27] @ rule_name @ [CHR 0x27]
               @ '' has an empty '' @ field @ '' value''))
      else if list_ex bad_value_char value then
        Inl (ValidationError (''rule '' @ [CHR 0x27] @ rule_name @ [CHR 0x27]
               @ '' has an invalid '' @ field @ '' value: '' @ value))
      else Inr ())"

definition rule_label :: "nat \<Rightarrow> string" where
  "rule_label index = ''rule at index '' @ dec_of_nat index"

definition check_cidr ::
  "(string \<Rightarrow> string + 'n) \<Rightarrow> string \<Rightarrow> string \<Rightarrow> string \<Rightarrow> config_error + unit" where
  "check_cidr parse_net label field cidr =
     (case parse_net cidr of
        Inl e \<Rightarrow> Inl (InvalidCidr (label @ '' has an invalid '' @ field @ '': '' @ cidr
                       @ '' ('' @ e @ '')''))
      | Inr _ \<Rightarrow> Inr ())"

definition check_port :: "string \<Rightarrow> string \<Rightarrow> string \<Rightarrow> config_error + unit" where
  "check_port label field port =
     (case parse_port_range port of
        Inl e \<Rightarrow> Inl (InvalidPortRange (label @ '' has an invalid '' @ field @ '': '' @ port
                       @ '' ('' @ e @ '')''))
      | Inr _ \<Rightarrow> Inr ())"

definition check_proto :: "string \<Rightarrow> string \<Rightarrow> config_error + unit" where
  "check_proto label proto =
     (if protocol_from_str proto = None then
        Inl (ValidationError (label @ '' has an invalid PROTO: '' @ proto
               @ '' (must be tcp/udp/icmp)''))
      else Inr ())"

text \<open>The checks of one rule, in the order of the loop body.\<close>

definition validate_rule ::
  "(string \<Rightarrow> string + 'n) \<Rightarrow> nat \<Rightarrow> rule \<Rightarrow> config_error + unit" where
  "validate_rule parse_net index r =
     (let label = rule_label index in
      check_all
        [if \<not> has_conditions r then Inl (ValidationError (label @ '' has no match conditions''))
         else Inr (),
         check_opt (r_src_ip_cidr r) (check_cidr parse_net label ''SRC-IP-CIDR''),
         check_opt (r_dst_ip_cidr r) (check_cidr parse_net label ''DST-IP-CIDR''),
         check_opt (r_src_port r) (check_port label ''SRC-PORT''),
         check_opt (r_dst_port r) (check_port label ''DST-PORT''),
         check_opt (r_proto r) (check_proto label),
         check_opt (r_domain r) (validate_domain_rule_value label ''DOMAIN''),
         check_opt (r_domain_suffix r) (validate_domain_rule_value label ''DOMAIN-SUFFIX''),
         check_opt (r_domain_keyword r) (validate_domain_rule_value label ''DOMAIN-KEYWORD''),
         check_opt (r_geoip r) (validate_geoip_rule_value label)])"

fun validate_from ::
  "(string \<Rightarrow> string + 'n) \<Rightarrow> nat \<Rightarrow> rule list \<Rightarrow> config_error + unit" where
  "validate_from parse_net index [] = Inr ()"
| "validate_from parse_net index (r # rs) =
     (case validate_rule parse_net index r of
        Inl e \<Rightarrow> Inl e
      | Inr _ \<Rightarrow> validate_from parse_net (Suc index) rs)"

definition validate :: "(string \<Rightarrow> string + 'n) \<Rightarrow> rules_config \<Rightarrow> config_error + unit" where
  "validate parse_net config = validate_from parse_net 0 (rc_rules config)"

text \<open>
  Deserialising the compact list: each element is a string or the error of the reader, and
  the first error ends the list.
\<close>

fun visit_rules :: "(string + string) list \<Rightarrow> string + rule list" where
  "visit_rules [] = Inr []"
| "visit_rules (el # els) =
     (case el of
        Inl e \<Rightarrow> Inl e
      | Inr raw_rule \<Rightarrow>
          (case parse_compact raw_rule of
             Inl e \<Rightarrow> Inl e
           | Inr r \<Rightarrow>
               (case visit_rules els of Inl e \<Rightarrow> Inl e | Inr rs \<Rightarrow> Inr (r # rs))))"

definition visit_rules_config :: "(string + string) list \<Rightarrow> string + rules_config" where
  "visit_rules_config els =
     (case visit_rules els of
        Inl e \<Rightarrow> Inl e
      | Inr rules \<Rightarrow>
          Inr \<lparr>rc_default_action = Reject, rc_rules = rules, rc_geoip_path = None\<rparr>)"

definition serialize_rules :: "rules_config \<Rightarrow> string list" where
  "serialize_rules config = map rule_to_string (rc_rules config)"

definition from_yaml ::
  "(string \<Rightarrow> string + (string + string) list) \<Rightarrow> (string \<Rightarrow> string + 'n) \<Rightarrow> string
     \<Rightarrow> config_error + rules_config" where
  "from_yaml yaml_seq parse_net yaml_str =
     (case yaml_seq yaml_str of
        Inl e \<Rightarrow> Inl (ParseError e)
      | Inr els \<Rightarrow>
          (case visit_rules_config els of
             Inl e \<Rightarrow> Inl (ParseError e)
           | Inr config \<Rightarrow>
               (case validate parse_net config of
                  Inl e \<Rightarrow> Inl e
                | Inr _ \<Rightarrow> Inr config)))"

definition rules_from_file ::
  "(string \<Rightarrow> string + (string + string) list) \<Rightarrow> (string \<Rightarrow> string + 'n) \<Rightarrow> string + string
     \<Rightarrow> config_error + rules_config" where
  "rules_from_file yaml_seq parse_net content =
     (case content of
        Inl e \<Rightarrow> Inl (IoError e)
      | Inr text \<Rightarrow> from_yaml yaml_seq parse_net text)"

section \<open>Application configuration\<close>

record rule_set_config =
  rs_geoip_path :: "string option"

record runtime_config =
  rt_mode :: string
  rt_log_level :: string

record client_config =
  cc_transport_type :: string
  cc_server_addr :: sockaddr
  cc_ca_cert_path :: string
  cc_session_id :: string
  cc_token :: string

record client_state =
  cs_session_id :: string

record server_config =
  sc_transport_type :: string
  sc_bind_addr :: sockaddr
  sc_tun_name :: string
  sc_tun_addr :: ipaddr
  sc_tun_netmask :: ipaddr
  sc_tun_destination :: ipaddr
  sc_tun_dns_servers :: "ipaddr list"
  sc_tun_mtu :: nat
  sc_cert_path :: string
  sc_key_path :: string
  sc_token :: string

record transparent_proxy_config =
  tp_interface :: string
  tp_smoltcp_addr :: ipaddr
  tp_smoltcp_netmask :: ipaddr
  tp_smoltcp_gateway :: ipaddr
  tp_upstream_server :: "ipaddr option"

record app_config =
  ac_runtime :: runtime_config
  ac_client :: client_config
  ac_server :: server_config
  ac_rules :: rules_config
  ac_rule_sets :: rule_set_config
  ac_transparent_proxy :: transparent_proxy_config

definition default_rule_set_config :: rule_set_config where
  "default_rule_set_config = \<lparr>rs_geoip_path = None\<rparr>"

definition default_runtime_config :: runtime_config where
  "default_runtime_config = \<lparr>rt_mode = ''client'', rt_log_level = ''info''\<rparr>"

definition default_client_config :: client_config where
  "default_client_config =
     \<lparr>cc_transport_type = ''udp'',
      cc_server_addr = \<lparr>sa_ip = V4 (Ipv4Addr 127 0 0 1), sa_port = 12345\<rparr>,
      cc_ca_cert_path = ''certs/ca-cert.pem'', cc_session_id = [], cc_token = []\<rparr>"

definition default_client_state :: client_state where
  "default_client_state = \<lparr>cs_session_id = []\<rparr>"

definition default_server_config :: server_config where
  "default_server_config =
     \<lparr>sc_transport_type = ''udp'',
      sc_bind_addr = \<lparr>sa_ip = V4 (Ipv4Addr 127 0 0 1), sa_port = 12345\<rparr>,
      sc_tun_name = ''tun0'',
      sc_tun_addr = V4 (Ipv4Addr 10 0 0 1),
      sc_tun_netmask = V4 (Ipv4Addr 255 255 255 0),
      sc_tun_destination = V4 (Ipv4Addr 10 0 0 0),
      sc_tun_dns_servers = [V4 (Ipv4Addr 114 114 114 114), V4 (Ipv4Addr 8 8 8 8)],
      sc_tun_mtu = 1400,
      sc_cert_path = ''certs/server-cert.pem'',
      sc_key_path = ''certs/server-key.pem'',
      sc_token = []\<rparr>"

definition default_transparent_proxy_config :: transparent_proxy_config where
  "default_transparent_proxy_config =
     \<lparr>tp_interface = [],
      tp_smoltcp_addr = V4 (Ipv4Addr 10 0 0 2),
      tp_smoltcp_netmask = V4 (Ipv4Addr 255 255 255 0),
      tp_smoltcp_gateway = V4 (Ipv4Addr 10 0 0 1),
      tp_upstream_server = None\<rparr>"

definition default_app_config :: app_config where
  "default_app_config =
     \<lparr>ac_runtime = default_runtime_config, ac_client = default_client_config,
      ac_server = default_server_config, ac_rules = default_rules,
      ac_rule_sets = default_rule_set_config,
      ac_transparent_proxy = default_transparent_proxy_config\<rparr>"

section \<open>DNS server lists\<close>

text \<open>The list is written as one comma-separated string or as a list of strings.\<close>

definition parse_dns_servers :: "string list \<Rightarrow> string + ipaddr list" where
  "parse_dns_servers values =
     collect_results
       (map (\<lambda>v. case parse_ip v of None \<Rightarrow> Inl ''invalid IP address syntax'' | Some ip \<Rightarrow> Inr ip)
         (filter (\<lambda>v. v \<noteq> []) (map trim values)))"

definition dns_visit_str :: "string \<Rightarrow> string + ipaddr list" where
  "dns_visit_str value = parse_dns_servers (split_on CHR '','' value)"

fun dns_visit_seq :: "(string + string) list \<Rightarrow> string + ipaddr list" where
  "dns_visit_seq [] = Inr []"
| "dns_visit_seq (el # els) =
     (case el of
        Inl e \<Rightarrow> Inl e
      | Inr raw \<Rightarrow>
          (let value = trim raw in
           if value = [] then dns_visit_seq els
           else case parse_ip value of
                  None \<Rightarrow> Inl ''invalid IP address syntax''
                | Some ip \<Rightarrow>
                    (case dns_visit_seq els of
                       Inl e \<Rightarrow> Inl e
                     | Inr ips \<Rightarrow> Inr (ip # ips))))"

section \<open>Configuration files\<close>

text \<open>
  The file system: the content of each existing path (\<open>Inl\<close> when reading it fails), and the
  errors that creating the parent directories of a path or writing a path would report.
\<close>

record file_system =
  fs_files :: "string \<Rightarrow> (string + string) option"
  fs_mkdir_error :: "string \<Rightarrow> string option"
  fs_write_error :: "string \<Rightarrow> string option"

definition APP_CONFIG_PATH :: string where
  "APP_CONFIG_PATH = ''config/easynet.yaml''"

definition CLIENT_STATE_PATH :: string where
  "CLIENT_STATE_PATH = ''config/client_state.yaml''"

text \<open>Creating the parent directory and writing a text that may have failed to serialise.\<close>

definition write_config ::
  "string \<Rightarrow> string + string \<Rightarrow> file_system \<Rightarrow> (string + unit) \<times> file_system" where
  "write_config path text fs =
     (case fs_mkdir_error fs path of
        Some e \<Rightarrow> (Inl e, fs)
      | None \<Rightarrow>
          (case text of
             Inl e \<Rightarrow> (Inl e, fs)
           | Inr content \<Rightarrow>
               (case fs_write_error fs path of
                  Some e \<Rightarrow> (Inl e, fs)
                | None \<Rightarrow> (Inr (), fs\<lparr>fs_files := (fs_files fs)(path := Some (Inr content))\<rparr>))))"

definition save_to_file ::
  "(app_config \<Rightarrow> string + string) \<Rightarrow> app_config \<Rightarrow> string \<Rightarrow> file_system
     \<Rightarrow> (string + unit) \<times> file_system" where
  "save_to_file to_yaml config path fs = write_config path (to_yaml config) fs"

definition load_from_file ::
  "(app_config \<Rightarrow> string + string) \<Rightarrow> (string \<Rightarrow> string + app_config) \<Rightarrow> string \<Rightarrow> file_system
     \<Rightarrow> (string + app_config) \<times> file_system" where
  "load_from_file to_yaml of_yaml path fs =
     (case fs_files fs path of
        None \<Rightarrow>
          (case save_to_file to_yaml default_app_config path fs of
             (Inl e, fs') \<Rightarrow> (Inl e, fs')
           | (Inr _, fs') \<Rightarrow> (Inr default_app_config, fs'))
      | Some (Inl e) \<Rightarrow> (Inl e, fs)
      | Some (Inr content) \<Rightarrow> (of_yaml content, fs))"

definition load_client_state ::
  "(string \<Rightarrow> string + client_state) \<Rightarrow> file_system \<Rightarrow> string + client_state" where
  "load_client_state state_of_yaml fs =
     (case fs_files fs CLIENT_STATE_PATH of
        Some (Inl e) \<Rightarrow> Inl e
      | Some (Inr content) \<Rightarrow> state_of_yaml content
      | None \<Rightarrow> Inr default_client_state)"

definition save_client_state ::
  "(client_state \<Rightarrow> string + string) \<Rightarrow> client_state \<Rightarrow> file_system
     \<Rightarrow> (string + unit) \<times> file_system" where
  "save_client_state state_to_yaml st fs =
     write_config CLIENT_STATE_PATH (state_to_yaml st) fs"

definition apply_rule_set_paths :: "app_config \<Rightarrow> app_config" where
  "apply_rule_set_paths config =
     config\<lparr>ac_rules := (ac_rules config)\<lparr>rc_geoip_path := rs_geoip_path (ac_rule_sets config)\<rparr>\<rparr>"

definition load ::
  "(app_config \<Rightarrow> string + string) \<Rightarrow> (string \<Rightarrow> string + app_config)
     \<Rightarrow> (string \<Rightarrow> string + client_state) \<Rightarrow> file_system
     \<Rightarrow> (string + app_config) \<times> file_system" where
  "load to_yaml of_yaml state_of_yaml fs =
     (case load_from_file to_yaml of_yaml APP_CONFIG_PATH fs of
        (Inl e, fs') \<Rightarrow> (Inl e, fs')
      | (Inr config, fs') \<Rightarrow>
          (case load_client_state state_of_yaml fs' of
             Inl e \<Rightarrow> (Inl e, fs')
           | Inr st \<Rightarrow>
               (Inr (apply_rule_set_paths
                  (config\<lparr>ac_client := (ac_client config)\<lparr>cc_session_id := cs_session_id st\<rparr>\<rparr>)),
                fs')))"

definition save ::
  "(app_config \<Rightarrow> string + string) \<Rightarrow> app_config \<Rightarrow> file_system \<Rightarrow> (string + unit) \<times> file_system" where
  "save to_yaml config fs = save_to_file to_yaml config APP_CONFIG_PATH fs"

definition server_config_load ::
  "(app_config \<Rightarrow> string + string) \<Rightarrow> (string \<Rightarrow> string + app_config)
     \<Rightarrow> (string \<Rightarrow> string + client_state) \<Rightarrow> file_system
     \<Rightarrow> (string + server_config) \<times> file_system" where
  "server_config_load to_yaml of_yaml state_of_yaml fs =
     (case load to_yaml of_yaml state_of_yaml fs of
        (Inl e, fs') \<Rightarrow> (Inl e, fs')
      | (Inr config, fs') \<Rightarrow> (Inr (ac_server config), fs'))"

section \<open>What validation accepts\<close>

text \<open>The declarative reading of the checks: what an accepted rule satisfies.\<close>

definition opt_all :: "('a \<Rightarrow> bool) \<Rightarrow> 'a option \<Rightarrow> bool" where
  "opt_all p x = (case x of None \<Rightarrow> True | Some v \<Rightarrow> p v)"

definition value_ok :: "string \<Rightarrow> bool" where
  "value_ok v \<longleftrightarrow> v \<noteq> [] \<and> \<not> list_ex bad_value_char v"

definition formats_ok :: "(string \<Rightarrow> string + 'n) \<Rightarrow> rule \<Rightarrow> bool" where
  "formats_ok parse_net r \<longleftrightarrow>
     opt_all (\<lambda>c. is_ok (parse_net c)) (r_src_ip_cidr r)
     \<and> opt_all (\<lambda>c. is_ok (parse_net c)) (r_dst_ip_cidr r)
     \<and> opt_all (\<lambda>p. is_ok (parse_port_range p)) (r_src_port r)
     \<and> opt_all (\<lambda>p. is_ok (parse_port_range p)) (r_dst_port r)
     \<and> opt_all (\<lambda>p. protocol_from_str p \<noteq> None) (r_proto r)"

definition rule_ok :: "(string \<Rightarrow> string + 'n) \<Rightarrow> rule \<Rightarrow> bool" where
  "rule_ok parse_net r \<longleftrightarrow>
     has_conditions r \<and> formats_ok parse_net r
     \<and> opt_all value_ok (r_domain r) \<and> opt_all value_ok (r_domain_suffix r)
     \<and> opt_all value_ok (r_domain_keyword r) \<and> opt_all value_ok (r_geoip r)"

lemma is_ok_iff: "is_ok x \<longleftrightarrow> (\<exists>v. x = Inr v)"
  by (cases x) auto

lemma check_all_Inr: "check_all cs = Inr () \<longleftrightarrow> (\<forall>c \<in> set cs. c = Inr ())"
  by (induction cs) (auto split: sum.splits)

lemma check_opt_Inr: "check_opt x f = Inr () \<longleftrightarrow> opt_all (\<lambda>v. f v = Inr ()) x"
  by (simp add: check_opt_def opt_all_def split: option.split)

lemma check_cidr_Inr: "check_cidr parse_net l f c = Inr () \<longleftrightarrow> is_ok (parse_net c)"
  by (simp add: check_cidr_def is_ok_iff split: sum.split)

lemma check_port_Inr: "check_port l f p = Inr () \<longleftrightarrow> is_ok (parse_port_range p)"
  by (simp add: check_port_def is_ok_iff split: sum.split)

lemma check_proto_Inr: "check_proto l p = Inr () \<longleftrightarrow> protocol_from_str p \<noteq> None"
  by (simp add: check_proto_def)

lemma validate_domain_Inr: "validate_domain_rule_value l f v = Inr () \<longleftrightarrow> value_ok v"
  by (simp add: validate_domain_rule_value_def value_ok_def)

lemma validate_geoip_Inr: "validate_geoip_rule_value l v = Inr () \<longleftrightarrow> value_ok v"
  by (simp add: validate_geoip_rule_value_def value_ok_def)

lemma validate_rule_Inr: "validate_rule parse_net i r = Inr () \<longleftrightarrow> rule_ok parse_net r"
  unfolding validate_rule_def Let_def check_all_Inr rule_ok_def formats_ok_def
  by (simp add: check_opt_Inr check_cidr_Inr check_port_Inr check_proto_Inr
      validate_domain_Inr validate_geoip_Inr)

lemma validate_from_Inr: "validate_from parse_net i rs = Inr () \<longleftrightarrow> list_all (rule_ok parse_net) rs"
proof (induction rs arbitrary: i)
  case (Cons r rs)
  then show ?case using validate_rule_Inr [of parse_net i r]
    by (cases "validate_rule parse_net i r") auto
qed simp

lemma validate_from_Inl:
  "validate_from parse_net i rs = Inl e \<longleftrightarrow>
     (\<exists>k < length rs. validate_rule parse_net (i + k) (rs ! k) = Inl e
        \<and> list_all (rule_ok parse_net) (take k rs))"
proof (induction rs arbitrary: i)
  case (Cons r rs)
  show ?case
  proof (cases "validate_rule parse_net i r")
    case (Inl e')
    then have "\<not> rule_ok parse_net r" using validate_rule_Inr [of parse_net i r] by auto
    with Inl show ?thesis by (auto simp: Ex_less_Suc2 nth_Cons')
  next
    case (Inr u)
    then have "rule_ok parse_net r" using validate_rule_Inr [of parse_net i r] by simp
    with Inr Cons.IH [of "Suc i"] show ?thesis
      by (simp add: Ex_less_Suc2)
  qed
qed simp

lemma validate_Inr: "validate parse_net c = Inr () \<longleftrightarrow> list_all (rule_ok parse_net) (rc_rules c)"
  by (simp add: validate_def validate_from_Inr)

lemma normal_value_ok:
  "normalize_domain_rule_value v = Inr v \<Longrightarrow> value_ok v"
  "normalize_geoip_rule_value v = Inr v \<Longrightarrow> value_ok v"
  by (auto simp: normalize_domain_rule_value_def normalize_geoip_rule_value_def value_ok_def
      Let_def split: if_splits)

text \<open>For a parsed rule only the formats the parser does not look at are left to check.\<close>

lemma parsed_rule_ok:
  assumes "parse_compact s = Inr r"
  shows "rule_ok parse_net r \<longleftrightarrow> formats_ok parse_net r"
  using assms
proof (cases rule: parse_compact_cases)
  case (Match a)
  then show ?thesis
    using parsed_rule_has_conditions [OF assms]
    by (simp add: rule_ok_def match_rule_def rule_new_def opt_all_def)
next
  case (Field k v a)
  then show ?thesis
    using parsed_rule_has_conditions [OF assms] normal_value_ok [of v]
    by (cases k) (simp_all add: rule_ok_def rule_of_def rule_new_def opt_all_def)
qed

lemma visit_rules_Inr:
  "visit_rules els = Inr rs \<Longrightarrow> list_all2 (\<lambda>el r. \<exists>s. el = Inr s \<and> parse_compact s = Inr r) els rs"
  by (induction els arbitrary: rs) (auto split: sum.splits)

lemma visit_rules_printed:
  "\<forall>r \<in> set rs. parse_compact (rule_to_string r) = Inr r \<Longrightarrow>
     visit_rules (map Inr (map rule_to_string rs)) = Inr rs"
  by (induction rs) auto

lemma visited_rules_parsed:
  assumes "visit_rules els = Inr rs" and "r \<in> set rs"
  shows "\<exists>s. parse_compact s = Inr r"
  using visit_rules_Inr [OF assms(1)] assms(2) by (auto simp: list_all2_conv_all_nth in_set_conv_nth)

section \<open>Facts on port ranges and address lists\<close>

lemma parse_port_range_ordered: "parse_port_range s = Inr (a, b) \<Longrightarrow> a \<le> b"
  by (auto simp: parse_port_range_def Let_def split: if_splits option.splits)

lemma dec_no_dash: "CHR ''-'' \<notin> set (dec_of_nat n)"
  using dec_of_nat_digits [of "CHR ''-''" n] by (auto simp: is_digit_def code_point_def)

lemma parse_port_range_single: "parse_port_range (dec_of_nat (unat p)) = Inr (p, p)"
  by (simp add: parse_port_range_def dec_no_dash)

lemma parse_port_range_pair:
  assumes "a \<le> b"
  shows "parse_port_range (dec_of_nat (unat a) @ ''-'' @ dec_of_nat (unat b)) = Inr (a, b)"
proof -
  have "split_on CHR ''-'' (dec_of_nat (unat a) @ ''-'' @ dec_of_nat (unat b))
      = [dec_of_nat (unat a), dec_of_nat (unat b)]"
    using dec_no_dash by (simp add: str_simps)
  with assms show ?thesis by (simp add: parse_port_range_def)
qed

lemma dns_visit_seq_parse: "dns_visit_seq (map Inr vs) = parse_dns_servers vs"
  by (induction vs) (auto simp: parse_dns_servers_def Let_def split: option.split)

section \<open>Facts on configuration files\<close>

lemma save_client_state_content:
  assumes "save_client_state state_to_yaml st fs = (Inr (), fs')"
  shows "\<exists>text. state_to_yaml st = Inr text \<and> fs_files fs' CLIENT_STATE_PATH = Some (Inr text)"
  using assms
  by (auto simp: save_client_state_def write_config_def split: option.splits sum.splits)

lemma load_from_file_frame:
  assumes "load_from_file to_yaml of_yaml path fs = (r, fs')" and "p \<noteq> path"
  shows "fs_files fs' p = fs_files fs p"
  using assms
  by (auto simp: load_from_file_def save_to_file_def write_config_def
      split: option.splits sum.splits prod.splits)

lemma save_client_state_frame:
  assumes "save_client_state state_to_yaml st fs = (r, fs')" and "p \<noteq> CLIENT_STATE_PATH"
  shows "fs_files fs' p = fs_files fs p"
  using assms
  by (auto simp: save_client_state_def write_config_def split: option.splits sum.splits)

lemma paths_differ: "APP_CONFIG_PATH \<noteq> CLIENT_STATE_PATH"
  by (simp add: APP_CONFIG_PATH_def CLIENT_STATE_PATH_def)

lemma load_session_id:
  assumes "load to_yaml of_yaml state_of_yaml fs = (Inr c, fs')"
  shows "\<exists>st. load_client_state state_of_yaml fs = Inr st
      \<and> cc_session_id (ac_client c) = cs_session_id st"
proof -
  from assms obtain c0 fs1 st where lf: "load_from_file to_yaml of_yaml APP_CONFIG_PATH fs = (Inr c0, fs1)"
    and st: "load_client_state state_of_yaml fs1 = Inr st"
    and c: "c = apply_rule_set_paths
      (c0\<lparr>ac_client := (ac_client c0)\<lparr>cc_session_id := cs_session_id st\<rparr>\<rparr>)"
    by (auto simp: load_def split: prod.splits sum.splits)
  from lf have "fs_files fs1 CLIENT_STATE_PATH = fs_files fs CLIENT_STATE_PATH"
    by (rule load_from_file_frame) (use paths_differ in simp)
  with st have "load_client_state state_of_yaml fs = Inr st" by (simp add: load_client_state_def)
  moreover from c have "cc_session_id (ac_client c) = cs_session_id st"
    by (simp add: apply_rule_set_paths_def)
  ultimately show ?thesis by blast
qed

section \<open>Properties\<close>

text \<open>C25: Validation accepts a configuration exactly when every rule has a condition, every
  CIDR, port range and protocol it names parses, and every domain and country value is non-empty
  and free of white space, slashes and commas.\<close>

theorem validate_accepts_iff:
  "validate parse_net config = Inr () \<longleftrightarrow> list_all (rule_ok parse_net) (rc_rules config)"
  by (rule validate_Inr)

text \<open>When validation fails, the error is the one of the first offending rule and carries
  that rule's index; all rules before it are acceptable.\<close>

lemma validate_reports_first:
  "validate parse_net config = Inl e \<longleftrightarrow>
     (\<exists>k < length (rc_rules config).
        validate_rule parse_net k (rc_rules config ! k) = Inl e
        \<and> list_all (rule_ok parse_net) (take k (rc_rules config)))"
  using validate_from_Inl [of parse_net 0 "rc_rules config" e] by (simp add: validate_def)

text \<open>C32: Rules that come out of the compact parser can only be refused for a CIDR, a port
  range or a protocol that does not parse: the parser already guarantees the other checks.\<close>

theorem parsed_rules_validate:
  assumes "visit_rules_config els = Inr config"
  shows "validate parse_net config = Inr () \<longleftrightarrow> list_all (formats_ok parse_net) (rc_rules config)"
proof -
  from assms have "visit_rules els = Inr (rc_rules config)"
    by (auto simp: visit_rules_config_def split: sum.splits)
  then have "rule_ok parse_net r \<longleftrightarrow> formats_ok parse_net r" if "r \<in> set (rc_rules config)" for r
    using visited_rules_parsed [OF _ that] parsed_rule_ok by blast
  then show ?thesis by (auto simp: validate_Inr list_all_iff)
qed

theorem parsed_rules_validate_witness:
  "visit_rules_config [Inr ''MATCH,direct'', Inr ''PROTO,icmp,reject'']
     = Inr \<lparr>rc_default_action = Reject,
            rc_rules = [match_rule Direct, rule_of K_proto ''icmp'' Reject], rc_geoip_path = None\<rparr>
   \<and> validate (\<lambda>s. Inl s :: string + unit)
       \<lparr>rc_default_action = Reject,
        rc_rules = [match_rule Direct, rule_of K_proto ''icmp'' Reject], rc_geoip_path = None\<rparr>
     = Inr ()"
proof -
  let ?c = "\<lparr>rc_default_action = Reject,
    rc_rules = [match_rule Direct, rule_of K_proto ''icmp'' Reject], rc_geoip_path = None\<rparr>"
  have v: "visit_rules_config [Inr ''MATCH,direct'', Inr ''PROTO,icmp,reject''] = Inr ?c"
    by (simp add: visit_rules_config_def parse_compact_def parse_field_rule_parts_def
        parse_action_def with_value_def str_eval rule_of_def match_rule_def)
  have "list_all (formats_ok (\<lambda>s. Inl s :: string + unit)) (rc_rules ?c)"
    by (simp add: formats_ok_def match_rule_def rule_of_def rule_new_def opt_all_def
        protocol_from_str_def str_eval)
  with v show ?thesis using parsed_rules_validate [OF v, of "\<lambda>s. Inl s :: string + unit"] by blast
qed

text \<open>C30: The list of rules written when a configuration is saved is read back as the same
  rules.\<close>

theorem rules_config_roundtrip:
  assumes "visit_rules_config els = Inr config"
  shows "visit_rules_config (map Inr (serialize_rules config)) = Inr config"
proof -
  from assms obtain rs where rs: "visit_rules els = Inr rs"
    and c: "config = \<lparr>rc_default_action = Reject, rc_rules = rs, rc_geoip_path = None\<rparr>"
    by (auto simp: visit_rules_config_def split: sum.splits)
  have "visit_rules (map Inr (map rule_to_string rs)) = Inr rs"
    by (rule visit_rules_printed) (use visited_rules_parsed [OF rs] rule_roundtrip in blast)
  with c show ?thesis by (simp add: visit_rules_config_def serialize_rules_def)
qed

theorem rules_config_roundtrip_witness:
  "visit_rules_config (map Inr (serialize_rules
     \<lparr>rc_default_action = Reject, rc_rules = [rule_of K_geoip ''CN'' Direct, match_rule Proxy],
      rc_geoip_path = None\<rparr>))
   = Inr \<lparr>rc_default_action = Reject, rc_rules = [rule_of K_geoip ''CN'' Direct, match_rule Proxy],
          rc_geoip_path = None\<rparr>"
proof -
  have "visit_rules_config [Inr ''geoip,cn,DIRECT'', Inr ''MATCH,proxy''] =
    Inr \<lparr>rc_default_action = Reject, rc_rules = [rule_of K_geoip ''CN'' Direct, match_rule Proxy],
         rc_geoip_path = None\<rparr>"
    by (simp add: visit_rules_config_def parse_compact_def parse_geoip_rule_parts_def
        normalize_geoip_rule_value_def bad_value_char_def parse_field_rule_parts_def
        parse_action_def with_value_def str_eval rule_of_def match_rule_def)
  then show ?thesis by (rule rules_config_roundtrip)
qed

text \<open>A port specification denotes the range its text says: a single decimal port is the
  one-element range, two ports joined by a dash are that range when ordered, and whatever is
  accepted is an ordered range.\<close>

lemma port_range_text:
  "parse_port_range (dec_of_nat (unat p)) = Inr (p, p)
   \<and> (a \<le> b \<longrightarrow>
        parse_port_range (dec_of_nat (unat a) @ ''-'' @ dec_of_nat (unat b)) = Inr (a, b))
   \<and> (parse_port_range s = Inr (c, d) \<longrightarrow> c \<le> d)"
  using parse_port_range_single parse_port_range_pair parse_port_range_ordered by blast

text \<open>A comma-separated string of DNS servers and the list of its parts are read as the
  same servers, errors included.\<close>

lemma dns_formats_agree:
  "dns_visit_str value = dns_visit_seq (map Inr (split_on CHR '','' value))"
  by (simp add: dns_visit_str_def dns_visit_seq_parse)

text \<open>C34: The session identifier the client stores is the one the next start loads: after a
  successful save of the client state, a successful load of the configuration carries it.\<close>

theorem session_id_persists:
  assumes "save_client_state state_to_yaml st fs = (Inr (), fs1)"
    and "\<And>text. state_to_yaml st = Inr text \<Longrightarrow> state_of_yaml text = Inr st"
    and "load to_yaml of_yaml state_of_yaml fs1 = (Inr config, fs2)"
  shows "cc_session_id (ac_client config) = cs_session_id st"
proof -
  obtain body where "state_to_yaml st = Inr body"
    and "fs_files fs1 CLIENT_STATE_PATH = Some (Inr body)"
    using save_client_state_content [OF assms(1)] by blast
  with assms(2) have "load_client_state state_of_yaml fs1 = Inr st"
    by (simp add: load_client_state_def)
  with load_session_id [OF assms(3)] show ?thesis by auto
qed

theorem session_id_persists_witness:
  "\<exists>config fs2.
     load (\<lambda>c. Inr ''cfg'') (\<lambda>t. Inr default_app_config) (\<lambda>t. Inr \<lparr>cs_session_id = t\<rparr>)
       \<lparr>fs_files = [CLIENT_STATE_PATH \<mapsto> Inr ''abc''], fs_mkdir_error = (\<lambda>_. None),
        fs_write_error = (\<lambda>_. None)\<rparr> = (Inr config, fs2)
     \<and> cc_session_id (ac_client config) = ''abc''"
proof -
  let ?fs = "\<lparr>fs_files = Map.empty, fs_mkdir_error = (\<lambda>_. None), fs_write_error = (\<lambda>_. None)\<rparr>"
  let ?fs1 = "\<lparr>fs_files = [CLIENT_STATE_PATH \<mapsto> Inr ''abc''], fs_mkdir_error = (\<lambda>_. None),
    fs_write_error = (\<lambda>_. None)\<rparr>"
  let ?ty = "\<lambda>c :: app_config. Inr ''cfg'' :: string + string"
  let ?oy = "\<lambda>t :: string. Inr default_app_config :: string + app_config"
  let ?sy = "\<lambda>t :: string. Inr \<lparr>cs_session_id = t\<rparr> :: string + client_state"
  have s: "save_client_state (\<lambda>st. Inr (cs_session_id st)) \<lparr>cs_session_id = ''abc''\<rparr> ?fs
      = (Inr (), ?fs1)"
    by (simp add: save_client_state_def write_config_def)
  obtain config fs2 where l: "load ?ty ?oy ?sy ?fs1 = (Inr config, fs2)"
    by (simp add: load_def load_from_file_def save_to_file_def write_config_def
        load_client_state_def APP_CONFIG_PATH_def CLIENT_STATE_PATH_def)
  have "cc_session_id (ac_client config) = cs_session_id \<lparr>cs_session_id = ''abc''\<rparr>"
    by (rule session_id_persists [OF s _ l]) auto
  with l show ?thesis by auto
qed

end
