(* ===== verification/Packet_Context.thy ===== *)
theory Packet_Context
  imports Net_Addr Rule_Model
begin

text \<open>
  What the engine sees of a packet: \<open>rules/context.rs\<close>.  Slicing the bytes of an IP packet
  is done by the \<open>etherparse\<close> crate: the parameter \<open>slice_ip\<close> stands for
  \<open>SlicedPacket::from_ip\<close>, and the types below are the parts of its result the source reads.
\<close>

section \<open>Sliced packets\<close>

datatype net_slice = Ipv4Slice ipv4addr ipv4addr | Ipv6Slice | ArpSlice

datatype transport_slice =
  TcpSlice u16 u16 | UdpSlice u16 u16 bytes | Icmpv4Slice | Icmpv6Slice

record sliced_packet =
  sl_net :: "net_slice option"
  sl_transport :: "transport_slice option"

type_synonym slicer = "bytes \<Rightarrow> string + sliced_packet"

section \<open>Packet contexts (context.rs)\<close>

record packet_context =
  pc_src_ip :: ipv4addr
  pc_dst_ip :: ipv4addr
  pc_src_port :: "u16 option"
  pc_dst_port :: "u16 option"
  pc_protocol :: protocol
  pc_domains :: "string list"

definition context_new ::
  "ipv4addr \<Rightarrow> ipv4addr \<Rightarrow> u16 option \<Rightarrow> u16 option \<Rightarrow> protocol \<Rightarrow> packet_context" where
  "context_new src_ip dst_ip src_port dst_port protocol =
     \<lparr>pc_src_ip = src_ip, pc_dst_ip = dst_ip, pc_src_port = src_port, pc_dst_port = dst_port,
      pc_protocol = protocol, pc_domains = []\<rparr>"

definition with_domains :: "packet_context \<Rightarrow> string list \<Rightarrow> packet_context" where
  "with_domains ctx domains = ctx\<lparr>pc_domains := domains\<rparr>"

definition from_ip_packet :: "slicer \<Rightarrow> bytes \<Rightarrow> packet_context option" where
  "from_ip_packet slice_ip data =
     (case slice_ip data of
        Inl _ \<Rightarrow> None
      | Inr sliced \<Rightarrow>
          (case sl_net sliced of
             Some (Ipv4Slice src dst) \<Rightarrow>
               (case sl_transport sliced of
                  None \<Rightarrow> Some (context_new src dst None None (Other 0))
                | Some (TcpSlice sp dp) \<Rightarrow> Some (context_new src dst (Some sp) (Some dp) Tcp)
                | Some (UdpSlice sp dp _) \<Rightarrow> Some (context_new src dst (Some sp) (Some dp) Udp)
                | Some Icmpv4Slice \<Rightarrow> Some (context_new src dst None None Icmp)
                | Some Icmpv6Slice \<Rightarrow> None)
           | _ \<Rightarrow> None))"

definition port_to_string :: "u16 option \<Rightarrow> string" where
  "port_to_string p = (case p of None \<Rightarrow> ''-'' | Some n \<Rightarrow> dec_of_nat (unat n))"

definition context_to_string :: "packet_context \<Rightarrow> string" where
  "context_to_string ctx =
     ipv4_to_string (pc_src_ip ctx) @ '':'' @ port_to_string (pc_src_port ctx) @ '' -> ''
     @ ipv4_to_string (pc_dst_ip ctx) @ '':'' @ port_to_string (pc_dst_port ctx) @ '' (''
     @ protocol_to_string (pc_protocol ctx) @ '')''"

section \<open>Facts\<close>

text \<open>Ports are present exactly for TCP and UDP.\<close>

lemma from_ip_packet_ports:
  assumes "from_ip_packet slice_ip data = Some ctx"
  shows "(pc_src_port ctx \<noteq> None \<longleftrightarrow> pc_protocol ctx \<in> {Tcp, Udp})
    \<and> (pc_dst_port ctx \<noteq> None \<longleftrightarrow> pc_protocol ctx \<in> {Tcp, Udp}) \<and> pc_domains ctx = []"
  using assms
  by (auto simp: from_ip_packet_def context_new_def
      split: sum.splits option.splits net_slice.splits transport_slice.splits)

end
