(* ===== verification/Geoip.thy ===== *)
theory Geoip
  imports Net_Addr
begin

text \<open>
  Country matching: \<open>rules/geoip.rs\<close>.  The MaxMind database reader is outside the
  repository: an open reader is represented by its lookup function, which fails or gives a
  result whose decoding fails, finds nothing, or finds a country record.
\<close>

section \<open>The matcher (geoip.rs)\<close>

record country =
  co_country :: "string option"
  co_registered :: "string option"
  co_represented :: "string option"

type_synonym geo_reader = "ipaddr \<Rightarrow> string + (string + country option)"

record geoip_matcher =
  gm_reader :: "geo_reader option"

definition geoip_load :: "(string \<Rightarrow> string + geo_reader) \<Rightarrow> string option \<Rightarrow> geoip_matcher" where
  "geoip_load open_readfile config_path =
     \<lparr>gm_reader =
        (case config_path of
           None \<Rightarrow> None
         | Some path \<Rightarrow> if trim path \<noteq> [] then ok (open_readfile path) else None)\<rparr>"

definition without_database :: geoip_matcher where
  "without_database = \<lparr>gm_reader = None\<rparr>"

definition is_cgnat :: "ipv4addr \<Rightarrow> bool" where
  "is_cgnat ip = (case ip of Ipv4Addr a b c d \<Rightarrow> a = 100 \<and> 64 \<le> b \<and> b \<le> 127)"

definition is_private_ip :: "ipv4addr \<Rightarrow> bool" where
  "is_private_ip ip \<longleftrightarrow>
     v4_is_private ip \<or> v4_is_loopback ip \<or> v4_is_link_local ip \<or> v4_is_unspecified ip
     \<or> v4_is_broadcast ip \<or> v4_is_multicast ip \<or> is_cgnat ip"

definition geoip_matches :: "geoip_matcher \<Rightarrow> ipv4addr \<Rightarrow> string \<Rightarrow> bool" where
  "geoip_matches gm ip code =
     (if eq_ignore_ascii_case code ''PRIVATE'' then is_private_ip ip
      else case gm_reader gm of
             None \<Rightarrow> False
           | Some reader \<Rightarrow>
               (case reader (V4 ip) of
                  Inl _ \<Rightarrow> False
                | Inr decoded \<Rightarrow>
                    (case decoded of
                       Inr (Some country) \<Rightarrow>
                         (let code' = to_ascii_uppercase code in
                          co_country country = Some code'
                          \<or> co_registered country = Some code'
                          \<or> co_represented country = Some code')
                     | _ \<Rightarrow> False)))"

section \<open>Address blocks\<close>

text \<open>Membership in a CIDR block: the leading \<open>len\<close> bits agree.\<close>

definition in_cidr :: "ipv4addr \<times> nat \<Rightarrow> ipv4addr \<Rightarrow> bool" where
  "in_cidr block ip \<longleftrightarrow>
     ipv4_nat ip div 2 ^ (32 - snd block) = ipv4_nat (fst block) div 2 ^ (32 - snd block)"

definition private_blocks :: "(ipv4addr \<times> nat) list" where
  "private_blocks =
     [(Ipv4Addr 10 0 0 0, 8), (Ipv4Addr 172 16 0 0, 12), (Ipv4Addr 192 168 0 0, 16),
      (Ipv4Addr 127 0 0 0, 8), (Ipv4Addr 169 254 0 0, 16), (Ipv4Addr 0 0 0 0, 32),
      (Ipv4Addr 255 255 255 255, 32), (Ipv4Addr 224 0 0 0, 4), (Ipv4Addr 100 64 0 0, 10)]"

lemma ipv4_nat_high:
  "ipv4_nat (Ipv4Addr a b c d) div 65536 = unat a * 256 + unat b"
  using unat_u8_less [of c] unat_u8_less [of d] by simp

lemma ipv4_nat_div:
  "ipv4_nat (Ipv4Addr a b c d) div 268435456 = unat a div 16"
  "ipv4_nat (Ipv4Addr a b c d) div 16777216 = unat a"
  "ipv4_nat (Ipv4Addr a b c d) div 4194304 = unat a * 4 + unat b div 64"
  "ipv4_nat (Ipv4Addr a b c d) div 1048576 = unat a * 16 + unat b div 16"
  "ipv4_nat (Ipv4Addr a b c d) div 65536 = unat a * 256 + unat b"
proof -
  let ?n = "ipv4_nat (Ipv4Addr a b c d)"
  have split: "?n div (65536 * k) = (unat a * 256 + unat b) div k" for k
    by (simp only: div_mult2_eq ipv4_nat_high)
  have b: "unat b < 256" by (rule unat_u8_less)
  show "?n div 268435456 = unat a div 16" using split [of 4096] b by simp
  show "?n div 16777216 = unat a" using split [of 256] b by simp
  show "?n div 4194304 = unat a * 4 + unat b div 64" using split [of 64] b by simp
  show "?n div 1048576 = unat a * 16 + unat b div 16" using split [of 16] b by simp
  show "?n div 65536 = unat a * 256 + unat b" using split [of 1] b by simp
qed

lemma in_cidr_32: "in_cidr (b, 32) ip \<longleftrightarrow> ip = b"
  by (simp add: in_cidr_def ipv4_nat_inj)

lemma radix_div_16: "y < 256 \<Longrightarrow> x * 16 + y div 16 = 2753 \<longleftrightarrow> x = 172 \<and> 16 \<le> y \<and> y \<le> (31 :: nat)"
  using radix_inj [of "y div 16" 16 1 x 172] by (auto simp: div_eq_bounds div_less_iff_less_mult)

lemma radix_div_64: "y < 256 \<Longrightarrow> x * 4 + y div 64 = 401 \<longleftrightarrow> x = 100 \<and> 64 \<le> y \<and> y \<le> (127 :: nat)"
  using radix_inj [of "y div 64" 4 1 x 100] by (auto simp: div_eq_bounds div_less_iff_less_mult)

lemma div_16_eq_14: "x div 16 = 14 \<longleftrightarrow> 224 \<le> x \<and> x \<le> (239 :: nat)"
  by (auto simp: div_eq_bounds)

text \<open>Octet comparisons as comparisons of numbers.\<close>

lemmas octet_nat = word_unat_eq_iff word_le_nat_alt

lemma in_private_blocks:
  "in_cidr (Ipv4Addr 10 0 0 0, 8) (Ipv4Addr a b c d) \<longleftrightarrow> a = 10"
  "in_cidr (Ipv4Addr 127 0 0 0, 8) (Ipv4Addr a b c d) \<longleftrightarrow> a = 127"
  "in_cidr (Ipv4Addr 172 16 0 0, 12) (Ipv4Addr a b c d) \<longleftrightarrow> a = 172 \<and> 16 \<le> b \<and> b \<le> 31"
  "in_cidr (Ipv4Addr 192 168 0 0, 16) (Ipv4Addr a b c d) \<longleftrightarrow> a = 192 \<and> b = 168"
  "in_cidr (Ipv4Addr 169 254 0 0, 16) (Ipv4Addr a b c d) \<longleftrightarrow> a = 169 \<and> b = 254"
  "in_cidr (Ipv4Addr 224 0 0 0, 4) (Ipv4Addr a b c d) \<longleftrightarrow> 224 \<le> a \<and> a \<le> 239"
  "in_cidr (Ipv4Addr 100 64 0 0, 10) (Ipv4Addr a b c d) \<longleftrightarrow> a = 100 \<and> 64 \<le> b \<and> b \<le> 127"
  using radix_inj [of "unat b" 256 168 "unat a" 192] radix_inj [of "unat b" 256 254 "unat a" 169]
  by (simp_all add: in_cidr_def ipv4_nat_div octet_nat unat_u8_less radix_div_16 radix_div_64
      div_16_eq_14 del: ipv4_nat.simps)

section \<open>Properties\<close>

text \<open>C27: The pseudo-country PRIVATE covers exactly the address blocks 10.0.0.0/8,
  172.16.0.0/12, 192.168.0.0/16, 127.0.0.0/8, 169.254.0.0/16, 224.0.0.0/4 and 100.64.0.0/10, and
  the two addresses 0.0.0.0 and 255.255.255.255, in any spelling of the name and with or without
  a database.\<close>

theorem private_blocks_exact:
  assumes "eq_ignore_ascii_case code ''PRIVATE''"
  shows "geoip_matches gm ip code \<longleftrightarrow> list_ex (\<lambda>block. in_cidr block ip) private_blocks"
proof (cases ip)
  case (Ipv4Addr a b c d)
  have "is_private_ip ip \<longleftrightarrow> list_ex (\<lambda>block. in_cidr block ip) private_blocks"
    unfolding Ipv4Addr private_blocks_def
    by (simp add: in_private_blocks in_cidr_32 is_private_ip_def is_cgnat_def)
  with assms show ?thesis by (simp add: geoip_matches_def)
qed

theorem private_blocks_exact_witness:
  "geoip_matches without_database (Ipv4Addr 100 127 255 255) ''Private''
   \<and> \<not> geoip_matches without_database (Ipv4Addr 100 128 0 0) ''Private''"
proof -
  have p: "eq_ignore_ascii_case ''Private'' ''PRIVATE''"
    by (simp add: eq_ignore_ascii_case_def str_eval)
  show ?thesis
    unfolding private_blocks_exact [OF p] private_blocks_def
    by (simp add: in_private_blocks in_cidr_32 del: ipv4_nat.simps)
qed

text \<open>A country code other than PRIVATE matches an address exactly when a database is
  loaded, the lookup and the decoding succeed, and the code, in capitals, is one of the three
  country codes of the record; in particular the case of the configured code does not matter and
  without a database nothing matches.\<close>

lemma country_match_exact:
  assumes "\<not> eq_ignore_ascii_case code ''PRIVATE''"
  shows "geoip_matches gm ip code \<longleftrightarrow>
    (\<exists>reader country. gm_reader gm = Some reader \<and> reader (V4 ip) = Inr (Inr (Some country))
       \<and> Some (to_ascii_uppercase code)
           \<in> {co_country country, co_registered country, co_represented country})"
  using assms
  by (auto simp: geoip_matches_def Let_def split: option.splits sum.splits)

end
