(* ===== verification/Rules_Engine.thy ===== *)
theory Rules_Engine
  imports Config Packet_Context Geoip
begin

text \<open>
  Matching a packet against the rules: \<open>rules/matcher.rs\<close> and \<open>rules/engine.rs\<close>.  The CIDR
  networks of the \<open>ipnetwork\<close> crate are a parameter: how a text is parsed and which
  addresses a network contains.
\<close>

section \<open>The matcher (matcher.rs)\<close>

record 'n ipnet =
  ipn_parse :: "string \<Rightarrow> string + 'n"
  ipn_contains :: "'n \<Rightarrow> ipv4addr \<Rightarrow> bool"

definition matches_ip :: "'n ipnet \<Rightarrow> string \<Rightarrow> ipv4addr \<Rightarrow> bool" where
  "matches_ip net cidr ip =
     (case ipn_parse net cidr of
        Inr network \<Rightarrow> ipn_contains net network ip
      | Inl _ \<Rightarrow> parse_ipv4 cidr = Some ip)"

definition matches_port :: "string \<Rightarrow> u16 option \<Rightarrow> bool" where
  "matches_port port_spec packet_port =
     (case packet_port of
        None \<Rightarrow> False
      | Some port \<Rightarrow>
          (case parse_port_range port_spec of
             Inr (start, end_port) \<Rightarrow> start \<le> port \<and> port \<le> end_port
           | Inl _ \<Rightarrow> False))"

definition matches_protocol :: "string \<Rightarrow> protocol \<Rightarrow> bool" where
  "matches_protocol proto_str packet_proto =
     (case protocol_from_str proto_str of
        Some proto \<Rightarrow> proto = packet_proto
      | None \<Rightarrow> False)"

definition matches_domain :: "string \<Rightarrow> string list \<Rightarrow> bool" where
  "matches_domain domain packet_domains = list_ex (\<lambda>value. value = domain) packet_domains"

definition matches_domain_suffix :: "string \<Rightarrow> string list \<Rightarrow> bool" where
  "matches_domain_suffix sfx packet_domains =
     list_ex (\<lambda>value. value = sfx \<or> suffix (''.'' @ sfx) value) packet_domains"

definition matches_domain_keyword :: "string \<Rightarrow> string list \<Rightarrow> bool" where
  "matches_domain_keyword keyword packet_domains =
     list_ex (\<lambda>value. sublist keyword value) packet_domains"

text \<open>A condition that is not set does not restrict the rule.\<close>

definition unless_fails :: "'a option \<Rightarrow> ('a \<Rightarrow> bool) \<Rightarrow> bool \<Rightarrow> bool" where
  "unless_fails x test rest = (case x of Some v \<Rightarrow> if \<not> test v then False else rest | None \<Rightarrow> rest)"

definition matches :: "'n ipnet \<Rightarrow> rule \<Rightarrow> packet_context \<Rightarrow> geoip_matcher \<Rightarrow> bool" where
  "matches net r packet geoip =
     unless_fails (r_src_ip_cidr r) (\<lambda>c. matches_ip net c (pc_src_ip packet))
    (unless_fails (r_dst_ip_cidr r) (\<lambda>c. matches_ip net c (pc_dst_ip packet))
    (unless_fails (r_src_port r) (\<lambda>p. matches_port p (pc_src_port packet))
    (unless_fails (r_dst_port r) (\<lambda>p. matches_port p (pc_dst_port packet))
    (unless_fails (r_proto r) (\<lambda>p. matches_protocol p (pc_protocol packet))
    (unless_fails (r_domain r) (\<lambda>d. matches_domain d (pc_domains packet))
    (unless_fails (r_domain_suffix r) (\<lambda>d. matches_domain_suffix d (pc_domains packet))
    (unless_fails (r_domain_keyword r) (\<lambda>d. matches_domain_keyword d (pc_domains packet))
    (unless_fails (r_geoip r) (\<lambda>code. geoip_matches geoip (pc_dst_ip packet) code)
     True))))))))"

section \<open>The engine (engine.rs)\<close>

record rules_engine =
  re_rules :: "rule list"
  re_geoip :: geoip_matcher

definition from_config ::
  "'n ipnet \<Rightarrow> (string \<Rightarrow> string + geo_reader) \<Rightarrow> rules_config \<Rightarrow> config_error + rules_engine" where
  "from_config net open_readfile config =
     (case validate (ipn_parse net) config of
        Inl e \<Rightarrow> Inl e
      | Inr _ \<Rightarrow>
          Inr \<lparr>re_rules = rc_rules config,
               re_geoip = geoip_load open_readfile (rc_geoip_path config)\<rparr>)"

definition from_file ::
  "'n ipnet \<Rightarrow> (string \<Rightarrow> string + geo_reader) \<Rightarrow> (string \<Rightarrow> string + (string + string) list)
     \<Rightarrow> string + string \<Rightarrow> config_error + rules_engine" where
  "from_file net open_readfile yaml_seq content =
     (case rules_from_file yaml_seq (ipn_parse net) content of
        Inl e \<Rightarrow> Inl e
      | Inr config \<Rightarrow> from_config net open_readfile config)"

text \<open>The loop of \<open>match_packet\<close> over the rules.\<close>

fun match_rules ::
  "'n ipnet \<Rightarrow> geoip_matcher \<Rightarrow> rule list \<Rightarrow> packet_context \<Rightarrow> rule_action" where
  "match_rules net geoip [] packet = Direct"
| "match_rules net geoip (r # rs) packet =
     (if matches net r packet geoip then r_action r else match_rules net geoip rs packet)"

definition match_packet :: "'n ipnet \<Rightarrow> rules_engine \<Rightarrow> packet_context \<Rightarrow> rule_action" where
  "match_packet net engine packet = match_rules net (re_geoip engine) (re_rules engine) packet"

definition rule_count :: "rules_engine \<Rightarrow> nat" where
  "rule_count engine = length (re_rules engine)"

section \<open>First-match decision lists\<close>

text \<open>
  The contract of a decision list: the first rule whose test holds decides, a fixed default
  is returned when none does.
\<close>

locale first_match =
  fixes test :: "'r \<Rightarrow> 'p \<Rightarrow> bool"
    and act :: "'r \<Rightarrow> 'a"
    and default :: 'a
    and decide :: "'r list \<Rightarrow> 'p \<Rightarrow> 'a"
  assumes decide_Nil: "decide [] p = default"
    and decide_Cons: "decide (r # rs) p = (if test r p then act r else decide rs p)"
begin

lemma decide_none: "\<forall>r \<in> set rs. \<not> test r p \<Longrightarrow> decide rs p = default"
  by (induction rs) (auto simp: decide_Nil decide_Cons)

lemma decide_append:
  "decide (rs @ ss) p = (if \<exists>r \<in> set rs. test r p then decide rs p else decide ss p)"
  by (induction rs) (auto simp: decide_Nil decide_Cons)

lemma decide_first:
  assumes "i < length rs" and "test (rs ! i) p" and "\<forall>j < i. \<not> test (rs ! j) p"
  shows "decide rs p = act (rs ! i)"
proof -
  have "rs = take i rs @ rs ! i # drop (Suc i) rs" using assms(1) by (simp add: id_take_nth_drop)
  moreover have "\<forall>r \<in> set (take i rs). \<not> test r p"
    using assms(1,3) by (auto simp: in_set_conv_nth)
  ultimately have "decide rs p = decide (rs ! i # drop (Suc i) rs) p"
    by (metis decide_append)
  with assms(2) show ?thesis by (simp add: decide_Cons)
qed

lemma decide_cases:
  "(\<exists>i < length rs. test (rs ! i) p \<and> (\<forall>j < i. \<not> test (rs ! j) p) \<and> decide rs p = act (rs ! i))
   \<or> ((\<forall>r \<in> set rs. \<not> test r p) \<and> decide rs p = default)"
proof (cases "\<exists>r \<in> set rs. test r p")
  case True
  then have ex: "\<exists>i. i < length rs \<and> test (rs ! i) p" by (auto simp: in_set_conv_nth)
  then obtain i where "i < length rs" and "test (rs ! i) p"
    and "\<forall>j < i. \<not> (j < length rs \<and> test (rs ! j) p)"
    by (subst (asm) exists_least_iff) blast
  then have "i < length rs \<and> test (rs ! i) p \<and> (\<forall>j < i. \<not> test (rs ! j) p)" by auto
  then show ?thesis using decide_first [of i rs p] by blast
next
  case False
  then show ?thesis by (auto simp: decide_none)
qed

text \<open>Whatever follows a rule that always applies has no effect.\<close>

lemma decide_catch_all:
  assumes "\<And>p. test r p"
  shows "decide (rs @ r # ss) p = decide (rs @ [r]) p"
  using assms by (simp add: decide_append decide_Cons)

end

interpretation eng: first_match "\<lambda>r p. matches net r p geoip" r_action Direct "match_rules net geoip"
  for net :: "'n ipnet" and geoip
  by unfold_locales auto

section \<open>Rules as conditions on parsed values\<close>

text \<open>
  The specification of an accepted configuration: each rule is a list of conditions over
  parsed networks, port intervals, protocols and domain labels, and no text is parsed when a
  packet arrives.  A domain suffix is the list of its labels.
\<close>

datatype 'n cond =
  C_src_net 'n | C_dst_net 'n | C_src_port u16 u16 | C_dst_port u16 u16 | C_proto protocol
| C_domain string | C_suffix "string list" | C_keyword string | C_geoip string

fun cond_holds :: "('n \<Rightarrow> ipv4addr \<Rightarrow> bool) \<Rightarrow> geoip_matcher \<Rightarrow> packet_context \<Rightarrow> 'n cond \<Rightarrow> bool" where
  "cond_holds contains g p (C_src_net n) = contains n (pc_src_ip p)"
| "cond_holds contains g p (C_dst_net n) = contains n (pc_dst_ip p)"
| "cond_holds contains g p (C_src_port a b) = (\<exists>x. pc_src_port p = Some x \<and> a \<le> x \<and> x \<le> b)"
| "cond_holds contains g p (C_dst_port a b) = (\<exists>x. pc_dst_port p = Some x \<and> a \<le> x \<and> x \<le> b)"
| "cond_holds contains g p (C_proto x) = (pc_protocol p = x)"
| "cond_holds contains g p (C_domain d) = (d \<in> set (pc_domains p))"
| "cond_holds contains g p (C_suffix ls) =
     (\<exists>d \<in> set (pc_domains p). suffix ls (split_on CHR ''.'' d))"
| "cond_holds contains g p (C_keyword k) = (\<exists>d \<in> set (pc_domains p). sublist k d)"
| "cond_holds contains g p (C_geoip code) = geoip_matches g (pc_dst_ip p) code"

definition conds_of :: "'a option \<Rightarrow> ('a \<Rightarrow> 'e + 'b) \<Rightarrow> ('b \<Rightarrow> 'c) \<Rightarrow> 'c list" where
  "conds_of x parse mk =
     (case x of None \<Rightarrow> [] | Some v \<Rightarrow> (case parse v of Inl _ \<Rightarrow> [] | Inr y \<Rightarrow> [mk y]))"

definition proto_of :: "string \<Rightarrow> unit + protocol" where
  "proto_of s = (case protocol_from_str s of None \<Rightarrow> Inl () | Some p \<Rightarrow> Inr p)"

definition compile_rule :: "(string \<Rightarrow> string + 'n) \<Rightarrow> rule \<Rightarrow> 'n cond list" where
  "compile_rule parse r =
     conds_of (r_src_ip_cidr r) parse C_src_net @ conds_of (r_dst_ip_cidr r) parse C_dst_net
     @ conds_of (r_src_port r) parse_port_range (case_prod C_src_port)
     @ conds_of (r_dst_port r) parse_port_range (case_prod C_dst_port)
     @ conds_of (r_proto r) proto_of C_proto
     @ conds_of (r_domain r) (Inr :: string \<Rightarrow> unit + string) C_domain
     @ conds_of (r_domain_suffix r) (Inr :: string \<Rightarrow> unit + string) (C_suffix \<circ> split_on CHR ''.'')
     @ conds_of (r_domain_keyword r) (Inr :: string \<Rightarrow> unit + string) C_keyword
     @ conds_of (r_geoip r) (Inr :: string \<Rightarrow> unit + string) C_geoip"

fun spec_decide ::
  "('n \<Rightarrow> ipv4addr \<Rightarrow> bool) \<Rightarrow> geoip_matcher \<Rightarrow> ('n cond list \<times> rule_action) list
     \<Rightarrow> packet_context \<Rightarrow> rule_action" where
  "spec_decide contains g [] p = Direct"
| "spec_decide contains g ((cs, a) # rs) p =
     (if list_all (cond_holds contains g p) cs then a else spec_decide contains g rs p)"

interpretation spec_eng: first_match "\<lambda>r p. list_all (cond_holds contains g p) (fst r)" snd Direct
  "spec_decide contains g"
  for contains :: "'n \<Rightarrow> ipv4addr \<Rightarrow> bool" and g
  by unfold_locales auto

lemma unless_fails_iff: "unless_fails x test rest \<longleftrightarrow> opt_all test x \<and> rest"
  by (auto simp: unless_fails_def opt_all_def split: option.split)

lemma matches_iff:
  "matches net r p g \<longleftrightarrow>
     opt_all (\<lambda>c. matches_ip net c (pc_src_ip p)) (r_src_ip_cidr r)
     \<and> opt_all (\<lambda>c. matches_ip net c (pc_dst_ip p)) (r_dst_ip_cidr r)
     \<and> opt_all (\<lambda>x. matches_port x (pc_src_port p)) (r_src_port r)
     \<and> opt_all (\<lambda>x. matches_port x (pc_dst_port p)) (r_dst_port r)
     \<and> opt_all (\<lambda>x. matches_protocol x (pc_protocol p)) (r_proto r)
     \<and> opt_all (\<lambda>d. matches_domain d (pc_domains p)) (r_domain r)
     \<and> opt_all (\<lambda>d. matches_domain_suffix d (pc_domains p)) (r_domain_suffix r)
     \<and> opt_all (\<lambda>d. matches_domain_keyword d (pc_domains p)) (r_domain_keyword r)
     \<and> opt_all (\<lambda>c. geoip_matches g (pc_dst_ip p) c) (r_geoip r)"
  by (simp add: matches_def unless_fails_iff)

text \<open>One condition at a time: the text test is the test on the parsed value.\<close>

lemma conds_of_holds:
  assumes "opt_all (\<lambda>v. is_ok (parse v)) x"
    and "\<And>v y. parse v = Inr y \<Longrightarrow> test v = P (mk y)"
  shows "list_all P (conds_of x parse mk) \<longleftrightarrow> opt_all test x"
  using assms by (auto simp: conds_of_def opt_all_def is_ok_iff split: option.split)

lemma conds_of_text:
  "list_all P (conds_of x (Inr :: 'a \<Rightarrow> unit + 'a) mk) \<longleftrightarrow> opt_all (\<lambda>v. P (mk v)) x"
  by (simp add: conds_of_def opt_all_def split: option.split)

lemma matches_port_parsed:
  "parse_port_range v = Inr y \<Longrightarrow>
     matches_port v port = (case y of (a, b) \<Rightarrow> \<exists>x. port = Some x \<and> a \<le> x \<and> x \<le> b)"
  by (auto simp: matches_port_def split: option.split)

lemma is_ok_proto_of: "is_ok (proto_of v) \<longleftrightarrow> protocol_from_str v \<noteq> None"
  by (simp add: proto_of_def split: option.split)

lemma matches_protocol_parsed: "proto_of v = Inr y \<Longrightarrow> matches_protocol v q \<longleftrightarrow> q = y"
  by (auto simp: matches_protocol_def proto_of_def split: option.splits)

lemma matches_suffix_labels:
  "matches_domain_suffix v ds \<longleftrightarrow>
     (\<exists>d \<in> set ds. suffix (split_on CHR ''.'' v) (split_on CHR ''.'' d))"
  by (simp add: matches_domain_suffix_def list_ex_iff flip: suffix_parts_iff)

lemma compile_rule_holds:
  assumes "rule_ok (ipn_parse net) r"
  shows "list_all (cond_holds (ipn_contains net) g p) (compile_rule (ipn_parse net) r)
      \<longleftrightarrow> matches net r p g"
proof -
  let ?P = "cond_holds (ipn_contains net) g p"
  have formats: "opt_all (\<lambda>c. is_ok (ipn_parse net c)) (r_src_ip_cidr r)"
    "opt_all (\<lambda>c. is_ok (ipn_parse net c)) (r_dst_ip_cidr r)"
    "opt_all (\<lambda>p. is_ok (parse_port_range p)) (r_src_port r)"
    "opt_all (\<lambda>p. is_ok (parse_port_range p)) (r_dst_port r)"
    "opt_all (\<lambda>p. is_ok (proto_of p)) (r_proto r)"
    using assms by (simp_all add: rule_ok_def formats_ok_def is_ok_proto_of)
  have "list_all ?P (conds_of (r_src_ip_cidr r) (ipn_parse net) C_src_net)
      \<longleftrightarrow> opt_all (\<lambda>c. matches_ip net c (pc_src_ip p)) (r_src_ip_cidr r)"
    by (rule conds_of_holds [OF formats(1)]) (simp add: matches_ip_def)
  moreover have "list_all ?P (conds_of (r_dst_ip_cidr r) (ipn_parse net) C_dst_net)
      \<longleftrightarrow> opt_all (\<lambda>c. matches_ip net c (pc_dst_ip p)) (r_dst_ip_cidr r)"
    by (rule conds_of_holds [OF formats(2)]) (simp add: matches_ip_def)
  moreover have "list_all ?P (conds_of (r_src_port r) parse_port_range (case_prod C_src_port))
      \<longleftrightarrow> opt_all (\<lambda>x. matches_port x (pc_src_port p)) (r_src_port r)"
    by (rule conds_of_holds [OF formats(3)]) (auto simp: matches_port_parsed)
  moreover have "list_all ?P (conds_of (r_dst_port r) parse_port_range (case_prod C_dst_port))
      \<longleftrightarrow> opt_all (\<lambda>x. matches_port x (pc_dst_port p)) (r_dst_port r)"
    by (rule conds_of_holds [OF formats(4)]) (auto simp: matches_port_parsed)
  moreover have "list_all ?P (conds_of (r_proto r) proto_of C_proto)
      \<longleftrightarrow> opt_all (\<lambda>x. matches_protocol x (pc_protocol p)) (r_proto r)"
    by (rule conds_of_holds [OF formats(5)]) (simp add: matches_protocol_parsed)
  ultimately show ?thesis
    by (simp add: compile_rule_def matches_iff conds_of_text matches_domain_def
        matches_suffix_labels matches_domain_keyword_def list_ex_iff)
qed

lemma match_rules_compiled:
  assumes "list_all (rule_ok (ipn_parse net)) rs"
  shows "match_rules net g rs p =
    spec_decide (ipn_contains net) g
      (map (\<lambda>r. (compile_rule (ipn_parse net) r, r_action r)) rs) p"
  using assms by (induction rs) (auto simp: compile_rule_holds)

lemma from_config_Inr:
  "from_config net open_readfile c = Inr e \<longleftrightarrow>
     list_all (rule_ok (ipn_parse net)) (rc_rules c)
     \<and> e = \<lparr>re_rules = rc_rules c, re_geoip = geoip_load open_readfile (rc_geoip_path c)\<rparr>"
proof (cases "validate (ipn_parse net) c")
  case (Inl a)
  then show ?thesis using validate_Inr [of "ipn_parse net" c] by (simp add: from_config_def)
next
  case (Inr a)
  then show ?thesis
    using validate_Inr [of "ipn_parse net" c] by (auto simp: from_config_def)
qed

lemma match_rule_matches: "matches net (match_rule a) p g"
  by (simp add: matches_iff match_rule_def rule_new_def opt_all_def)

text \<open>A concrete reading of CIDR texts, used to evaluate the engine on examples.\<close>

definition cidr_parse :: "string \<Rightarrow> string + (ipv4addr \<times> nat)" where
  "cidr_parse s =
     (case split_on CHR ''/'' s of
        [a] \<Rightarrow> (case parse_ipv4 a of None \<Rightarrow> Inl ''invalid address'' | Some ip \<Rightarrow> Inr (ip, 32))
      | [a, n] \<Rightarrow>
          (case (parse_ipv4 a, parse_uint 32 n) of
             (Some ip, Some len) \<Rightarrow> Inr (ip, len)
           | _ \<Rightarrow> Inl ''invalid prefix'')
      | _ \<Rightarrow> Inl ''invalid network'')"

definition cidr_net :: "(ipv4addr \<times> nat) ipnet" where
  "cidr_net = \<lparr>ipn_parse = cidr_parse, ipn_contains = in_cidr\<rparr>"

definition example_packet :: packet_context where
  "example_packet =
     with_domains
       (context_new (Ipv4Addr 10 0 0 2) (Ipv4Addr 8 8 8 8) (Some 5000) (Some 443) Tcp)
       [''www.example.com'']"

definition example_rules :: "rule list" where
  "example_rules =
     [rule_of K_dst_port ''53'' Proxy, rule_of K_domain_suffix ''example.com'' Reject,
      match_rule Proxy]"

lemma example_matches:
  "\<not> matches cidr_net (rule_of K_dst_port ''53'' Proxy) example_packet g"
  "matches cidr_net (rule_of K_domain_suffix ''example.com'' Reject) example_packet g"
  by (simp_all add: matches_iff rule_of_def rule_new_def opt_all_def example_packet_def
      with_domains_def context_new_def matches_port_def parse_port_range_def parse_u16_def parse_uint_def
      str_eval matches_domain_suffix_def suffix_def)

lemma r_action_rule_of [simp]: "r_action (rule_of k v a) = a" "r_action (match_rule a) = a"
  by (cases k) (simp_all add: rule_of_def rule_new_def match_rule_def)

section \<open>Properties\<close>

text \<open>C26: The first rule that matches the packet decides its action, and a packet that no rule
  matches goes out directly.\<close>

theorem engine_first_match:
  "(\<exists>i < length (re_rules engine).
      matches net (re_rules engine ! i) packet (re_geoip engine)
      \<and> (\<forall>j < i. \<not> matches net (re_rules engine ! j) packet (re_geoip engine))
      \<and> match_packet net engine packet = r_action (re_rules engine ! i))
   \<or> (\<forall>r \<in> set (re_rules engine). \<not> matches net r packet (re_geoip engine))
      \<and> match_packet net engine packet = Direct"
  unfolding match_packet_def by (rule eng.decide_cases)

theorem engine_first_match_witness:
  "match_packet cidr_net \<lparr>re_rules = example_rules, re_geoip = without_database\<rparr> example_packet
     = Reject"
  using engine_first_match [of "\<lparr>re_rules = example_rules, re_geoip = without_database\<rparr>"
      cidr_net example_packet]
  by (auto simp: example_rules_def example_matches less_Suc_eq numeral_3_eq_3)

text \<open>C6: Once a configuration is accepted, the engine decides every packet as the rules read
  as conditions on parsed values do: no network, port range or protocol text is ever found
  malformed while packets are matched, and a domain suffix matches on whole labels only.\<close>

theorem accepted_rules_compiled:
  assumes "from_config net open_readfile config = Inr engine"
  shows "match_packet net engine packet =
    spec_decide (ipn_contains net) (re_geoip engine)
      (map (\<lambda>r. (compile_rule (ipn_parse net) r, r_action r)) (rc_rules config)) packet"
  using assms by (auto simp: from_config_Inr match_packet_def match_rules_compiled)

theorem accepted_rules_compiled_witness:
  "match_packet cidr_net
     \<lparr>re_rules = [rule_of K_domain_suffix ''example.com'' Proxy], re_geoip = without_database\<rparr>
     example_packet
   = spec_decide in_cidr without_database [([C_suffix [''example'', ''com'']], Proxy)] example_packet"
proof -
  let ?c = "\<lparr>rc_default_action = Reject, rc_rules = [rule_of K_domain_suffix ''example.com'' Proxy],
    rc_geoip_path = None\<rparr>"
  have engine: "from_config cidr_net (\<lambda>_. Inl ''no database'') ?c =
      Inr \<lparr>re_rules = rc_rules ?c, re_geoip = without_database\<rparr>"
    by (simp add: from_config_Inr rule_ok_def formats_ok_def value_ok_def bad_value_char_def
        rule_of_def rule_new_def opt_all_def has_conditions_def geoip_load_def
        without_database_def str_eval)
  have "compile_rule cidr_parse (rule_of K_domain_suffix ''example.com'' Proxy)
      = [C_suffix [''example'', ''com'']]"
    by (simp add: compile_rule_def conds_of_def rule_of_def rule_new_def)
  with accepted_rules_compiled [OF engine, of example_packet] show ?thesis
    by (simp add: cidr_net_def)
qed

text \<open>Rules behind a \<open>MATCH\<close> rule have no effect.\<close>

lemma rules_after_match_ignored:
  assumes "re_rules engine = before @ match_rule action # behind"
  shows "match_packet net engine packet =
    match_packet net (engine\<lparr>re_rules := before @ [match_rule action]\<rparr>) packet"
  using eng.decide_catch_all [OF match_rule_matches] by (simp add: match_packet_def assms)

text \<open>The engine is built exactly from the configurations whose rules are all well formed,
  and the configured default action never reaches it.\<close>

lemma engine_of_valid_config:
  "is_ok (from_config net open_readfile config) = list_all (rule_ok (ipn_parse net)) (rc_rules config)
   \<and> from_config net open_readfile (config\<lparr>rc_default_action := a\<rparr>) =
       from_config net open_readfile config"
proof
  show "is_ok (from_config net open_readfile config) =
      list_all (rule_ok (ipn_parse net)) (rc_rules config)"
    by (auto simp: is_ok_iff from_config_Inr)
  show "from_config net open_readfile (config\<lparr>rc_default_action := a\<rparr>) =
      from_config net open_readfile config"
    by (simp add: from_config_def validate_def split: sum.split)
qed

end
