(* ===== verification/Domain_Cache.thy ===== *)
theory Domain_Cache
  imports Packet_Context
begin

text \<open>
  The cache from addresses to domain names that is filled from DNS answers:
  \<open>rules/domain_cache.rs\<close>.  Instants and durations are natural numbers of nanoseconds; the
  instant at which an operation runs is an argument.  The DNS message parser of
  \<open>hickory_proto\<close> is the parameter \<open>dns_from_vec\<close>; the types below are the parts of its
  result the source reads, the name of an answer already as text.
\<close>

section \<open>State (domain_cache.rs)\<close>

record domain_entry =
  de_domain :: string
  de_expires_at :: nat

type_synonym domain_cache = "ipv4addr \<Rightarrow> domain_entry list option"

datatype dns_rdata = RData_A ipv4addr | RData_other

record dns_answer =
  da_name :: string
  da_ttl :: u32
  da_data :: dns_rdata

datatype dns_message_type = DnsQuery | DnsResponse

record dns_message =
  dm_type :: dns_message_type
  dm_answers :: "dns_answer list"

type_synonym dns_parser = "bytes \<Rightarrow> string + dns_message"

section \<open>Operations\<close>

definition cache_new :: domain_cache where
  "cache_new = (\<lambda>_. None)"

definition normalize_domain :: "string \<Rightarrow> string option" where
  "normalize_domain value =
     (let v = to_ascii_lowercase (trim_end_matches CHR ''.'' (trim value)) in
      if v = [] then None else Some v)"

text \<open>Refresh the first entry of the domain, or add one at the end.\<close>

fun refresh_entry :: "string \<Rightarrow> nat \<Rightarrow> domain_entry list \<Rightarrow> domain_entry list" where
  "refresh_entry domain expires [] = [\<lparr>de_domain = domain, de_expires_at = expires\<rparr>]"
| "refresh_entry domain expires (e # es) =
     (if de_domain e = domain then e\<lparr>de_expires_at := expires\<rparr> # es
      else e # refresh_entry domain expires es)"

definition cache_insert :: "nat \<Rightarrow> ipv4addr \<Rightarrow> string \<Rightarrow> nat \<Rightarrow> domain_cache \<Rightarrow> domain_cache" where
  "cache_insert now ip name ttl cache =
     (if ttl = 0 then cache
      else case normalize_domain name of
             None \<Rightarrow> cache
           | Some domain \<Rightarrow>
               (let entries = (case cache ip of None \<Rightarrow> [] | Some es \<Rightarrow> es) in
                cache(ip := Some (refresh_entry domain (now + ttl) entries))))"

definition cache_lookup :: "nat \<Rightarrow> ipv4addr \<Rightarrow> domain_cache \<Rightarrow> string list \<times> domain_cache" where
  "cache_lookup now ip cache =
     (case cache ip of
        None \<Rightarrow> ([], cache)
      | Some entries \<Rightarrow>
          (let live = filter (\<lambda>e. de_expires_at e > now) entries in
           (map de_domain live,
            cache(ip := if live = [] then None else Some live))))"

definition dns_response_payload :: "slicer \<Rightarrow> bytes \<Rightarrow> bytes option" where
  "dns_response_payload slice_ip packet =
     (case slice_ip packet of
        Inl _ \<Rightarrow> None
      | Inr sliced \<Rightarrow>
          (case sl_transport sliced of
             Some (UdpSlice source_port _ payload) \<Rightarrow>
               if source_port \<noteq> 53 then None else Some payload
           | _ \<Rightarrow> None))"

text \<open>The loop over the answers; \<open>clock i\<close> is the instant read by the \<open>i\<close>-th insertion.\<close>

fun observe_answers :: "(nat \<Rightarrow> nat) \<Rightarrow> nat \<Rightarrow> dns_answer list \<Rightarrow> domain_cache \<Rightarrow> domain_cache" where
  "observe_answers clock i [] cache = cache"
| "observe_answers clock i (answer # answers) cache =
     (case da_data answer of
        RData_A addr \<Rightarrow>
          observe_answers clock (Suc i) answers
            (cache_insert (clock i) addr (da_name answer) (secs (unat (da_ttl answer))) cache)
      | RData_other \<Rightarrow> observe_answers clock i answers cache)"

definition observe_packet ::
  "slicer \<Rightarrow> dns_parser \<Rightarrow> (nat \<Rightarrow> nat) \<Rightarrow> bytes \<Rightarrow> domain_cache \<Rightarrow> domain_cache" where
  "observe_packet slice_ip dns_from_vec clock packet cache =
     (case dns_response_payload slice_ip packet of
        None \<Rightarrow> cache
      | Some payload \<Rightarrow>
          (case dns_from_vec payload of
             Inl _ \<Rightarrow> cache
           | Inr message \<Rightarrow>
               if dm_type message \<noteq> DnsResponse then cache
               else observe_answers clock 0 (dm_answers message) cache))"

section \<open>Runs of cache operations\<close>

text \<open>
  A run of insertions and lookups, each with its instant; the observation of a run is the
  set of values each lookup returned.  The specification is a map from keys and values to
  expiry instants that is never cleaned up.
\<close>

datatype ('k, 'v) cache_op = OpInsert nat 'k 'v nat | OpLookup nat 'k

fun op_time :: "('k, 'v) cache_op \<Rightarrow> nat" where
  "op_time (OpInsert now _ _ _) = now"
| "op_time (OpLookup now _) = now"

fun run_ops ::
  "(nat \<Rightarrow> 'k \<Rightarrow> 'v \<Rightarrow> nat \<Rightarrow> 'c \<Rightarrow> 'c) \<Rightarrow> (nat \<Rightarrow> 'k \<Rightarrow> 'c \<Rightarrow> 'v list \<times> 'c)
     \<Rightarrow> ('k, 'v) cache_op list \<Rightarrow> 'c \<Rightarrow> 'v set list" where
  "run_ops ins look [] c = []"
| "run_ops ins look (OpInsert now k v ttl # ops) c = run_ops ins look ops (ins now k v ttl c)"
| "run_ops ins look (OpLookup now k # ops) c =
     (case look now k c of (vs, c') \<Rightarrow> set vs # run_ops ins look ops c')"

fun spec_run ::
  "('v \<Rightarrow> 'v option) \<Rightarrow> ('k, 'v) cache_op list \<Rightarrow> ('k \<Rightarrow> 'v \<Rightarrow> nat option) \<Rightarrow> 'v set list" where
  "spec_run norm [] m = []"
| "spec_run norm (OpInsert now k v ttl # ops) m =
     spec_run norm ops
       (\<lambda>k' d. if 0 < ttl \<and> k' = k \<and> norm v = Some d then Some (now + ttl) else m k' d)"
| "spec_run norm (OpLookup now k # ops) m =
     {d. \<exists>t. m k d = Some t \<and> now < t} # spec_run norm ops m"

text \<open>
  Two descriptions agree from an instant on when they make the same values live at every
  later instant.
\<close>

definition same_live ::
  "nat \<Rightarrow> ('k \<Rightarrow> 'v \<Rightarrow> nat option) \<Rightarrow> ('k \<Rightarrow> 'v \<Rightarrow> nat option) \<Rightarrow> bool" where
  "same_live now m m' \<longleftrightarrow>
     (\<forall>k d t. now \<le> t \<longrightarrow> (\<exists>u. m k d = Some u \<and> t < u) = (\<exists>u. m' k d = Some u \<and> t < u))"

lemma same_live_later: "same_live now m m' \<Longrightarrow> now \<le> t \<Longrightarrow> same_live t m m'"
  by (simp add: same_live_def)

section \<open>The contract of a cache with expiry\<close>

text \<open>
  The interface the packet path relies on.  \<open>expiry c k v\<close> is the instant until which the
  cache associates \<open>v\<close> with the key \<open>k\<close>; \<open>norm\<close> is the normal form values are stored in.
\<close>

locale ttl_cache =
  fixes empty :: 'c
    and insert :: "nat \<Rightarrow> 'k \<Rightarrow> 'v \<Rightarrow> nat \<Rightarrow> 'c \<Rightarrow> 'c"
    and lookup :: "nat \<Rightarrow> 'k \<Rightarrow> 'c \<Rightarrow> 'v list \<times> 'c"
    and norm :: "'v \<Rightarrow> 'v option"
    and expiry :: "'c \<Rightarrow> 'k \<Rightarrow> 'v \<Rightarrow> nat option"
    and invar :: "'c \<Rightarrow> bool"
  assumes invar_empty: "invar empty"
    and expiry_empty: "expiry empty k v = None"
    and invar_insert: "invar c \<Longrightarrow> invar (insert now k v ttl c)"
    and invar_lookup: "invar c \<Longrightarrow> invar (snd (lookup now k c))"
    and expiry_insert: "invar c \<Longrightarrow>
      expiry (insert now k v ttl c) k' d =
        (if 0 < ttl \<and> k' = k \<and> norm v = Some d then Some (now + ttl) else expiry c k' d)"
    and lookup_live: "invar c \<Longrightarrow>
      set (fst (lookup now k c)) = {d. \<exists>t. expiry c k d = Some t \<and> now < t}"
    and expiry_lookup: "invar c \<Longrightarrow>
      expiry (snd (lookup now k c)) k' d =
        (case expiry c k' d of
           None \<Rightarrow> None
         | Some t \<Rightarrow> if k' = k \<and> t \<le> now then None else Some t)"
begin

text \<open>A stored value is found until its lifetime is over and not from then on.\<close>

lemma lookup_after_insert:
  assumes "invar c" and "norm v = Some d" and "0 < ttl"
  shows "d \<in> set (fst (lookup t k (insert now k v ttl c))) \<longleftrightarrow> t < now + ttl"
  using assms by (simp add: lookup_live invar_insert expiry_insert)

lemma lookup_insert_other:
  assumes "invar c" and "k' \<noteq> k"
  shows "set (fst (lookup t k' (insert now k v ttl c))) = set (fst (lookup t k' c))"
  using assms by (simp add: lookup_live invar_insert expiry_insert)

text \<open>Dropping dead entries at a lookup is not observable by any later lookup.\<close>

lemma lookup_after_lookup:
  assumes "invar c" and "now \<le> t"
  shows "set (fst (lookup t k' (snd (lookup now k c)))) = set (fst (lookup t k' c))"
proof -
  have "(\<exists>u. expiry (snd (lookup now k c)) k' d = Some u \<and> t < u)
      \<longleftrightarrow> (\<exists>u. expiry c k' d = Some u \<and> t < u)" for d
    using assms by (auto simp: expiry_lookup split: option.split)
  with assms show ?thesis by (simp add: lookup_live invar_lookup)
qed

text \<open>
  Every operation keeps the agreement with a description that is never cleaned up, so runs
  cannot tell them apart.
\<close>

lemma same_live_insert:
  assumes "invar c" and "same_live now (expiry c) m"
  shows "same_live now (expiry (insert at k v ttl c))
    (\<lambda>k' d. if 0 < ttl \<and> k' = k \<and> norm v = Some d then Some (at + ttl) else m k' d)"
  using assms by (auto simp: same_live_def expiry_insert)

lemma same_live_lookup:
  assumes "invar c" and "same_live now (expiry c) m" and "now \<le> at"
  shows "same_live at (expiry (snd (lookup at k c))) m"
  unfolding same_live_def
proof (intro allI impI)
  fix k' d t assume "at \<le> t"
  with assms(2,3) have "(\<exists>u. expiry c k' d = Some u \<and> t < u) = (\<exists>u. m k' d = Some u \<and> t < u)"
    by (simp add: same_live_def)
  with assms(1) \<open>at \<le> t\<close>
  show "(\<exists>u. expiry (snd (lookup at k c)) k' d = Some u \<and> t < u) = (\<exists>u. m k' d = Some u \<and> t < u)"
    by (auto simp: expiry_lookup split: option.splits)
qed

lemma lookup_same_live:
  assumes "invar c" and "same_live now (expiry c) m" and "now \<le> at"
  shows "set (fst (lookup at k c)) = {d. \<exists>t. m k d = Some t \<and> at < t}"
  using assms by (simp add: lookup_live same_live_def)

lemma run_refines:
  assumes "invar c" and "sorted (map op_time ops)" and "\<forall>x \<in> set ops. now \<le> op_time x"
    and "same_live now (expiry c) m"
  shows "run_ops insert lookup ops c = spec_run norm ops m"
  using assms
proof (induction ops arbitrary: c m now)
  case (Cons x ops)
  have sorted: "sorted (map op_time ops)" and later: "\<forall>y \<in> set ops. op_time x \<le> op_time y"
    and now: "now \<le> op_time x"
    using Cons.prems(2,3) by auto
  show ?case
  proof (cases x)
    case (OpInsert at k v ttl)
    then have "same_live at (expiry c) m" using Cons.prems(4) now same_live_later by simp
    from same_live_insert [OF Cons.prems(1) this] later OpInsert show ?thesis
      using Cons.IH [OF invar_insert [OF Cons.prems(1)] sorted, of at] by simp
  next
    case (OpLookup at k)
    with Cons.prems(1,4) now sorted later show ?thesis
      using Cons.IH [OF invar_lookup [OF Cons.prems(1)] sorted, of at] same_live_lookup
        lookup_same_live [OF Cons.prems(1,4), of at k]
      by (simp add: case_prod_beta)
  qed
qed simp

end

section \<open>The cache meets the contract\<close>

definition cache_expiry :: "domain_cache \<Rightarrow> ipv4addr \<Rightarrow> string \<Rightarrow> nat option" where
  "cache_expiry cache ip d =
     (case cache ip of
        None \<Rightarrow> None
      | Some es \<Rightarrow> map_of (map (\<lambda>e. (de_domain e, de_expires_at e)) es) d)"

text \<open>
  The representation invariant: no empty entry list is kept, no domain occurs twice for an
  address, and every stored domain is in the normal form \<open>normalize_domain\<close> produces.
\<close>

definition normal_domain :: "string \<Rightarrow> bool" where
  "normal_domain d \<longleftrightarrow> d \<noteq> [] \<and> last d \<noteq> CHR ''.'' \<and> to_ascii_lowercase d = d"

definition entries_ok :: "domain_entry list \<Rightarrow> bool" where
  "entries_ok es \<longleftrightarrow>
     es \<noteq> [] \<and> distinct (map de_domain es) \<and> (\<forall>e \<in> set es. normal_domain (de_domain e))"

definition cache_invar :: "domain_cache \<Rightarrow> bool" where
  "cache_invar cache \<longleftrightarrow> (\<forall>ip es. cache ip = Some es \<longrightarrow> entries_ok es)"

lemma normalize_domain_normal: "normalize_domain v = Some d \<Longrightarrow> normal_domain d"
  using last_trim_end_matches [of "CHR ''.''" "trim v"]
  by (auto simp: normalize_domain_def normal_domain_def Let_def last_lowercase_dot split: if_splits)

lemma refresh_entry_domains:
  "de_domain ` set (refresh_entry d t es) = insert d (de_domain ` set es)"
  by (induction es) auto

lemma refresh_entry_distinct:
  "distinct (map de_domain es) \<Longrightarrow> distinct (map de_domain (refresh_entry d t es))"
  by (induction es) (auto simp: refresh_entry_domains)

lemma refresh_entry_not_Nil [simp]: "refresh_entry d t es \<noteq> []"
  by (cases es) auto

lemma map_of_refresh_entry:
  "map_of (map (\<lambda>e. (de_domain e, de_expires_at e)) (refresh_entry d t es)) x =
     (if x = d then Some t else map_of (map (\<lambda>e. (de_domain e, de_expires_at e)) es) x)"
  by (induction es) auto

lemma map_of_live_entries:
  assumes "distinct (map de_domain es)"
  shows "map_of (map (\<lambda>e. (de_domain e, de_expires_at e)) (filter (\<lambda>e. de_expires_at e > now) es)) x =
     (case map_of (map (\<lambda>e. (de_domain e, de_expires_at e)) es) x of
        None \<Rightarrow> None | Some t \<Rightarrow> if t \<le> now then None else Some t)"
  using assms
proof (induction es)
  case (Cons e es)
  have "map_of (map (\<lambda>e. (de_domain e, de_expires_at e)) es) (de_domain e) = None"
    using Cons.prems by (auto simp: map_of_eq_None_iff image_image)
  with Cons show ?case by (auto split: option.splits)
qed simp

lemma set_live_domains:
  assumes "distinct (map de_domain es)"
  shows "de_domain ` {e \<in> set es. now < de_expires_at e}
      = {d. \<exists>t. map_of (map (\<lambda>e. (de_domain e, de_expires_at e)) es) d = Some t \<and> now < t}"
proof -
  have dist: "distinct (map fst (map (\<lambda>e. (de_domain e, de_expires_at e)) es))"
    using assms by (simp add: comp_def)
  show ?thesis
    by (auto simp: map_of_eq_Some_iff [OF dist] image_iff)
qed

lemma entries_ok_refresh:
  assumes "es = [] \<or> entries_ok es" and "normal_domain d"
  shows "entries_ok (refresh_entry d t es)"
proof -
  from assms have "distinct (map de_domain es)" and "\<forall>x \<in> de_domain ` set es. normal_domain x"
    by (auto simp: entries_ok_def)
  then have "\<forall>x \<in> de_domain ` set (refresh_entry d t es). normal_domain x"
    using assms(2) by (simp add: refresh_entry_domains)
  with \<open>distinct (map de_domain es)\<close> show ?thesis
    by (simp add: entries_ok_def refresh_entry_distinct)
qed

lemma cache_invar_insert:
  assumes "cache_invar c"
  shows "cache_invar (cache_insert now ip name ttl c)"
proof (cases "ttl = 0 \<or> normalize_domain name = None")
  case False
  then obtain d where d: "normalize_domain name = Some d" "ttl \<noteq> 0" by auto
  let ?es = "case c ip of None \<Rightarrow> [] | Some es \<Rightarrow> es"
  have "entries_ok (refresh_entry d (now + ttl) ?es)"
    using assms normalize_domain_normal [OF d(1)]
    by (intro entries_ok_refresh) (auto simp: cache_invar_def split: option.split)
  with assms d show ?thesis by (simp add: cache_insert_def cache_invar_def)
qed (use assms in \<open>auto simp: cache_insert_def split: option.split\<close>)

lemma cache_invar_lookup:
  assumes "cache_invar c"
  shows "cache_invar (snd (cache_lookup now ip c))"
proof (cases "c ip")
  case (Some es)
  let ?live = "filter (\<lambda>e. de_expires_at e > now) es"
  from assms Some have "entries_ok es" by (simp add: cache_invar_def)
  then have "?live = [] \<or> entries_ok ?live" by (auto simp: entries_ok_def distinct_map_filter)
  with assms Some show ?thesis by (auto simp: cache_lookup_def cache_invar_def Let_def)
qed (use assms in \<open>simp add: cache_lookup_def\<close>)

lemma cache_lookup_domains:
  assumes "cache_invar c"
  shows "set (fst (cache_lookup now ip c)) = {d. \<exists>t. cache_expiry c ip d = Some t \<and> now < t}"
proof (cases "c ip")
  case (Some es)
  with assms have "distinct (map de_domain es)"
    by (simp add: cache_invar_def entries_ok_def)
  with Some show ?thesis
    by (simp add: cache_lookup_def cache_expiry_def Let_def set_live_domains)
qed (simp add: cache_lookup_def cache_expiry_def)

lemma cache_expiry_lookup:
  assumes "cache_invar c"
  shows "cache_expiry (snd (cache_lookup now ip c)) ip' d =
    (case cache_expiry c ip' d of
       None \<Rightarrow> None | Some t \<Rightarrow> if ip' = ip \<and> t \<le> now then None else Some t)"
proof (cases "c ip")
  case (Some es)
  with assms have "distinct (map de_domain es)"
    by (simp add: cache_invar_def entries_ok_def)
  from map_of_live_entries [OF this, of now d] Some show ?thesis
    by (auto simp: cache_lookup_def cache_expiry_def Let_def split: option.splits)
qed (auto simp: cache_lookup_def cache_expiry_def split: option.split)

interpretation dc: ttl_cache cache_new cache_insert cache_lookup normalize_domain
  cache_expiry cache_invar
proof unfold_locales
  fix c :: domain_cache and now ip name ttl ip' d
  assume "cache_invar c"
  show "cache_expiry (cache_insert now ip name ttl c) ip' d =
      (if 0 < ttl \<and> ip' = ip \<and> normalize_domain name = Some d then Some (now + ttl)
       else cache_expiry c ip' d)"
    by (auto simp: cache_expiry_def cache_insert_def Let_def map_of_refresh_entry
        split: option.split)
qed (simp_all add: cache_invar_insert cache_invar_lookup cache_lookup_domains
    cache_expiry_lookup, simp_all add: cache_new_def cache_invar_def cache_expiry_def)

lemma cache_invar_observe_answers:
  "cache_invar c \<Longrightarrow> cache_invar (observe_answers clock i answers c)"
  by (induction clock i answers c rule: observe_answers.induct)
     (auto simp: cache_invar_insert split: dns_rdata.split)

lemma cache_invar_observe:
  "cache_invar c \<Longrightarrow> cache_invar (observe_packet slice_ip dns_from_vec clock packet c)"
  by (simp add: observe_packet_def cache_invar_observe_answers split: option.split sum.split)

text \<open>An address answer is live for its lifetime when it is the last one for its address.\<close>

lemma observe_answers_append:
  "observe_answers clock i (xs @ ys) c =
     observe_answers clock (i + length (filter (\<lambda>a. da_data a \<noteq> RData_other) xs)) ys
       (observe_answers clock i xs c)"
  by (induction clock i xs c rule: observe_answers.induct) (auto split: dns_rdata.split)

lemma observe_answers_other:
  assumes "cache_invar c" and "\<forall>a \<in> set answers. da_data a \<noteq> RData_A ip"
  shows "cache_expiry (observe_answers clock i answers c) ip d = cache_expiry c ip d"
  using assms
proof (induction clock i answers c rule: observe_answers.induct)
  case (2 clock i answer answers cache)
  then show ?case
    by (auto simp: cache_invar_insert dc.expiry_insert split: dns_rdata.splits)
qed simp

section \<open>Properties\<close>

text \<open>Insertion, lookup and the observation of a packet keep the representation invariant:
  no address maps to an empty list, no domain is stored twice for an address, and every stored
  domain is non-empty, in lower case and without a trailing dot.\<close>

lemma cache_operations_invar:
  assumes "cache_invar c"
  shows "cache_invar (cache_insert now ip name ttl c)
    \<and> cache_invar (snd (cache_lookup now ip c))
    \<and> cache_invar (observe_packet slice_ip dns_from_vec clock packet c)"
  using assms by (simp add: cache_invar_insert cache_invar_lookup cache_invar_observe)

text \<open>A name stored with a positive lifetime is returned, in its normal form, by exactly the
  lookups of its address that happen before the lifetime is over, and storing it does not change
  what is found for any other address.\<close>

lemma cache_hit_until_expiry:
  assumes "cache_invar c" and "normalize_domain name = Some d" and "0 < ttl"
  shows "(d \<in> set (fst (cache_lookup t ip (cache_insert now ip name ttl c))) \<longleftrightarrow> t < now + ttl)
    \<and> (ip' \<noteq> ip \<longrightarrow>
         set (fst (cache_lookup t ip' (cache_insert now ip name ttl c)))
           = set (fst (cache_lookup t ip' c)))"
  using dc.lookup_after_insert [OF assms] dc.lookup_insert_other [OF assms(1)] by simp

text \<open>C23: With a clock that does not run backwards, every sequence of insertions and lookups
  starting from the empty cache returns at each lookup the same names as a map from addresses and
  names to expiry instants that is never cleaned up: dropping dead entries is not observable.\<close>

theorem cache_refines_expiry_map:
  assumes "sorted (map op_time ops)"
  shows "run_ops cache_insert cache_lookup ops cache_new
    = spec_run normalize_domain ops (\<lambda>_ _. None)"
  using dc.invar_empty assms
  by (rule dc.run_refines [where now = 0]) (simp_all add: dc.expiry_empty same_live_def)

theorem cache_refines_expiry_map_witness:
  "run_ops cache_insert cache_lookup
     [OpInsert 0 (Ipv4Addr 1 2 3 4) ''a.b'' 10, OpLookup 20 (Ipv4Addr 1 2 3 4)] cache_new
   = spec_run normalize_domain
     [OpInsert 0 (Ipv4Addr 1 2 3 4) ''a.b'' 10, OpLookup 20 (Ipv4Addr 1 2 3 4)] (\<lambda>_ _. None)"
  by (rule cache_refines_expiry_map) simp

end
