(* ===== verification/Channel.thy ===== *)
theory Channel
  imports Prelude
begin

text \<open>
  The \<open>tokio::sync::mpsc\<close> channels that join the tasks of the program.  A channel is the queue
  of the values sent and not yet received.  A sender that finds the channel full is suspended
  until there is room, so \<open>chan_send\<close> is the effect of a send once it completes: the value is
  queued, or the receiver is gone and the value is given back.  \<open>chan_recv\<close> is \<open>None\<close> while
  the receiver has to wait.
\<close>

record 'a chan =
  ch_queue :: "'a list"
  ch_receiver :: bool
  ch_senders :: bool

definition chan_new :: "'a chan" where
  "chan_new = \<lparr>ch_queue = [], ch_receiver = True, ch_senders = True\<rparr>"

definition send_error :: string where
  "send_error = ''channel closed''"

definition chan_send :: "'a \<Rightarrow> 'a chan \<Rightarrow> (string + unit) \<times> 'a chan" where
  "chan_send x ch =
     (if ch_receiver ch then (Inr (), ch\<lparr>ch_queue := ch_queue ch @ [x]\<rparr>) else (Inl send_error, ch))"

definition chan_recv :: "'a chan \<Rightarrow> 'a option option \<times> 'a chan" where
  "chan_recv ch =
     (case ch_queue ch of
        x # xs \<Rightarrow> (Some (Some x), ch\<lparr>ch_queue := xs\<rparr>)
      | [] \<Rightarrow> if ch_senders ch then (None, ch) else (Some None, ch))"

text \<open>
  The capacity of the channels between the packet tasks.  A send completes when the channel is
  within it afterwards.
\<close>

definition CHANNEL_CAPACITY :: nat where
  "CHANNEL_CAPACITY = 4096"

definition within :: "'a chan \<Rightarrow> bool" where
  "within ch \<longleftrightarrow> length (ch_queue ch) \<le> CHANNEL_CAPACITY"

section \<open>The contract of a queue between two tasks\<close>

datatype 'a chan_op = Send 'a | Recv

text \<open>A run of sends and receives: the values accepted and the values received.\<close>

fun chan_run ::
  "('a \<Rightarrow> 'c \<Rightarrow> ('e + unit) \<times> 'c) \<Rightarrow> ('c \<Rightarrow> 'a option option \<times> 'c) \<Rightarrow> 'a chan_op list \<Rightarrow> 'c
     \<Rightarrow> 'a list \<times> 'a list \<times> 'c" where
  "chan_run snd_op rcv_op [] c = ([], [], c)"
| "chan_run snd_op rcv_op (Send x # ops) c =
     (case snd_op x c of (r, c1) \<Rightarrow>
        (case chan_run snd_op rcv_op ops c1 of
           (acc, got, c2) \<Rightarrow> (if is_ok r then x # acc else acc, got, c2)))"
| "chan_run snd_op rcv_op (Recv # ops) c =
     (case rcv_op c of (r, c1) \<Rightarrow>
        (case chan_run snd_op rcv_op ops c1 of
           (acc, got, c2) \<Rightarrow> (acc, (case r of Some (Some x) \<Rightarrow> x # got | _ \<Rightarrow> got), c2)))"

locale fifo =
  fixes snd_op :: "'a \<Rightarrow> 'c \<Rightarrow> ('e + unit) \<times> 'c"
    and rcv_op :: "'c \<Rightarrow> 'a option option \<times> 'c"
    and queue :: "'c \<Rightarrow> 'a list"
  assumes send_queue: "queue (snd (snd_op x c)) = (if is_ok (fst (snd_op x c)) then queue c @ [x] else queue c)"
    and recv_queue: "queue c =
      (case fst (rcv_op c) of Some (Some x) \<Rightarrow> x # queue (snd (rcv_op c)) | _ \<Rightarrow> queue (snd (rcv_op c)))"
begin

text \<open>Nothing is lost, duplicated or reordered between the sender and the receiver.\<close>

lemma run_conserves:
  "chan_run snd_op rcv_op ops c = (acc, got, c') \<Longrightarrow> queue c @ acc = got @ queue c'"
proof (induction ops arbitrary: c acc got c')
  case (Cons x ops)
  show ?case
  proof (cases x)
    case (Send v)
    obtain r c1 where s: "snd_op v c = (r, c1)" by (cases "snd_op v c") auto
    obtain acc1 got1 c2 where run: "chan_run snd_op rcv_op ops c1 = (acc1, got1, c2)"
      by (cases "chan_run snd_op rcv_op ops c1") auto
    show ?thesis
      using Cons.prems Cons.IH [OF run] send_queue [of v c] Send s run by (auto split: if_splits)
  next
    case Recv
    obtain r c1 where s: "rcv_op c = (r, c1)" by (cases "rcv_op c") auto
    obtain acc1 got1 c2 where run: "chan_run snd_op rcv_op ops c1 = (acc1, got1, c2)"
      by (cases "chan_run snd_op rcv_op ops c1") auto
    show ?thesis
      using Cons.prems Cons.IH [OF run] recv_queue [of c] Recv s run
      by (auto split: option.splits)
  qed
qed simp

end

interpretation mpsc: fifo chan_send chan_recv ch_queue
  by unfold_locales (auto simp: chan_send_def chan_recv_def split: list.split)

lemma chan_send_open [simp]:
  "ch_receiver ch \<Longrightarrow> chan_send x ch = (Inr (), ch\<lparr>ch_queue := ch_queue ch @ [x]\<rparr>)"
  by (simp add: chan_send_def)

lemma chan_send_closed [simp]: "\<not> ch_receiver ch \<Longrightarrow> chan_send x ch = (Inl send_error, ch)"
  by (simp add: chan_send_def)

end
