(* ===== verification/Packet_Route.thy ===== *)
theory Packet_Route
  imports Rules_Engine Domain_Cache Channel "HOL-Library.List_Lexorder" "HOL-Library.Char_ord"
begin

text \<open>
  The packet path between the TUN device, the tunnel and the direct proxy: \<open>common.rs\<close>.  The
  task is driven by the events its \<open>select!\<close> loop reacts to; each event carries what the
  environment answers (the packet, the instants read from the clock, a failed device write).
\<close>

section \<open>Routing one packet (common.rs)\<close>

definition TUN_MTU :: nat where
  "TUN_MTU = 1500"

text \<open>The libraries the task calls and its engine, which never change while it runs.\<close>

record 'n route_env =
  env_slice :: slicer
  env_dns :: dns_parser
  env_net :: "'n ipnet"
  env_engine :: rules_engine

definition handle_packet_route ::
  "'n route_env \<Rightarrow> nat \<Rightarrow> bytes \<Rightarrow> domain_cache \<Rightarrow> bytes chan \<Rightarrow> bytes chan
     \<Rightarrow> (string + unit) \<times> domain_cache \<times> bytes chan \<times> bytes chan" where
  "handle_packet_route env now packet domain_cache tun_tx direct_proxy_tx =
     (case from_ip_packet (env_slice env) packet of
        None \<Rightarrow>
          (case chan_send packet tun_tx of
             (res, tun_tx) \<Rightarrow>
               (map_err (\<lambda>e. ''Failed to send to transport: '' @ e) res, domain_cache, tun_tx,
                direct_proxy_tx))
      | Some packet_ctx \<Rightarrow>
          (case cache_lookup now (pc_dst_ip packet_ctx) domain_cache of
             (domains, domain_cache) \<Rightarrow>
               (case match_packet (env_net env) (env_engine env) (with_domains packet_ctx domains) of
                  Direct \<Rightarrow>
                    (case chan_send packet direct_proxy_tx of
                       (res, direct_proxy_tx) \<Rightarrow>
                         (map_err (\<lambda>e. ''Failed to send packet to direct proxy: '' @ e) res,
                          domain_cache, tun_tx, direct_proxy_tx))
                | Proxy \<Rightarrow>
                    (case chan_send packet tun_tx of
                       (res, tun_tx) \<Rightarrow>
                         (map_err (\<lambda>e. ''Failed to send to transport: '' @ e) res,
                          domain_cache, tun_tx, direct_proxy_tx))
                | Reject \<Rightarrow> (Inr (), domain_cache, tun_tx, direct_proxy_tx))))"

section \<open>The task (common.rs)\<close>

record tun_io =
  io_cache :: domain_cache
  io_tun_tx :: "bytes chan"
  io_direct_tx :: "bytes chan"
  io_written :: "bytes list"

definition tun_io_start :: "bytes chan \<Rightarrow> bytes chan \<Rightarrow> tun_io" where
  "tun_io_start tun_tx direct_tx =
     \<lparr>io_cache = cache_new, io_tun_tx = tun_tx, io_direct_tx = direct_tx, io_written = []\<rparr>"

text \<open>
  A packet or the end of a channel, with the instants read while the packet is observed and
  the error of the device write, if any; or what a read from the device gives, with the
  instant of the cache lookup.
\<close>

datatype tun_event =
  From_transport "bytes option" "nat \<Rightarrow> nat" "string option"
| From_direct "bytes option" "nat \<Rightarrow> nat" "string option"
| From_tun "string + bytes" nat

fun tun_io_step :: "'n route_env \<Rightarrow> tun_event \<Rightarrow> tun_io \<Rightarrow> string option \<times> tun_io" where
  "tun_io_step env (From_transport None clock werr) st = (Some ''Channel disconnected'', st)"
| "tun_io_step env (From_transport (Some data) clock werr) st =
     (let st = st\<lparr>io_cache := observe_packet (env_slice env) (env_dns env) clock data (io_cache st)\<rparr>
      in case werr of
           Some e \<Rightarrow> (Some (''Failed to write to TUN: '' @ e), st)
         | None \<Rightarrow> (None, st\<lparr>io_written := io_written st @ [data]\<rparr>))"
| "tun_io_step env (From_direct None clock werr) st =
     (Some ''Direct proxy channel disconnected'', st)"
| "tun_io_step env (From_direct (Some data) clock werr) st =
     (let st = st\<lparr>io_cache := observe_packet (env_slice env) (env_dns env) clock data (io_cache st)\<rparr>
      in case werr of
           Some e \<Rightarrow> (Some (''Failed to write direct packet to TUN: '' @ e), st)
         | None \<Rightarrow> (None, st\<lparr>io_written := io_written st @ [data]\<rparr>))"
| "tun_io_step env (From_tun (Inl e) now) st = (Some (''Error reading from TUN: '' @ e), st)"
| "tun_io_step env (From_tun (Inr data) now) st =
     (case handle_packet_route env now data (io_cache st) (io_tun_tx st) (io_direct_tx st) of
        (res, cache, tun_tx, direct_tx) \<Rightarrow>
          (case res of Inl e \<Rightarrow> Some e | Inr _ \<Rightarrow> None,
           st\<lparr>io_cache := cache, io_tun_tx := tun_tx, io_direct_tx := direct_tx\<rparr>))"

text \<open>The loop: it ends with the first error, otherwise when the events are used up.\<close>

fun tun_io_task :: "'n route_env \<Rightarrow> tun_event list \<Rightarrow> tun_io \<Rightarrow> string option \<times> tun_io" where
  "tun_io_task env [] st = (None, st)"
| "tun_io_task env (e # es) st =
     (case tun_io_step env e st of
        (Some err, st) \<Rightarrow> (Some err, st)
      | (None, st) \<Rightarrow> tun_io_task env es st)"

section \<open>The specification: where each packet goes\<close>

datatype destination = To_tunnel | To_direct | Dropped

fun dest_of :: "rule_action \<Rightarrow> destination" where
  "dest_of Direct = To_direct"
| "dest_of Proxy = To_tunnel"
| "dest_of Reject = Dropped"

text \<open>The domains that are live for an address at an instant, by an expiry map.\<close>

definition live_domains ::
  "(ipv4addr \<Rightarrow> string \<Rightarrow> nat option) \<Rightarrow> nat \<Rightarrow> ipv4addr \<Rightarrow> string list" where
  "live_domains m now ip = sorted_list_of_set {d. \<exists>t. m ip d = Some t \<and> now < t}"

definition spec_dest ::
  "'n route_env \<Rightarrow> (ipv4addr \<Rightarrow> string \<Rightarrow> nat option) \<Rightarrow> nat \<Rightarrow> bytes \<Rightarrow> destination" where
  "spec_dest env m now packet =
     (case from_ip_packet (env_slice env) packet of
        None \<Rightarrow> To_tunnel
      | Some ctx \<Rightarrow>
          dest_of (match_packet (env_net env) (env_engine env)
            (with_domains ctx (live_domains m now (pc_dst_ip ctx)))))"

text \<open>What a DNS answer adds to the expiry map: nothing is ever removed from it.\<close>

fun spec_answers ::
  "(nat \<Rightarrow> nat) \<Rightarrow> nat \<Rightarrow> dns_answer list \<Rightarrow> (ipv4addr \<Rightarrow> string \<Rightarrow> nat option)
     \<Rightarrow> ipv4addr \<Rightarrow> string \<Rightarrow> nat option" where
  "spec_answers clock i [] m = m"
| "spec_answers clock i (a # as) m =
     (case da_data a of
        RData_other \<Rightarrow> spec_answers clock i as m
      | RData_A addr \<Rightarrow>
          spec_answers clock (Suc i) as
            (\<lambda>ip d. if 0 < secs (unat (da_ttl a)) \<and> ip = addr \<and> normalize_domain (da_name a) = Some d
                    then Some (clock i + secs (unat (da_ttl a))) else m ip d))"

definition spec_observe ::
  "'n route_env \<Rightarrow> (nat \<Rightarrow> nat) \<Rightarrow> bytes \<Rightarrow> (ipv4addr \<Rightarrow> string \<Rightarrow> nat option)
     \<Rightarrow> ipv4addr \<Rightarrow> string \<Rightarrow> nat option" where
  "spec_observe env clock packet m =
     (case dns_response_payload (env_slice env) packet of
        None \<Rightarrow> m
      | Some payload \<Rightarrow>
          (case env_dns env payload of
             Inl _ \<Rightarrow> m
           | Inr message \<Rightarrow>
               if dm_type message = DnsResponse then spec_answers clock 0 (dm_answers message) m else m))"

text \<open>The packets read from the device, each with its destination, in the order of the reads.\<close>

fun spec_routes ::
  "'n route_env \<Rightarrow> tun_event list \<Rightarrow> (ipv4addr \<Rightarrow> string \<Rightarrow> nat option)
     \<Rightarrow> (bytes \<times> destination) list" where
  "spec_routes env [] m = []"
| "spec_routes env (From_transport (Some data) clock werr # es) m =
     spec_routes env es (spec_observe env clock data m)"
| "spec_routes env (From_direct (Some data) clock werr # es) m =
     spec_routes env es (spec_observe env clock data m)"
| "spec_routes env (From_tun (Inr data) now # es) m =
     (data, spec_dest env m now data) # spec_routes env es m"
| "spec_routes env (_ # es) m = spec_routes env es m"

fun lookup_times :: "tun_event list \<Rightarrow> nat list" where
  "lookup_times [] = []"
| "lookup_times (From_tun _ now # es) = now # lookup_times es"
| "lookup_times (_ # es) = lookup_times es"

fun inbound :: "tun_event list \<Rightarrow> bytes list" where
  "inbound [] = []"
| "inbound (From_transport (Some data) clock werr # es) = data # inbound es"
| "inbound (From_direct (Some data) clock werr # es) = data # inbound es"
| "inbound (_ # es) = inbound es"

definition sent_to :: "destination \<Rightarrow> (bytes \<times> destination) list \<Rightarrow> bytes list" where
  "sent_to dest routes = map fst (filter (\<lambda>r. snd r = dest) routes)"

section \<open>The task meets the specification\<close>

text \<open>The rules see the domains of a packet as a set.\<close>

lemma matches_domain_set:
  "set ds = set ds' \<Longrightarrow> matches net r (with_domains ctx ds) g = matches net r (with_domains ctx ds') g"
  by (simp add: matches_iff matches_domain_def matches_domain_suffix_def matches_domain_keyword_def
      list_ex_iff with_domains_def)

lemma match_packet_domain_set:
  assumes "set ds = set ds'"
  shows "match_packet net engine (with_domains ctx ds) = match_packet net engine (with_domains ctx ds')"
proof -
  have "match_rules net g rs (with_domains ctx ds) = match_rules net g rs (with_domains ctx ds')" for g rs
    by (induction rs) (simp_all add: matches_domain_set [OF assms])
  then show ?thesis by (simp add: match_packet_def)
qed

lemma lookup_live_domains:
  assumes "cache_invar c" and "same_live t (cache_expiry c) m" and "t \<le> now"
  shows "set (fst (cache_lookup now ip c)) = set (live_domains m now ip)"
  using dc.lookup_same_live [OF assms, of ip] finite_set [of "fst (cache_lookup now ip c)"]
  by (simp add: live_domains_def)

text \<open>The packets a step adds to the two channels.\<close>

definition sent_if :: "destination \<Rightarrow> destination \<Rightarrow> bytes \<Rightarrow> bytes list" where
  "sent_if dest d packet = (if d = dest then [packet] else [])"

lemma sent_to_simps [simp]:
  "sent_to dest [] = []"
  "sent_to dest ((packet, d) # rs) = sent_if dest d packet @ sent_to dest rs"
  by (simp_all add: sent_to_def sent_if_def)

lemma route_meets_spec:
  assumes "cache_invar c" and "same_live t (cache_expiry c) m" and "t \<le> now"
    and "ch_receiver tt" and "ch_receiver dt"
  shows "\<exists>c'. handle_packet_route env now packet c tt dt =
      (Inr (), c',
       tt\<lparr>ch_queue := ch_queue tt @ sent_if To_tunnel (spec_dest env m now packet) packet\<rparr>,
       dt\<lparr>ch_queue := ch_queue dt @ sent_if To_direct (spec_dest env m now packet) packet\<rparr>)
    \<and> cache_invar c' \<and> same_live now (cache_expiry c') m"
proof (cases "from_ip_packet (env_slice env) packet")
  case None
  then show ?thesis
    using assms by (simp add: handle_packet_route_def spec_dest_def sent_if_def same_live_later)
next
  case (Some ctx)
  obtain ds c' where l: "cache_lookup now (pc_dst_ip ctx) c = (ds, c')"
    by (cases "cache_lookup now (pc_dst_ip ctx) c") auto
  have "set ds = set (live_domains m now (pc_dst_ip ctx))"
    using lookup_live_domains [OF assms(1-3), of "pc_dst_ip ctx"] l by simp
  note same = match_packet_domain_set [OF this, of "env_net env" "env_engine env" ctx]
  have "cache_invar c'" and "same_live now (cache_expiry c') m"
    using dc.invar_lookup [OF assms(1), of now "pc_dst_ip ctx"]
      dc.same_live_lookup [OF assms(1-3), of "pc_dst_ip ctx"] l by simp_all
  with Some l same assms(4,5) show ?thesis
    by (auto simp: handle_packet_route_def spec_dest_def sent_if_def split: rule_action.split)
qed

lemma same_live_answers:
  assumes "cache_invar c" and "same_live t (cache_expiry c) m"
  shows "same_live t (cache_expiry (observe_answers clock i answers c)) (spec_answers clock i answers m)"
  using assms
proof (induction clock i answers c arbitrary: m rule: observe_answers.induct)
  case (2 clock i answer answers cache)
  show ?case
  proof (cases "da_data answer")
    case (RData_A addr)
    then show ?thesis
      using "2.IH"(1) [OF RData_A cache_invar_insert [OF "2.prems"(1)]
          dc.same_live_insert [OF "2.prems"]] by simp
  next
    case RData_other
    with 2 show ?thesis by simp
  qed
qed simp

lemma same_live_observe:
  assumes "cache_invar c" and "same_live t (cache_expiry c) m"
  shows "same_live t (cache_expiry (observe_packet (env_slice env) (env_dns env) clock packet c))
    (spec_observe env clock packet m)"
  using assms same_live_answers
  by (auto simp: observe_packet_def spec_observe_def split: option.split sum.split)

text \<open>An event that gives the task no reason to stop.\<close>

fun event_ok :: "tun_event \<Rightarrow> bool" where
  "event_ok (From_transport data clock werr) = (data \<noteq> None \<and> werr = None)"
| "event_ok (From_direct data clock werr) = (data \<noteq> None \<and> werr = None)"
| "event_ok (From_tun res now) = is_ok res"

text \<open>
  What holds between two rounds of the loop: both channels are open and the cache makes the
  same domains live as the expiry map.
\<close>

definition io_ok :: "nat \<Rightarrow> (ipv4addr \<Rightarrow> string \<Rightarrow> nat option) \<Rightarrow> tun_io \<Rightarrow> bool" where
  "io_ok t m st \<longleftrightarrow>
     cache_invar (io_cache st) \<and> same_live t (cache_expiry (io_cache st)) m
     \<and> ch_receiver (io_tun_tx st) \<and> ch_receiver (io_direct_tx st)"

text \<open>What one event changes of the instant and the expiry map the specification starts from.\<close>

fun next_time :: "tun_event \<Rightarrow> nat \<Rightarrow> nat" where
  "next_time (From_tun _ now) t = now"
| "next_time _ t = t"

fun next_map :: "'n route_env \<Rightarrow> tun_event \<Rightarrow> (ipv4addr \<Rightarrow> string \<Rightarrow> nat option)
     \<Rightarrow> ipv4addr \<Rightarrow> string \<Rightarrow> nat option" where
  "next_map env (From_transport (Some data) clock werr) m = spec_observe env clock data m"
| "next_map env (From_direct (Some data) clock werr) m = spec_observe env clock data m"
| "next_map env _ m = m"

lemma spec_routes_Cons:
  "spec_routes env (e # es) m = spec_routes env [e] m @ spec_routes env es (next_map env e m)"
  by (cases "(env, e # es, m)" rule: spec_routes.cases) auto

lemma inbound_Cons: "inbound (e # es) = inbound [e] @ inbound es"
  by (cases "e # es" rule: inbound.cases) auto

lemma sent_to_append [simp]: "sent_to dest (rs @ rs') = sent_to dest rs @ sent_to dest rs'"
  by (simp add: sent_to_def)

text \<open>One round of the loop.\<close>

lemma step_meets_spec:
  assumes "io_ok t m st" and "event_ok e" and "\<forall>u \<in> set (lookup_times [e]). t \<le> u"
  shows "\<exists>c. tun_io_step env e st = (None,
      st\<lparr>io_cache := c,
         io_tun_tx := (io_tun_tx st)\<lparr>ch_queue := ch_queue (io_tun_tx st) @ sent_to To_tunnel (spec_routes env [e] m)\<rparr>,
         io_direct_tx := (io_direct_tx st)
           \<lparr>ch_queue := ch_queue (io_direct_tx st) @ sent_to To_direct (spec_routes env [e] m)\<rparr>,
         io_written := io_written st @ inbound [e]\<rparr>)
    \<and> cache_invar c \<and> same_live (next_time e t) (cache_expiry c) (next_map env e m)"
proof (cases e)
  case (From_transport data clock werr)
  with assms(2) obtain p where "data = Some p" and "werr = None" by auto
  with assms(1) From_transport show ?thesis by (auto simp: io_ok_def cache_invar_observe same_live_observe)
next
  case (From_direct data clock werr)
  with assms(2) obtain p where "data = Some p" and "werr = None" by auto
  with assms(1) From_direct show ?thesis by (auto simp: io_ok_def cache_invar_observe same_live_observe)
next
  case (From_tun res now)
  with assms(2) obtain p where p: "res = Inr p" by (auto simp: is_ok_iff)
  have "t \<le> now" using assms(3) From_tun by simp
  with route_meets_spec [of "io_cache st" t m now "io_tun_tx st" "io_direct_tx st" env p] assms(1)
  obtain c where "handle_packet_route env now p (io_cache st) (io_tun_tx st) (io_direct_tx st) =
      (Inr (), c,
       (io_tun_tx st)\<lparr>ch_queue := ch_queue (io_tun_tx st) @ sent_if To_tunnel (spec_dest env m now p) p\<rparr>,
       (io_direct_tx st)\<lparr>ch_queue := ch_queue (io_direct_tx st) @ sent_if To_direct (spec_dest env m now p) p\<rparr>)"
    and "cache_invar c" and "same_live now (cache_expiry c) m"
    unfolding io_ok_def by blast
  with p From_tun show ?thesis by auto
qed

lemma task_meets_spec:
  assumes "io_ok t m st" and "list_all event_ok events"
    and "sorted (lookup_times events)" and "\<forall>u \<in> set (lookup_times events). t \<le> u"
  shows "\<exists>st'. tun_io_task env events st = (None, st')
    \<and> ch_queue (io_tun_tx st') = ch_queue (io_tun_tx st) @ sent_to To_tunnel (spec_routes env events m)
    \<and> ch_queue (io_direct_tx st') = ch_queue (io_direct_tx st) @ sent_to To_direct (spec_routes env events m)
    \<and> io_written st' = io_written st @ inbound events"
  using assms
proof (induction events arbitrary: t m st)
  case (Cons e es)
  have now: "\<forall>u \<in> set (lookup_times [e]). t \<le> u" and later: "\<forall>u \<in> set (lookup_times es). next_time e t \<le> u"
    and "sorted (lookup_times es)"
    using Cons.prems(3,4) by (cases e; simp)+
  obtain c where step: "tun_io_step env e st = (None,
      st\<lparr>io_cache := c,
         io_tun_tx := (io_tun_tx st)\<lparr>ch_queue := ch_queue (io_tun_tx st) @ sent_to To_tunnel (spec_routes env [e] m)\<rparr>,
         io_direct_tx := (io_direct_tx st)
           \<lparr>ch_queue := ch_queue (io_direct_tx st) @ sent_to To_direct (spec_routes env [e] m)\<rparr>,
         io_written := io_written st @ inbound [e]\<rparr>)" (is "_ = (None, ?st)")
    and c: "cache_invar c" "same_live (next_time e t) (cache_expiry c) (next_map env e m)"
    using step_meets_spec [OF Cons.prems(1) _ now] Cons.prems(2) by force
  have "io_ok (next_time e t) (next_map env e m) ?st" using Cons.prems(1) c by (simp add: io_ok_def)
  from Cons.IH [OF this _ \<open>sorted (lookup_times es)\<close> later] Cons.prems(2) step show ?case
    by (simp add: spec_routes_Cons [of env e es] inbound_Cons [of e es])
qed simp

section \<open>Properties\<close>

text \<open>
  An example: packet \<open>[1]\<close> is a TCP segment to 8.8.8.8, packet \<open>[2]\<close> a DNS response that
  gives this address the name example.com for one minute, anything else is no IP packet.
\<close>

definition example_env :: "(ipv4addr \<times> nat) route_env" where
  "example_env =
     \<lparr>env_slice = (\<lambda>b.
        if b = [1] then Inr \<lparr>sl_net = Some (Ipv4Slice (Ipv4Addr 10 0 0 2) (Ipv4Addr 8 8 8 8)),
                             sl_transport = Some (TcpSlice 5000 443)\<rparr>
        else if b = [2] then Inr \<lparr>sl_net = Some (Ipv4Slice (Ipv4Addr 9 9 9 9) (Ipv4Addr 10 0 0 2)),
                                  sl_transport = Some (UdpSlice 53 5001 [])\<rparr>
        else Inl ''not an IP packet''),
      env_dns = (\<lambda>_. Inr \<lparr>dm_type = DnsResponse, dm_answers =
        [\<lparr>da_name = ''Example.com.'', da_ttl = 60, da_data = RData_A (Ipv4Addr 8 8 8 8)\<rparr>]\<rparr>),
      env_net = cidr_net,
      env_engine = \<lparr>re_rules = [rule_of K_domain ''example.com'' Reject, match_rule Direct],
                    re_geoip = without_database\<rparr>\<rparr>"

lemma example_env_simps:
  "from_ip_packet (env_slice example_env) [1] =
     Some (context_new (Ipv4Addr 10 0 0 2) (Ipv4Addr 8 8 8 8) (Some 5000) (Some 443) Tcp)"
  "from_ip_packet (env_slice example_env) [3] = None"
  "match_packet (env_net example_env) (env_engine example_env) (with_domains ctx ds) =
     (if ''example.com'' \<in> set ds then Reject else Direct)"
  "normalize_domain ''Example.com.'' = Some ''example.com''"
  "spec_observe example_env clock [2] m = (\<lambda>ip d.
     if ip = Ipv4Addr 8 8 8 8 \<and> d = ''example.com'' then Some (clock 0 + 60000000000) else m ip d)"
proof -
  show n: "normalize_domain ''Example.com.'' = Some ''example.com''"
    by (simp add: normalize_domain_def str_eval)
  show "spec_observe example_env clock [2] m = (\<lambda>ip d.
     if ip = Ipv4Addr 8 8 8 8 \<and> d = ''example.com'' then Some (clock 0 + 60000000000) else m ip d)"
    by (intro ext) (simp add: spec_observe_def example_env_def dns_response_payload_def n secs_def eq_commute)
  show "match_packet (env_net example_env) (env_engine example_env) (with_domains ctx ds) =
     (if ''example.com'' \<in> set ds then Reject else Direct)"
    by (auto simp: example_env_def match_packet_def matches_iff rule_of_def rule_new_def opt_all_def
        match_rule_matches matches_domain_def list_ex_iff with_domains_def match_rule_def)
qed (simp_all add: example_env_def from_ip_packet_def)

text \<open>C7: Over any run of the task in which nothing fails, every packet read from the device goes
  to exactly the place the rules choose for it: the tunnel and the direct proxy each receive
  their packets in the order they were read, rejected packets appear nowhere, and packets from
  the other side are written to the device in order.  The domains the rules see are those whose
  DNS lifetime has not run out, although the cache drops entries as it goes.\<close>

theorem tun_io_routes:
  assumes "ch_receiver tun_tx" and "ch_receiver direct_tx"
    and "list_all event_ok events" and "sorted (lookup_times events)"
  shows "\<exists>st. tun_io_task env events (tun_io_start tun_tx direct_tx) = (None, st)
    \<and> ch_queue (io_tun_tx st) =
        ch_queue tun_tx @ sent_to To_tunnel (spec_routes env events (\<lambda>_ _. None))
    \<and> ch_queue (io_direct_tx st) =
        ch_queue direct_tx @ sent_to To_direct (spec_routes env events (\<lambda>_ _. None))
    \<and> io_written st = inbound events"
proof -
  have "io_ok 0 (\<lambda>_ _. None) (tun_io_start tun_tx direct_tx)"
    using assms(1,2) dc.invar_empty
    by (simp add: io_ok_def tun_io_start_def dc.expiry_empty same_live_def)
  from task_meets_spec [OF this assms(3,4), of env] show ?thesis by (simp add: tun_io_start_def)
qed

theorem tun_io_routes_witness:
  "\<exists>st. tun_io_task example_env
      [From_tun (Inr [1]) 0, From_transport (Some [2]) (\<lambda>_. 10) None, From_tun (Inr [3]) 15,
       From_tun (Inr [1]) 20, From_tun (Inr [1]) 60000000010]
      (tun_io_start chan_new chan_new) = (None, st)
    \<and> ch_queue (io_tun_tx st) = [[3]] \<and> ch_queue (io_direct_tx st) = [[1], [1]]
    \<and> io_written st = [[2]]"
  using tun_io_routes [of chan_new chan_new "[From_tun (Inr [1]) 0,
      From_transport (Some [2]) (\<lambda>_. 10) None, From_tun (Inr [3]) 15,
      From_tun (Inr [1]) 20, From_tun (Inr [1]) 60000000010]" example_env]
  by (simp add: chan_new_def spec_dest_def example_env_simps sent_if_def live_domains_def
      context_new_def)

end
