(* ===== verification/Codec.thy ===== *)
theory Codec
  imports Prelude
begin

text \<open>
  Framing of messages: \<open>codec/codec.rs\<close> and the message types of \<open>proto/message.proto\<close>.  The
  protobuf coding of one message is generated code and a parameter; the length prefix, the
  decoder's two states and its limits are the code's own.  The decoder is driven as
  \<open>Framed\<close> drives it: it is called until it wants more bytes or fails.
\<close>

unbundle bit_operations_syntax

section \<open>Messages (message.proto, constructors of codec.rs)\<close>

record tun_config =
  tcf_name :: string
  tcf_address :: string
  tcf_netmask :: string
  tcf_destination :: string
  tcf_dns :: "string list"
  tcf_mtu :: u32

record handshake =
  hs_token :: string
  hs_session_id :: string
  hs_tun_config :: "tun_config option"

datatype msg =
  Handshake handshake
| Data bytes
| Keepalive "64 word"
| Disconnect string

text \<open>A received message may carry no variant of the \<open>oneof\<close>.\<close>

type_synonym message = "msg option"

definition message_handshake :: "handshake \<Rightarrow> message" where
  "message_handshake h = Some (Handshake h)"

definition message_data :: "bytes \<Rightarrow> message" where
  "message_data p = Some (Data p)"

definition message_keepalive :: "64 word \<Rightarrow> message" where
  "message_keepalive t = Some (Keepalive t)"

text \<open>The generated protobuf coding.\<close>

record prost =
  encode_to_vec :: "message \<Rightarrow> bytes"
  prost_decode :: "bytes \<Rightarrow> string + message"

section \<open>The codec\<close>

definition HEADER_SIZE :: nat where
  "HEADER_SIZE = 4"

definition DEFAULT_MAX_FRAME_SIZE :: nat where
  "DEFAULT_MAX_FRAME_SIZE = 1024 * 1024"

datatype decode_state = Head | Body nat

definition default_decode_state :: decode_state where
  "default_decode_state = Head"

record byte_codec =
  bc_state :: decode_state
  bc_max_frame_size :: nat

definition default_byte_codec :: byte_codec where
  "default_byte_codec = \<lparr>bc_state = Head, bc_max_frame_size = DEFAULT_MAX_FRAME_SIZE\<rparr>"

definition byte_codec_new :: byte_codec where
  "byte_codec_new = default_byte_codec"

definition with_max_frame_size :: "nat \<Rightarrow> byte_codec" where
  "with_max_frame_size n = \<lparr>bc_state = Head, bc_max_frame_size = n\<rparr>"

text \<open>The errors of \<open>io::Error\<close> that the program tells apart.\<close>

datatype io_error = InvalidData string | IoFailure string

definition frame_size_error :: "nat \<Rightarrow> nat \<Rightarrow> io_error" where
  "frame_size_error required mx =
     InvalidData (''Frame size '' @ dec_of_nat required @ '' exceeds maximum '' @ dec_of_nat mx)"

definition data_length_error :: "nat \<Rightarrow> nat \<Rightarrow> io_error" where
  "data_length_error n mx =
     InvalidData (''Data length '' @ dec_of_nat n @ '' exceeds maximum '' @ dec_of_nat mx)"

text \<open>\<open>BufMut::put_u32_le\<close> and \<open>Buf::get_u32_le\<close>; the latter is called with four bytes at hand.\<close>

definition u32_le :: "u32 \<Rightarrow> bytes" where
  "u32_le w = [ucast w, ucast (drop_bit 8 w), ucast (drop_bit 16 w), ucast (drop_bit 24 w)]"

fun get_u32_le :: "bytes \<Rightarrow> u32 \<times> bytes" where
  "get_u32_le (b0 # b1 # b2 # b3 # rest) =
     (ucast b0 OR push_bit 8 (ucast b1) OR push_bit 16 (ucast b2) OR push_bit 24 (ucast b3), rest)"
| "get_u32_le short = (0, short)"

definition encode :: "prost \<Rightarrow> byte_codec \<Rightarrow> message \<Rightarrow> bytes \<Rightarrow> (io_error + unit) \<times> bytes" where
  "encode pb codec item dst =
     (let body = encode_to_vec pb item;
          required = HEADER_SIZE + length body
      in if required > bc_max_frame_size codec
         then (Inl (frame_size_error required (bc_max_frame_size codec)), dst)
         else (Inr (), dst @ u32_le (of_nat (length body)) @ body))"

function decode ::
  "prost \<Rightarrow> byte_codec \<Rightarrow> bytes \<Rightarrow> (io_error + message option) \<times> byte_codec \<times> bytes" where
  "decode pb codec src =
     (case bc_state codec of
        Head \<Rightarrow>
          if length src < HEADER_SIZE then (Inr None, codec, src)
          else
            (let (len, src) = get_u32_le src;
                 data_len = unat len
             in if data_len > bc_max_frame_size codec
                then (Inl (data_length_error data_len (bc_max_frame_size codec)), codec, src)
                else decode pb (codec\<lparr>bc_state := Body data_len\<rparr>) src)
      | Body data_len \<Rightarrow>
          if length src < data_len then (Inr None, codec, src)
          else
            (let data = take data_len src;
                 src = drop data_len src;
                 codec = codec\<lparr>bc_state := Head\<rparr>
             in (case prost_decode pb data of
                   Inr m \<Rightarrow> Inr (Some m)
                 | Inl e \<Rightarrow> Inl (InvalidData e), codec, src)))"
  by pat_completeness auto
termination
  by (relation "measure (\<lambda>(pb, codec, src). case bc_state codec of Head \<Rightarrow> 1 | Body _ \<Rightarrow> 0)") auto

declare decode.simps [simp del]

lemma decode_Body:
  assumes "bc_state codec = Body n"
  shows "decode pb codec src =
    (if length src < n then (Inr None, codec, src)
     else (case prost_decode pb (take n src) of Inr m \<Rightarrow> Inr (Some m) | Inl e \<Rightarrow> Inl (InvalidData e),
           codec\<lparr>bc_state := Head\<rparr>, drop n src))"
  using assms by (subst decode.simps) (simp add: Let_def)

lemma decode_Head:
  assumes "bc_state codec = Head"
  shows "decode pb codec src =
    (if length src < 4 then (Inr None, codec, src)
     else (let n = unat (fst (get_u32_le src)); rest = drop 4 src
           in if n > bc_max_frame_size codec
              then (Inl (data_length_error n (bc_max_frame_size codec)), codec, rest)
              else decode pb (codec\<lparr>bc_state := Body n\<rparr>) rest))"
proof (cases "length src < 4")
  case True
  with assms show ?thesis by (subst decode.simps) (simp add: HEADER_SIZE_def)
next
  case False
  then obtain b0 b1 b2 b3 rest where "src = b0 # b1 # b2 # b3 # rest"
    by (cases src rule: get_u32_le.cases) auto
  with assms show ?thesis by (subst decode.simps) (simp add: HEADER_SIZE_def Let_def)
qed

lemma get_u32_le_append: "4 \<le> length src \<Longrightarrow> fst (get_u32_le (src @ ys)) = fst (get_u32_le src)"
  by (cases src rule: get_u32_le.cases) auto

lemma get_u32_le_u32_le [simp]: "get_u32_le (u32_le w @ rest) = (w, rest)"
proof -
  have "ucast (ucast w :: u8) OR push_bit 8 (ucast (ucast (drop_bit 8 w) :: u8))
      OR push_bit 16 (ucast (ucast (drop_bit 16 w) :: u8))
      OR push_bit 24 (ucast (ucast (drop_bit 24 w) :: u8)) = w"
      (is "?v = w")
  proof (rule bit_word_eqI)
    fix n
    assume "n < LENGTH(32)"
    consider "n < 8" | "8 \<le> n" "n < 16" | "16 \<le> n" "n < 24" | "24 \<le> n" by linarith
    then show "bit ?v n = bit w n"
      using \<open>n < LENGTH(32)\<close> by cases (auto simp: bit_simps)
  qed
  then show ?thesis by (simp add: u32_le_def)
qed

lemma length_u32_le [simp]: "length (u32_le w) = 4"
  by (simp add: u32_le_def)

section \<open>Reading a stream\<close>

text \<open>One pass over the bytes at hand: the decoder is called until it wants more or fails.\<close>

definition pending :: "byte_codec \<Rightarrow> bytes \<Rightarrow> nat" where
  "pending codec src = 2 * length src + (case bc_state codec of Head \<Rightarrow> 0 | Body _ \<Rightarrow> 1)"

lemma decode_item_less:
  assumes "decode pb codec src = (Inr (Some m), codec', rest)"
  shows "pending codec' rest < pending codec src"
proof (cases "bc_state codec")
  case Head
  then show ?thesis
    using assms
    by (auto simp: decode_Head decode_Body pending_def Let_def split: if_splits sum.splits)
next
  case (Body n)
  then show ?thesis using assms by (auto simp: decode_Body pending_def split: if_splits sum.splits)
qed

function drain ::
  "prost \<Rightarrow> byte_codec \<Rightarrow> bytes \<Rightarrow> message list \<times> io_error option \<times> byte_codec \<times> bytes" where
  "drain pb codec src =
     (case decode pb codec src of
        (Inl e, codec, src) \<Rightarrow> ([], Some e, codec, src)
      | (Inr None, codec, src) \<Rightarrow> ([], None, codec, src)
      | (Inr (Some m), codec, src) \<Rightarrow>
          (let (ms, e, codec, src) = drain pb codec src in (m # ms, e, codec, src)))"
  by pat_completeness auto
termination
  by (relation "measure (\<lambda>(pb, codec, src). pending codec src)")
    (auto dest: decode_item_less [OF sym])

declare drain.simps [simp del]

lemma drain_item:
  assumes "decode pb codec src = (Inr (Some m), codec', rest)"
  shows "drain pb codec src =
    (case drain pb codec' rest of (ms, e, codec'', rest') \<Rightarrow> (m # ms, e, codec'', rest'))"
  using assms by (simp add: drain.simps [of pb codec src])

text \<open>
  The contract of a decoder that is fed a stream piece by piece: bytes that have not arrived
  change neither an item nor an error, and a decoder that waits resumes where it stopped.
\<close>

locale streaming_decoder =
  fixes step :: "'s \<Rightarrow> 'b list \<Rightarrow> ('e + 'm option) \<times> 's \<times> 'b list"
    and todo :: "'s \<Rightarrow> 'b list \<Rightarrow> nat"
    and run :: "'s \<Rightarrow> 'b list \<Rightarrow> 'm list \<times> 'e option \<times> 's \<times> 'b list"
  assumes step_wait: "step s b = (Inr None, s', r) \<Longrightarrow> step s (b @ ys) = step s' (r @ ys)"
    and step_item: "step s b = (Inr (Some m), s', r) \<Longrightarrow> step s (b @ ys) = (Inr (Some m), s', r @ ys)"
    and step_fail: "step s b = (Inl e, s', r) \<Longrightarrow> step s (b @ ys) = (Inl e, s', r @ ys)"
    and item_less: "step s b = (Inr (Some m), s', r) \<Longrightarrow> todo s' r < todo s b"
    and run_step: "run s b =
      (case step s b of
         (Inl e, s', r) \<Rightarrow> ([], Some e, s', r)
       | (Inr None, s', r) \<Rightarrow> ([], None, s', r)
       | (Inr (Some m), s', r) \<Rightarrow> (let (ms, e, s'', r') = run s' r in (m # ms, e, s'', r')))"
begin

lemma run_append:
  "run s (b @ ys) =
     (case run s b of
        (ms, Some e, s', r) \<Rightarrow> (ms, Some e, s', r @ ys)
      | (ms, None, s', r) \<Rightarrow>
          (case run s' (r @ ys) of (ms', e, s'', r') \<Rightarrow> (ms @ ms', e, s'', r')))"
proof (induction "todo s b" arbitrary: s b rule: less_induct)
  case less
  obtain res s' r where st: "step s b = (res, s', r)" by (cases "step s b") auto
  show ?case
  proof (cases res)
    case (Inl e)
    with st step_fail [of s b e s' r ys] show ?thesis by (simp add: run_step [of s])
  next
    case (Inr x)
    show ?thesis
    proof (cases x)
      case None
      with Inr st step_wait [of s b s' r ys] have "step s (b @ ys) = step s' (r @ ys)" by simp
      then have "run s (b @ ys) = run s' (r @ ys)"
        by (simp add: run_step [of s "b @ ys"] run_step [of s' "r @ ys"])
      moreover have "run s b = ([], None, s', r)"
        using st Inr None by (simp add: run_step [of s b])
      ultimately show ?thesis by (simp split: prod.split)
    next
      case (Some m)
      with Inr st have item: "step s b = (Inr (Some m), s', r)" by simp
      note IH = less [OF item_less [OF item]]
      show ?thesis
        using IH item step_item [OF item, of ys]
        by (simp add: run_step [of s] Let_def split: prod.split option.split)
    qed
  qed
qed

end

lemma decode_extend_Body:
  assumes "bc_state codec = Body n" and "decode pb codec src = (res, codec', rest)"
  shows "decode pb codec (src @ ys) =
    (if res = Inr None then decode pb codec' (rest @ ys) else (res, codec', rest @ ys))"
proof (cases "length src < n")
  case True
  with assms show ?thesis by (simp add: decode_Body [OF assms(1)])
next
  case False
  then have "res \<noteq> Inr None" using assms(2) by (auto simp: decode_Body [OF assms(1)] split: sum.splits)
  with False assms(2) show ?thesis by (auto simp: decode_Body [OF assms(1)])
qed

lemma decode_extend:
  assumes "decode pb codec src = (res, codec', rest)"
  shows "decode pb codec (src @ ys) =
    (if res = Inr None then decode pb codec' (rest @ ys) else (res, codec', rest @ ys))"
proof (cases "bc_state codec")
  case Head
  let ?n = "unat (fst (get_u32_le src))"
  show ?thesis
  proof (cases "length src < 4")
    case True
    then have "(res, codec', rest) = (Inr None, codec, src)"
      using assms by (simp add: decode_Head [OF Head])
    then show ?thesis by simp
  next
    case False
    then have len: "fst (get_u32_le (src @ ys)) = fst (get_u32_le src)"
      by (simp add: get_u32_le_append)
    show ?thesis
    proof (cases "?n > bc_max_frame_size codec")
      case True
      have "(res, codec', rest) =
          (Inl (data_length_error ?n (bc_max_frame_size codec)), codec, drop 4 src)"
        using False True assms by (auto simp: decode_Head [OF Head] Let_def)
      then show ?thesis
        using False True len by (simp add: decode_Head [OF Head, of pb "src @ ys"] Let_def)
    next
      case fits: False
      then have "decode pb (codec\<lparr>bc_state := Body ?n\<rparr>) (drop 4 src) = (res, codec', rest)"
        using False assms by (simp add: decode_Head [OF Head] Let_def)
      from decode_extend_Body [OF _ this, of ?n ys] show ?thesis
        using False fits len by (simp add: decode_Head [OF Head, of pb "src @ ys"] Let_def)
    qed
  qed
next
  case (Body n)
  then show ?thesis using decode_extend_Body assms by blast
qed

interpretation bc: streaming_decoder "decode pb" pending "drain pb"
  for pb :: prost
proof
  fix codec src ys codec' rest
  show "decode pb codec (src @ ys) = decode pb codec' (rest @ ys)"
    if "decode pb codec src = (Inr None, codec', rest)" using decode_extend [OF that] by simp
next
  fix codec src ys codec' rest m
  show "decode pb codec (src @ ys) = (Inr (Some m), codec', rest @ ys)"
    if "decode pb codec src = (Inr (Some m), codec', rest)" using decode_extend [OF that] by simp
next
  fix codec src ys codec' rest e
  show "decode pb codec (src @ ys) = (Inl e, codec', rest @ ys)"
    if "decode pb codec src = (Inl e, codec', rest)" using decode_extend [OF that] by simp
next
  fix codec src codec' rest m
  show "pending codec' rest < pending codec src"
    if "decode pb codec src = (Inr (Some m), codec', rest)" using decode_item_less [OF that] .
next
  fix codec src
  show "drain pb codec src =
    (case decode pb codec src of
       (Inl e, codec', rest) \<Rightarrow> ([], Some e, codec', rest)
     | (Inr None, codec', rest) \<Rightarrow> ([], None, codec', rest)
     | (Inr (Some m), codec', rest) \<Rightarrow>
         (let (ms, e, codec'', rest') = drain pb codec' rest in (m # ms, e, codec'', rest')))"
    by (rule drain.simps)
qed

text \<open>A connection: the bytes arrive in pieces, each pass leaves what it could not use.\<close>

fun feed ::
  "prost \<Rightarrow> message list \<times> io_error option \<times> byte_codec \<times> bytes \<Rightarrow> bytes
     \<Rightarrow> message list \<times> io_error option \<times> byte_codec \<times> bytes" where
  "feed pb (ms, Some e, codec, buffer) piece = (ms, Some e, codec, buffer @ piece)"
| "feed pb (ms, None, codec, buffer) piece =
     (case drain pb codec (buffer @ piece) of
        (new, e, codec', rest) \<Rightarrow> (ms @ new, e, codec', rest))"

definition receive ::
  "prost \<Rightarrow> byte_codec \<Rightarrow> bytes list \<Rightarrow> message list \<times> io_error option \<times> byte_codec \<times> bytes" where
  "receive pb codec pieces = foldl (feed pb) (drain pb codec []) pieces"

lemma feed_drain: "feed pb (drain pb codec src) piece = drain pb codec (src @ piece)"
  using bc.run_append [of pb codec src piece]
  by (auto split: prod.splits option.splits)

lemma receive_concat: "receive pb codec pieces = drain pb codec (concat pieces)"
proof -
  have "foldl (feed pb) (drain pb codec src) pieces = drain pb codec (src @ concat pieces)" for src
    by (induction pieces arbitrary: src) (auto simp: feed_drain)
  from this [of "[]"] show ?thesis by (simp add: receive_def)
qed

text \<open>The sending side of a connection: messages are encoded one after the other.\<close>

fun encode_all :: "prost \<Rightarrow> byte_codec \<Rightarrow> message list \<Rightarrow> bytes \<Rightarrow> (io_error + unit) \<times> bytes" where
  "encode_all pb codec [] dst = (Inr (), dst)"
| "encode_all pb codec (m # ms) dst =
     (case encode pb codec m dst of
        (Inl e, dst) \<Rightarrow> (Inl e, dst)
      | (Inr _, dst) \<Rightarrow> encode_all pb codec ms dst)"

lemma encode_cases:
  "encode pb codec m dst =
     (if 4 + length (encode_to_vec pb m) > bc_max_frame_size codec
      then (Inl (frame_size_error (4 + length (encode_to_vec pb m)) (bc_max_frame_size codec)), dst)
      else (Inr (), dst @ u32_le (of_nat (length (encode_to_vec pb m))) @ encode_to_vec pb m))"
  by (simp add: encode_def HEADER_SIZE_def Let_def)

lemma length_as_u32: "n < 2 ^ 32 \<Longrightarrow> unat (of_nat n :: u32) = n"
  by (simp add: unsigned_of_nat take_bit_eq_mod)

text \<open>Two ends with the same limit: the frame of a message is read back in one call.\<close>

definition faithful :: "prost \<Rightarrow> message \<Rightarrow> bool" where
  "faithful pb m \<longleftrightarrow> prost_decode pb (encode_to_vec pb m) = Inr m"

lemma decode_frame:
  assumes "faithful pb m" and "bc_state codec = Head"
    and "length (encode_to_vec pb m) \<le> bc_max_frame_size codec" and "bc_max_frame_size codec < 2 ^ 32"
  shows "decode pb codec (u32_le (of_nat (length (encode_to_vec pb m))) @ encode_to_vec pb m @ rest)
    = (Inr (Some m), codec, rest)"
proof -
  let ?body = "encode_to_vec pb m"
  have "unat (of_nat (length ?body) :: u32) = length ?body"
    using assms(3,4) by (intro length_as_u32) simp
  moreover have "drop 4 (u32_le w @ ys) = ys" for w ys by simp
  moreover have "codec\<lparr>bc_state := Head\<rparr> = codec" using assms(2) by simp
  ultimately show ?thesis
    using assms by (simp add: decode_Head Let_def decode_Body faithful_def)
qed

lemma drain_frames:
  assumes "\<forall>m \<in> set ms. faithful pb m" and "bc_state codec = Head"
    and "bc_max_frame_size codec < 2 ^ 32"
    and "encode_all pb codec ms dst = (Inr (), out)"
  shows "\<exists>frames. out = dst @ frames \<and> drain pb codec frames = (ms, None, codec, [])"
  using assms(1,4)
proof (induction ms arbitrary: dst)
  case Nil
  then show ?case using assms(2) by (simp add: drain.simps [of pb codec "[]"] decode_Head)
next
  case (Cons m ms)
  let ?frame = "u32_le (of_nat (length (encode_to_vec pb m))) @ encode_to_vec pb m"
  have fits: "4 + length (encode_to_vec pb m) \<le> bc_max_frame_size codec"
    and rest: "encode_all pb codec ms (dst @ ?frame) = (Inr (), out)"
    using Cons.prems(2) by (auto simp: encode_cases split: if_splits)
  have "\<forall>m \<in> set ms. faithful pb m" using Cons.prems(1) by simp
  from Cons.IH [OF this rest] obtain frames where "out = (dst @ ?frame) @ frames"
    and "drain pb codec frames = (ms, None, codec, [])" by blast
  moreover have "decode pb codec (?frame @ frames) = (Inr (Some m), codec, frames)"
    using decode_frame [of pb m codec frames] Cons.prems(1) assms(2,3) fits by simp
  note drain_item [OF this]
  ultimately show ?case by (intro exI [of _ "?frame @ frames"]) simp
qed

text \<open>What a decoder between two calls satisfies.\<close>

definition codec_ok :: "byte_codec \<Rightarrow> bool" where
  "codec_ok codec \<longleftrightarrow>
     (case bc_state codec of Head \<Rightarrow> True | Body n \<Rightarrow> n \<le> bc_max_frame_size codec)"

lemma decode_codec_ok:
  assumes "codec_ok codec" and "decode pb codec src = (res, codec', rest)"
  shows "codec_ok codec' \<and> bc_max_frame_size codec' = bc_max_frame_size codec
    \<and> (res = Inr None \<longrightarrow> length rest < max 4 (bc_max_frame_size codec))"
proof (cases "bc_state codec")
  case Head
  then show ?thesis
    using assms(2)
    by (auto simp: decode_Head decode_Body Let_def codec_ok_def split: if_splits sum.splits)
next
  case (Body n)
  then show ?thesis
    using assms by (auto simp: decode_Body codec_ok_def split: if_splits sum.splits)
qed

lemma drain_codec_ok:
  assumes "codec_ok codec" and "drain pb codec src = (ms, e, codec', rest)"
  shows "codec_ok codec' \<and> bc_max_frame_size codec' = bc_max_frame_size codec
    \<and> (e = None \<longrightarrow> length rest < max 4 (bc_max_frame_size codec))"
  using assms
proof (induction pb codec src arbitrary: ms rule: drain.induct)
  case (1 pb codec src)
  obtain res codec1 src1 where d: "decode pb codec src = (res, codec1, src1)"
    by (cases "decode pb codec src") auto
  note ok = decode_codec_ok [OF "1.prems"(1) d]
  show ?case
  proof (cases "\<exists>m. res = Inr (Some m)")
    case True
    then obtain m where m: "res = Inr (Some m)" by blast
    with d "1.prems"(2) obtain ms' where "drain pb codec1 src1 = (ms', e, codec', rest)"
      by (auto simp: drain.simps [of pb codec src] split: prod.splits)
    with "1.IH" [OF d [symmetric] m refl refl, of ms'] ok show ?thesis by auto
  next
    case False
    with d "1.prems"(2) ok show ?thesis
      by (auto simp: drain.simps [of pb codec src] split: sum.splits option.splits)
  qed
qed

section \<open>Properties\<close>

text \<open>A protobuf coding of data messages only, used to evaluate the codec on examples.\<close>

definition data_prost :: prost where
  "data_prost =
     \<lparr>encode_to_vec = (\<lambda>m. case m of Some (Data p) \<Rightarrow> p | _ \<Rightarrow> []),
      prost_decode = (\<lambda>b. Inr (message_data b))\<rparr>"

text \<open>C5: What one end encodes, the other end decodes: however the transport cuts the bytes into
  pieces, exactly the messages sent come out, in order, no error is raised and nothing is left
  over.\<close>

theorem stream_roundtrip:
  assumes "encode_all pb byte_codec_new ms [] = (Inr (), stream)"
    and "\<forall>m \<in> set ms. prost_decode pb (encode_to_vec pb m) = Inr m"
    and "concat pieces = stream"
  shows "receive pb byte_codec_new pieces = (ms, None, byte_codec_new, [])"
  using drain_frames [of ms pb byte_codec_new "[]" stream] assms
  by (simp add: receive_concat faithful_def byte_codec_new_def default_byte_codec_def
      DEFAULT_MAX_FRAME_SIZE_def)

theorem stream_roundtrip_witness:
  "receive data_prost byte_codec_new [[2, 0, 0], [0, 7], [8, 1, 0, 0, 0, 9]]
     = ([message_data [7, 8], message_data [9]], None, byte_codec_new, [])"
proof (rule stream_roundtrip)
  show "encode_all data_prost byte_codec_new [message_data [7, 8], message_data [9]] [] =
      (Inr (), [2, 0, 0, 0, 7, 8, 1, 0, 0, 0, 9])"
    by (simp add: encode_cases data_prost_def message_data_def byte_codec_new_def u32_le_def
        default_byte_codec_def DEFAULT_MAX_FRAME_SIZE_def)
qed (simp_all add: data_prost_def message_data_def)

text \<open>C24: Reading a stream piece by piece gives the same messages, the same error, the same
  decoder state and the same left-over bytes as reading it at once, for any bytes at all.\<close>

theorem receive_chunking:
  "receive pb codec pieces = receive pb codec [concat pieces]"
  by (simp add: receive_concat)

text \<open>C29: As long as no frame is refused, the decoder's state stays within the frame limit, and
  between two reads it holds back fewer bytes than the limit or, where the limit is below the
  four bytes of a header, than those four: a peer cannot make the buffer grow without bound.\<close>

theorem receive_bounded:
  assumes "receive pb (with_max_frame_size n) pieces = (ms, None, codec, buffer)"
  shows "codec_ok codec \<and> bc_max_frame_size codec = n \<and> length buffer < max 4 n"
  using drain_codec_ok [of "with_max_frame_size n" pb "concat pieces" ms None codec buffer] assms
  by (simp add: receive_concat with_max_frame_size_def codec_ok_def)

theorem receive_bounded_witness:
  "codec_ok \<lparr>bc_state = Body 3, bc_max_frame_size = 16\<rparr> \<and> length [7 :: u8] < max 4 16"
proof -
  have "receive data_prost (with_max_frame_size 16) [[3, 0, 0, 0, 7]] =
      ([], None, \<lparr>bc_state = Body 3, bc_max_frame_size = 16\<rparr>, [7])"
    by (simp add: receive_concat drain.simps decode_Head decode_Body with_max_frame_size_def)
  from receive_bounded [OF this] show ?thesis by simp
qed

text \<open>A frame whose announced length is over the limit is refused on its header, before any
  of its body is awaited, and the four header bytes are all that is consumed.\<close>

lemma oversize_refused:
  assumes "bc_state codec = Head" and "bc_max_frame_size codec < unat len"
  shows "decode pb codec (u32_le len @ rest) =
    (Inl (data_length_error (unat len) (bc_max_frame_size codec)), codec, rest)"
  using assms by (simp add: decode_Head Let_def)

lemma oversize_refused_example:
  "decode data_prost (with_max_frame_size 16) (u32_le 17 @ []) =
    (Inl (data_length_error 17 16), with_max_frame_size 16, [])"
  using oversize_refused [of "with_max_frame_size 16" 17 data_prost "[]"]
  by (simp add: with_max_frame_size_def)

text \<open>C31: Encoding either appends one whole frame that a decoder with the same limit reads back,
  or fails and leaves the output as it was; it fails exactly when header and body together
  exceed the limit.\<close>

theorem encode_all_or_nothing:
  assumes "bc_state codec = Head" and "bc_max_frame_size codec < 2 ^ 32"
    and "prost_decode pb (encode_to_vec pb m) = Inr m"
    and "encode pb codec m dst = (res, out)"
  shows "if HEADER_SIZE + length (encode_to_vec pb m) \<le> bc_max_frame_size codec
    then res = Inr () \<and> (\<exists>frame. out = dst @ frame
      \<and> length frame = HEADER_SIZE + length (encode_to_vec pb m)
      \<and> decode pb codec frame = (Inr (Some m), codec, []))
    else \<not> is_ok res \<and> out = dst"
  using assms decode_frame [of pb m codec "[]"]
  by (auto simp: encode_cases HEADER_SIZE_def faithful_def)

theorem encode_all_or_nothing_witness:
  "encode data_prost (with_max_frame_size 5) (message_data [1, 2]) [9] =
     (Inl (frame_size_error 6 5), [9]) \<and> \<not> is_ok (Inl (frame_size_error 6 5) :: io_error + unit)"
proof -
  have "encode data_prost (with_max_frame_size 5) (message_data [1, 2]) [9] =
     (Inl (frame_size_error 6 5), [9])"
    by (simp add: encode_cases data_prost_def message_data_def with_max_frame_size_def)
  with encode_all_or_nothing [OF _ _ _ this] show ?thesis
    by (simp add: data_prost_def message_data_def with_max_frame_size_def HEADER_SIZE_def)
qed

end
