(* ===== verification/Transport_Trait.thy ===== *)
theory Transport_Trait
  imports Codec Net_Addr
begin

text \<open>
  The interface all transports implement: \<open>transport/transport.rs\<close>.  A transport is a pair of
  operations on a state; \<open>next\<close> gives \<open>None\<close> at the end of the stream.  The contract the
  handlers rely on speaks of the messages a transport has put on the wire.
\<close>

section \<open>The trait (transport.rs)\<close>

record 't transport_trait =
  tr_send :: "message \<Rightarrow> sockaddr \<Rightarrow> 't \<Rightarrow> (io_error + unit) \<times> 't"
  tr_next :: "'t \<Rightarrow> (io_error + message \<times> sockaddr) option \<times> 't"

section \<open>The contract of a transport\<close>

text \<open>
  \<open>wire t\<close> is what was put on the wire so far; \<open>frame t m a\<close> is what a message for the address
  \<open>a\<close> looks like there: a connection sends everything to its peer, a socket to the address.
\<close>

locale transport =
  fixes tr :: "'t transport_trait"
    and wire :: "'t \<Rightarrow> 'w list"
    and frame :: "'t \<Rightarrow> message \<Rightarrow> sockaddr \<Rightarrow> 'w"
  assumes send_ok: "tr_send tr m a t = (Inr (), t') \<Longrightarrow> wire t' = wire t @ [frame t m a]"
    and send_fail: "tr_send tr m a t = (Inl e, t') \<Longrightarrow> wire t' = wire t"
    and send_frame: "frame (snd (tr_send tr m a t)) = frame t"
    and next_wire: "wire (snd (tr_next tr t)) = wire t"
    and next_frame: "frame (snd (tr_next tr t)) = frame t"
begin

lemma send_wire:
  "wire (snd (tr_send tr m a t)) =
     (if is_ok (fst (tr_send tr m a t)) then wire t @ [frame t m a] else wire t)"
  by (cases "tr_send tr m a t"; cases "fst (tr_send tr m a t)") (auto simp: send_ok send_fail)

end

end
