(* ===== verification/Server.thy ===== *)
theory Server
  imports Transport_Trait Config Channel "HOL-Library.AList" "HOL-Library.Multiset"
begin

text \<open>
  The server's sessions and message handlers: \<open>server.rs\<close>.  The session map is an association
  list in the map's iteration order; the order of a hash map is unspecified, so the step
  relation below may rearrange the list at any time.  A handshake holds no lock while its reply
  is sent, so it is modelled as two steps with other handlers possibly running in between.
  Session ids from \<open>nanoid\<close>, readings of the clock and the configuration that
  \<open>ServerConfig::load\<close> returns are arguments.
\<close>

section \<open>State (server.rs)\<close>

record client =
  cl_addr :: sockaddr
  cl_virtual_ip :: ipv4addr
  cl_tx :: nat
  cl_tun_config :: tun_config
  cl_last_seen :: nat

text \<open>
  The sender of a client's channel is a number; \<open>sv_chans\<close> are the channels these numbers name.
\<close>

record server_state =
  sv_next_client_id :: u32
  sv_sessions :: "(string \<times> client) list"
  sv_chans :: "nat \<Rightarrow> bytes chan"

definition server_start :: server_state where
  "server_start = \<lparr>sv_next_client_id = 2, sv_sessions = [], sv_chans = (\<lambda>_. chan_new)\<rparr>"

section \<open>Handlers (server.rs)\<close>

definition validate_token :: "string \<Rightarrow> string \<Rightarrow> bool" where
  "validate_token token server_token = (if server_token = [] then True else token = server_token)"

definition get_destination_ip :: "bytes \<Rightarrow> ipv4addr option" where
  "get_destination_ip data =
     (if length data < 20 then None
      else let version_ihl = data ! 0; version = drop_bit 4 version_ihl in
        if version \<noteq> 4 then None
        else Some (Ipv4Addr (data ! 16) (data ! 17) (data ! 18) (data ! 19)))"

definition handle_data :: "bytes \<Rightarrow> bytes chan \<Rightarrow> bytes chan" where
  "handle_data data transport_tx = snd (chan_send data transport_tx)"

definition handle_keepalive :: "'t transport_trait \<Rightarrow> sockaddr \<Rightarrow> 64 word \<Rightarrow> 't \<Rightarrow> 't" where
  "handle_keepalive tr src_addr timestamp t =
     (let response = message_keepalive timestamp in snd (tr_send tr response src_addr t))"

definition allocate_virtual_ip :: "u32 \<Rightarrow> ipv4addr \<times> u32" where
  "allocate_virtual_ip next_client_id =
     (let client_id = next_client_id in (Ipv4Addr 10 0 0 (ucast client_id), next_client_id + 1))"

definition build_tun_config :: "server_config \<Rightarrow> ipv4addr \<Rightarrow> tun_config" where
  "build_tun_config config virtual_ip =
     \<lparr>tcf_name = sc_tun_name config,
      tcf_address = ipv4_to_string virtual_ip,
      tcf_netmask = ip_to_string (sc_tun_netmask config),
      tcf_destination = ip_to_string (sc_tun_destination config),
      tcf_dns = map ip_to_string (sc_tun_dns_servers config),
      tcf_mtu = of_nat (sc_tun_mtu config)\<rparr>"

text \<open>The local variables of a handshake that is sending its reply.\<close>

record pending =
  pd_session_id :: string
  pd_virtual_ip :: ipv4addr
  pd_tun_config :: tun_config
  pd_addr :: sockaddr
  pd_tx :: nat

datatype handshake_outcome =
  Hs_abort
| Hs_refuse message
| Hs_accept pending message

definition new_session ::
  "server_config \<Rightarrow> string \<Rightarrow> server_state \<Rightarrow> (string \<times> ipv4addr \<times> tun_config) \<times> server_state" where
  "new_session config fresh_id st =
     (case allocate_virtual_ip (sv_next_client_id st) of
        (virtual_ip, next) \<Rightarrow>
          ((fresh_id, virtual_ip, build_tun_config config virtual_ip),
           st\<lparr>sv_next_client_id := next\<rparr>))"

text \<open>The part of \<open>handle_handshake\<close> up to its reply.\<close>

definition handshake_lookup ::
  "string + server_config \<Rightarrow> string \<Rightarrow> sockaddr \<Rightarrow> nat \<Rightarrow> string option \<Rightarrow> string option
     \<Rightarrow> server_state \<Rightarrow> handshake_outcome \<times> server_state" where
  "handshake_lookup loaded fresh_id src_addr client_tx provided_session_id provided_token st =
     (case loaded of
        Inl _ \<Rightarrow> (Hs_abort, st)
      | Inr server_config \<Rightarrow>
          (let server_token = sc_token server_config in
           if (case provided_token of
                 Some handshake_token \<Rightarrow> \<not> validate_token handshake_token server_token
               | None \<Rightarrow> False)
           then (Hs_refuse (message_handshake
                   \<lparr>hs_token = [], hs_session_id = [], hs_tun_config = None\<rparr>), st)
           else
             (let ((session_id, virtual_ip, tun_config), st) =
                (case provided_session_id of
                   Some provided_id \<Rightarrow>
                     (case map_of (sv_sessions st) provided_id of
                        Some existing_client \<Rightarrow>
                          ((provided_id, cl_virtual_ip existing_client,
                            cl_tun_config existing_client), st)
                      | None \<Rightarrow> new_session server_config fresh_id st)
                 | None \<Rightarrow> new_session server_config fresh_id st)
              in (Hs_accept
                    \<lparr>pd_session_id = session_id, pd_virtual_ip = virtual_ip,
                     pd_tun_config = tun_config, pd_addr = src_addr, pd_tx = client_tx\<rparr>
                    (message_handshake \<lparr>hs_token = server_token, hs_session_id = session_id,
                                        hs_tun_config = Some tun_config\<rparr>), st))))"

text \<open>The part of \<open>handle_handshake\<close> after its reply was sent.\<close>

definition handshake_commit :: "nat \<Rightarrow> pending \<Rightarrow> server_state \<Rightarrow> server_state" where
  "handshake_commit now pd st =
     st\<lparr>sv_sessions := AList.update (pd_session_id pd)
          \<lparr>cl_addr = pd_addr pd, cl_virtual_ip = pd_virtual_ip pd, cl_tx = pd_tx pd,
           cl_tun_config = pd_tun_config pd, cl_last_seen = now\<rparr> (sv_sessions st)\<rparr>"

definition handle_handshake ::
  "'t transport_trait \<Rightarrow> string + server_config \<Rightarrow> nat \<Rightarrow> string \<Rightarrow> sockaddr \<Rightarrow> nat
     \<Rightarrow> string option \<Rightarrow> string option \<Rightarrow> server_state \<times> 't \<Rightarrow> server_state \<times> 't" where
  "handle_handshake tr loaded now fresh_id src_addr client_tx provided_session_id provided_token =
     (\<lambda>(st, t).
        case handshake_lookup loaded fresh_id src_addr client_tx provided_session_id provided_token st of
          (Hs_abort, st) \<Rightarrow> (st, t)
        | (Hs_refuse message, st) \<Rightarrow> (st, snd (tr_send tr message src_addr t))
        | (Hs_accept pd message, st) \<Rightarrow>
            (case tr_send tr message src_addr t of
               (Inl _, t) \<Rightarrow> (st, t)
             | (Inr _, t) \<Rightarrow> (handshake_commit now pd st, t)))"

definition handle_disconnect :: "sockaddr \<Rightarrow> server_state \<Rightarrow> server_state" where
  "handle_disconnect addr st =
     (case List.find (\<lambda>(k, v). cl_addr v = addr) (sv_sessions st) of
        Some (session_id, client) \<Rightarrow> st\<lparr>sv_sessions := AList.delete session_id (sv_sessions st)\<rparr>
      | None \<Rightarrow> st)"

definition find_virtual_ip :: "ipv4addr \<Rightarrow> server_state \<Rightarrow> client option" where
  "find_virtual_ip dest_ip st =
     List.find (\<lambda>c. cl_virtual_ip c = dest_ip) (map snd (sv_sessions st))"

text \<open>One round of the loop of \<open>handle_tun_packet\<close>, and the loop over the packets received.\<close>

definition deliver_tun_packet :: "bytes \<Rightarrow> server_state \<Rightarrow> server_state" where
  "deliver_tun_packet data st =
     (case get_destination_ip data of
        None \<Rightarrow> st
      | Some dest_ip \<Rightarrow>
          (case find_virtual_ip dest_ip st of
             None \<Rightarrow> st
           | Some client \<Rightarrow>
               st\<lparr>sv_chans := (sv_chans st)
                    (cl_tx client := snd (chan_send data (sv_chans st (cl_tx client))))\<rparr>))"

definition handle_tun_packet :: "bytes list \<Rightarrow> server_state \<Rightarrow> server_state" where
  "handle_tun_packet packets st = fold deliver_tun_packet packets st"

definition send_to_client :: "'t transport_trait \<Rightarrow> bytes \<Rightarrow> ipv4addr \<Rightarrow> server_state \<Rightarrow> 't \<Rightarrow> 't" where
  "send_to_client tr data dest_ip st t =
     (case find_virtual_ip dest_ip st of
        Some client \<Rightarrow> snd (tr_send tr (message_data data) (cl_addr client) t)
      | None \<Rightarrow> t)"

definition DURATION_MAX :: nat where
  "DURATION_MAX = secs (2 ^ 64 - 1) + 999999999"

text \<open>One pass of \<open>cleanup_expired_sessions\<close>.\<close>

definition session_live :: "nat \<Rightarrow> client \<Rightarrow> bool" where
  "session_live now client =
     (let elapsed = (if cl_last_seen client \<le> now then now - cl_last_seen client else DURATION_MAX)
      in elapsed < secs 3600)"

definition cleanup_expired_sessions :: "nat \<Rightarrow> server_state \<Rightarrow> server_state" where
  "cleanup_expired_sessions now st =
     st\<lparr>sv_sessions := filter (\<lambda>(session_id, client). session_live now client) (sv_sessions st)\<rparr>"

section \<open>Starting the server (server.rs, tun\_device.rs)\<close>

text \<open>What \<open>create_tun_device\<close> hands to the \<open>tun2\<close> configuration.\<close>

record tun_device_config =
  td_name :: string
  td_mtu :: u16
  td_address :: ipaddr
  td_netmask :: ipaddr
  td_destination :: ipaddr
  td_dns :: "ipaddr list"

datatype transport_kind = Run_tcp | Run_udp | Run_ws

definition server_tun_config :: "server_config \<Rightarrow> tun_device_config" where
  "server_tun_config config =
     \<lparr>td_name = sc_tun_name config, td_mtu = of_nat (sc_tun_mtu config),
      td_address = sc_tun_addr config, td_netmask = sc_tun_netmask config,
      td_destination = sc_tun_destination config, td_dns = sc_tun_dns_servers config\<rparr>"

definition transport_kind_of :: "string \<Rightarrow> transport_kind option" where
  "transport_kind_of transport_type =
     (let t = to_lowercase transport_type in
      if t = ''tcp'' then Some Run_tcp
      else if t = ''udp'' then Some Run_udp
      else if t = ''ws'' then Some Run_ws
      else if t = ''wss'' then Some Run_ws
      else None)"

definition run_server_from_config ::
  "(tun_device_config \<Rightarrow> string + 'dev) \<Rightarrow> app_config
     \<Rightarrow> string + transport_kind \<times> server_config \<times> rules_config \<times> transparent_proxy_config \<times> 'dev" where
  "run_server_from_config create_tun_device app_config =
     (let config = ac_server app_config in
      case create_tun_device (server_tun_config config) of
        Inl e \<Rightarrow> Inl e
      | Inr tun \<Rightarrow>
          (case transport_kind_of (sc_transport_type config) of
             Some kind \<Rightarrow> Inr (kind, config, ac_rules app_config, ac_transparent_proxy app_config, tun)
           | None \<Rightarrow> Inl (''Unknown transport type: '' @ sc_transport_type config)))"

section \<open>The server as a transition system\<close>

text \<open>
  The tasks of the server share the session map.  A state of the whole is the shared state and
  the handshakes that wait for their reply to be sent.  A step carries the number of client ids
  it draws.
\<close>

record system =
  sy_server :: server_state
  sy_pending :: "pending list"

definition system_start :: system where
  "system_start = \<lparr>sy_server = server_start, sy_pending = []\<rparr>"

text \<open>Who holds which address: the sessions, and the handshakes about to become sessions.\<close>

definition holdings :: "system \<Rightarrow> (string \<times> ipv4addr \<times> tun_config) set" where
  "holdings s =
     (\<lambda>(k, c). (k, cl_virtual_ip c, cl_tun_config c)) ` set (sv_sessions (sy_server s))
     \<union> (\<lambda>pd. (pd_session_id pd, pd_virtual_ip pd, pd_tun_config pd)) ` set (sy_pending s)"

inductive server_step :: "system \<Rightarrow> nat \<Rightarrow> system \<Rightarrow> bool" where
  reply: "handshake_lookup (Inr config) fresh_id addr tx sid tok (sy_server s) = (Hs_accept pd msg, st)
    \<Longrightarrow> fresh_id \<notin> fst ` holdings s
    \<Longrightarrow> server_step s (if sv_next_client_id st = sv_next_client_id (sy_server s) then 0 else 1)
          (s\<lparr>sy_server := st, sy_pending := pd # sy_pending s\<rparr>)"
| commit: "sy_pending s = before @ pd # behind
    \<Longrightarrow> server_step s 0
          (s\<lparr>sy_server := handshake_commit now pd (sy_server s), sy_pending := before @ behind\<rparr>)"
| send_failed: "sy_pending s = before @ pd # behind
    \<Longrightarrow> server_step s 0 (s\<lparr>sy_pending := before @ behind\<rparr>)"
| disconnect: "server_step s 0 (s\<lparr>sy_server := handle_disconnect addr (sy_server s)\<rparr>)"
| cleanup: "server_step s 0 (s\<lparr>sy_server := cleanup_expired_sessions now (sy_server s)\<rparr>)"
| tun_packet: "server_step s 0 (s\<lparr>sy_server := deliver_tun_packet data (sy_server s)\<rparr>)"
| channels: "server_step s 0 (s\<lparr>sy_server := (sy_server s)\<lparr>sv_chans := chans\<rparr>\<rparr>)"
| reorder: "mset sessions = mset (sv_sessions (sy_server s))
    \<Longrightarrow> server_step s 0 (s\<lparr>sy_server := (sy_server s)\<lparr>sv_sessions := sessions\<rparr>\<rparr>)"

text \<open>The states reached after drawing \<open>n\<close> client ids.\<close>

inductive reach :: "nat \<Rightarrow> system \<Rightarrow> bool" where
  start: "reach 0 system_start"
| step: "reach n s \<Longrightarrow> server_step s k s' \<Longrightarrow> reach (n + k) s'"

section \<open>The invariant of the sessions\<close>

definition ip_of_id :: "nat \<Rightarrow> ipv4addr" where
  "ip_of_id i = Ipv4Addr 10 0 0 (of_nat i)"

text \<open>Client ids can be given back to session ids so that different sessions drew different ids.\<close>

fun drew :: "nat \<Rightarrow> (string \<Rightarrow> nat) \<Rightarrow> string \<times> ipv4addr \<times> tun_config \<Rightarrow> bool" where
  "drew n f (k, ip, tc) \<longleftrightarrow>
     2 \<le> f k \<and> f k < 2 + n \<and> ip = ip_of_id (f k) \<and> tcf_address tc = ipv4_to_string ip"

definition drawn_by :: "nat \<Rightarrow> (string \<Rightarrow> nat) \<Rightarrow> (string \<times> ipv4addr \<times> tun_config) set \<Rightarrow> bool" where
  "drawn_by n f hs \<longleftrightarrow> inj_on f (fst ` hs) \<and> (\<forall>h \<in> hs. drew n f h)"

definition system_inv :: "nat \<Rightarrow> system \<Rightarrow> bool" where
  "system_inv n s \<longleftrightarrow>
     distinct (map fst (sv_sessions (sy_server s)))
     \<and> sv_next_client_id (sy_server s) = of_nat (2 + n)
     \<and> (\<exists>f. drawn_by n f (holdings s))"

lemma drawn_by_subset: "drawn_by n f hs \<Longrightarrow> hs' \<subseteq> hs \<Longrightarrow> drawn_by n f hs'"
  unfolding drawn_by_def by (blast intro: inj_on_subset image_mono)

text \<open>A step that gives nobody a new address keeps the invariant.\<close>

lemma system_inv_shrink:
  assumes "system_inv n s" and "k = 0" and "holdings s' \<subseteq> holdings s"
    and "distinct (map fst (sv_sessions (sy_server s')))"
    and "sv_next_client_id (sy_server s') = sv_next_client_id (sy_server s)"
  shows "system_inv (n + k) s'"
  using assms drawn_by_subset [OF _ assms(3)] unfolding system_inv_def by (metis add_0_right)

lemma drawn_by_insert:
  assumes "drawn_by n f hs" and "k \<notin> fst ` hs" and "tcf_address tc = ipv4_to_string (ip_of_id (2 + n))"
  shows "drawn_by (Suc n) (f(k := 2 + n)) (insert (k, ip_of_id (2 + n), tc) hs)"
proof -
  have old: "f k' < 2 + n" if "k' \<in> fst ` hs" for k'
    using that assms(1) by (auto simp: drawn_by_def)
  have "inj_on (f(k := 2 + n)) (fst ` insert (k, ip_of_id (2 + n), tc) hs)"
  proof (rule inj_onI)
    fix x y
    assume "x \<in> fst ` insert (k, ip_of_id (2 + n), tc) hs"
      and "y \<in> fst ` insert (k, ip_of_id (2 + n), tc) hs"
      and "(f(k := 2 + n)) x = (f(k := 2 + n)) y"
    then show "x = y"
      using assms(1) old [of x] old [of y] by (auto simp: drawn_by_def inj_on_def split: if_splits)
  qed
  moreover have "drew (Suc n) (f(k := 2 + n)) h" if "h \<in> hs" for h
  proof -
    from that assms(1,2) have "drew n f h" and "fst h \<noteq> k" by (auto simp: drawn_by_def)
    then show ?thesis by (cases h) auto
  qed
  ultimately show ?thesis using assms(3) by (auto simp: drawn_by_def)
qed

text \<open>What one half of a handshake does, on the branches that answer.\<close>

lemma handshake_lookup_cases:
  assumes "handshake_lookup (Inr config) fresh_id addr tx sid tok st = (Hs_accept pd msg, st')"
  obtains
    (resume) k c where "sid = Some k" and "map_of (sv_sessions st) k = Some c" and "st' = st"
      and "pd = \<lparr>pd_session_id = k, pd_virtual_ip = cl_virtual_ip c, pd_tun_config = cl_tun_config c,
                 pd_addr = addr, pd_tx = tx\<rparr>"
  | (admit) "case sid of None \<Rightarrow> True | Some k \<Rightarrow> map_of (sv_sessions st) k = None"
      and "st' = st\<lparr>sv_next_client_id := sv_next_client_id st + 1\<rparr>"
      and "pd = \<lparr>pd_session_id = fresh_id,
                 pd_virtual_ip = Ipv4Addr 10 0 0 (ucast (sv_next_client_id st)),
                 pd_tun_config = build_tun_config config (Ipv4Addr 10 0 0 (ucast (sv_next_client_id st))),
                 pd_addr = addr, pd_tx = tx\<rparr>"
proof (cases "case sid of None \<Rightarrow> None | Some k \<Rightarrow> map_of (sv_sessions st) k")
  case None
  with assms show ?thesis
    by (intro admit)
      (auto simp: handshake_lookup_def new_session_def allocate_virtual_ip_def Let_def
        split: if_splits option.splits)
next
  case (Some c)
  then obtain k where "sid = Some k" and "map_of (sv_sessions st) k = Some c"
    by (auto split: option.splits)
  with assms show ?thesis
    by (intro resume) (auto simp: handshake_lookup_def Let_def split: if_splits)
qed

lemma holdings_session:
  "(k, c) \<in> set (sv_sessions (sy_server s)) \<Longrightarrow> (k, cl_virtual_ip c, cl_tun_config c) \<in> holdings s"
  by (force simp: holdings_def)

lemma set_update_subset: "set (AList.update k v al) \<subseteq> insert (k, v) (set al)"
  by (induction al) auto

lemma set_delete_subset: "set (AList.delete k al) \<subseteq> set al"
  by (auto simp: AList.delete_eq)

lemma deliver_tun_packet_sessions [simp]:
  "sv_sessions (deliver_tun_packet data st) = sv_sessions st"
  "sv_next_client_id (deliver_tun_packet data st) = sv_next_client_id st"
  by (simp_all add: deliver_tun_packet_def split: option.split)

lemma handle_disconnect_sessions:
  "\<exists>k. sv_sessions (handle_disconnect addr st) = AList.delete k (sv_sessions st)
     \<or> handle_disconnect addr st = st"
  "sv_next_client_id (handle_disconnect addr st) = sv_next_client_id st"
  by (auto simp: handle_disconnect_def split: option.split)

lemma ucast_u32_of_nat: "ucast (of_nat m :: u32) = (of_nat m :: u8)"
  by (simp add: word_unat_eq_iff unsigned_of_nat)

lemma system_inv_step:
  assumes "server_step s k s'" and "system_inv n s"
  shows "system_inv (n + k) s'"
proof -
  have dist: "distinct (map fst (sv_sessions (sy_server s)))"
    and nxt: "sv_next_client_id (sy_server s) = of_nat (2 + n)"
    using assms(2) by (simp_all add: system_inv_def)
  note keep = system_inv_shrink [OF assms(2)]
  from assms(1) show ?thesis
  proof cases
    case (reply config fresh_id addr tx sid tok pd msg st)
    from reply(3) show ?thesis
    proof (cases rule: handshake_lookup_cases)
      case (resume key c)
      then have "(key, cl_virtual_ip c, cl_tun_config c) \<in> holdings s"
        by (auto intro: holdings_session map_of_SomeD)
      with resume reply dist show ?thesis by (intro keep) (auto simp: holdings_def)
    next
      case admit
      obtain f where "drawn_by n f (holdings s)" using assms(2) by (auto simp: system_inv_def)
      moreover have "ucast (sv_next_client_id (sy_server s)) = (of_nat (2 + n) :: u8)"
        by (simp only: nxt ucast_u32_of_nat)
      ultimately have "drawn_by (Suc n) (f(fresh_id := 2 + n)) (holdings s')"
        using drawn_by_insert [of n f "holdings s" fresh_id "pd_tun_config pd"] reply(2,4) admit
        by (simp add: holdings_def ip_of_id_def build_tun_config_def)
      moreover have "k = 1" using reply(1) admit by simp
      ultimately show ?thesis using dist nxt reply(2) admit by (auto simp: system_inv_def)
    qed
  next
    case (commit before pd behind now)
    let ?c = "\<lparr>cl_addr = pd_addr pd, cl_virtual_ip = pd_virtual_ip pd, cl_tx = pd_tx pd,
      cl_tun_config = pd_tun_config pd, cl_last_seen = now\<rparr>"
    have "sv_sessions (sy_server s') = AList.update (pd_session_id pd) ?c (sv_sessions (sy_server s))"
      using commit by (simp add: handshake_commit_def)
    with commit have "holdings s' \<subseteq> holdings s"
      using set_update_subset [of "pd_session_id pd" ?c "sv_sessions (sy_server s)"] by (force simp: holdings_def)
    with commit dist show ?thesis by (intro keep) (auto simp: handshake_commit_def distinct_update)
  next
    case (disconnect addr)
    from handle_disconnect_sessions(1) [of addr "sy_server s"] dist
    have "set (sv_sessions (handle_disconnect addr (sy_server s))) \<subseteq> set (sv_sessions (sy_server s))"
      and "distinct (map fst (sv_sessions (handle_disconnect addr (sy_server s))))"
      by (auto simp: distinct_delete dest: subsetD [OF set_delete_subset])
    with disconnect show ?thesis
      by (intro keep) (auto simp: handle_disconnect_sessions(2) holdings_def)
  next
    case (reorder sessions)
    then have "set sessions = set (sv_sessions (sy_server s))"
      and "mset (map fst sessions) = mset (map fst (sv_sessions (sy_server s)))"
      by (auto dest: mset_eq_setD)
    then have "distinct (map fst sessions)" using dist mset_eq_imp_distinct_iff by blast
    with reorder \<open>set sessions = _\<close> show ?thesis by (intro keep) (simp_all add: holdings_def)
  qed (use dist in \<open>auto intro!: keep [of 0, simplified] distinct_map_filter
         simp: holdings_def cleanup_expired_sessions_def\<close>)
qed

lemma system_inv_reach: "reach n s \<Longrightarrow> system_inv n s"
proof (induction rule: reach.induct)
  case start
  show ?case
    by (simp add: system_inv_def system_start_def server_start_def holdings_def drawn_by_def)
next
  case (step n s k s')
  then show ?case by (simp add: system_inv_step)
qed

text \<open>Up to 256 draws, an address has one holder.\<close>

lemma mod_eq_close:
  fixes i j :: nat
  assumes "i mod q = j mod q" and "a \<le> i" "a \<le> j" "i < a + q" "j < a + q"
  shows "i = j"
proof -
  have "x = y" if "x mod q = y mod q" "y \<le> x" "x < y + q" for x y :: nat
  proof -
    from that have "q dvd x - y" by (simp add: mod_eq_dvd_iff_nat)
    moreover have "x - y < q" using that by linarith
    ultimately have "x - y = 0" using nat_dvd_not_less by blast
    with that show ?thesis by simp
  qed
  from this [of i j] this [of j i] assms show ?thesis by (cases "i \<le> j") simp_all
qed

lemma u8_of_nat_inj:
  assumes "(of_nat i :: u8) = of_nat j" and "2 \<le> i" "2 \<le> j" "i < 258" "j < 258"
  shows "i = j"
proof -
  have "i mod 256 = j mod 256"
    using assms(1) by (simp add: word_unat_eq_iff unsigned_of_nat take_bit_eq_mod)
  with assms(2-) show ?thesis by (intro mod_eq_close [of i 256 j 2]) simp_all
qed

lemma holder_unique:
  assumes "reach n s" and "n \<le> 256" and "(k, ip, tc) \<in> holdings s" and "(k', ip, tc') \<in> holdings s"
  shows "k = k'"
proof -
  obtain f where f: "drawn_by n f (holdings s)"
    using system_inv_reach [OF assms(1)] by (auto simp: system_inv_def)
  then have "drew n f (k, ip, tc)" and "drew n f (k', ip, tc')"
    using assms(3,4) by (auto simp: drawn_by_def)
  then have "f k = f k'"
    using assms(2) by (intro u8_of_nat_inj) (auto simp: ip_of_id_def)
  moreover have "k \<in> fst ` holdings s" and "k' \<in> fst ` holdings s"
    using assms(3,4) by (force, force)
  ultimately show ?thesis using f by (auto simp: drawn_by_def inj_on_def)
qed

lemma session_holder_unique:
  assumes "reach n s" and "n \<le> 256"
    and "(k, c) \<in> set (sv_sessions (sy_server s))" and "(k', c') \<in> set (sv_sessions (sy_server s))"
    and "cl_virtual_ip c = cl_virtual_ip c'"
  shows "(k, c) = (k', c')"
proof -
  have "k = k'"
    using holder_unique [OF assms(1,2)] holdings_session [OF assms(3)] holdings_session [OF assms(4)]
      assms(5) by metis
  moreover have "distinct (map fst (sv_sessions (sy_server s)))"
    using system_inv_reach [OF assms(1)] by (simp add: system_inv_def)
  ultimately show ?thesis using assms(3,4) by (auto dest: eq_key_imp_eq_value)
qed

lemma find_SomeD: "List.find P xs = Some x \<Longrightarrow> x \<in> set xs \<and> P x"
  by (induction xs) (auto split: if_splits)

lemma find_virtual_ip_unique:
  assumes "reach n s" and "n \<le> 256" and "(k, c) \<in> set (sv_sessions (sy_server s))"
  shows "find_virtual_ip (cl_virtual_ip c) (sy_server s) = Some c"
proof -
  obtain c' where c': "find_virtual_ip (cl_virtual_ip c) (sy_server s) = Some c'"
  proof (cases "find_virtual_ip (cl_virtual_ip c) (sy_server s)")
    case None
    with assms(3) have False by (force simp: find_virtual_ip_def find_None_iff)
    then show ?thesis ..
  qed blast
  then obtain k' where "(k', c') \<in> set (sv_sessions (sy_server s))"
    and "cl_virtual_ip c' = cl_virtual_ip c"
    by (auto simp: find_virtual_ip_def dest!: find_SomeD)
  with session_holder_unique [OF assms(1,2,3)] c' show ?thesis by (metis prod.inject)
qed

lemma session_ips_distinct:
  assumes "reach n s" and "n \<le> 256"
  shows "distinct (map (\<lambda>(k, c). cl_virtual_ip c) (sv_sessions (sy_server s)))"
proof (subst distinct_map, intro conjI inj_onI)
  show "distinct (sv_sessions (sy_server s))"
    using system_inv_reach [OF assms(1)] by (simp add: system_inv_def distinct_map)
  show "x = y" if "x \<in> set (sv_sessions (sy_server s))" "y \<in> set (sv_sessions (sy_server s))"
    "(\<lambda>(k, c). cl_virtual_ip c) x = (\<lambda>(k, c). cl_virtual_ip c) y" for x y
    using that session_holder_unique [OF assms, of "fst x" "snd x" "fst y" "snd y"]
    by (simp add: case_prod_beta)
qed

lemma session_ip_host:
  assumes "reach n s" and "n \<le> 253" and "(k, c) \<in> set (sv_sessions (sy_server s))"
  shows "\<exists>d. 2 \<le> d \<and> d \<le> 254 \<and> cl_virtual_ip c = Ipv4Addr 10 0 0 d
    \<and> parse_ipv4 (tcf_address (cl_tun_config c)) = Some (cl_virtual_ip c)"
proof -
  obtain f where "drew n f (k, cl_virtual_ip c, cl_tun_config c)"
    using system_inv_reach [OF assms(1)] holdings_session [OF assms(3)]
    unfolding system_inv_def drawn_by_def by blast
  with assms(2) show ?thesis
    by (intro exI [of _ "of_nat (f k)"])
      (simp add: ip_of_id_def word_le_nat_alt unsigned_of_nat take_bit_eq_mod)
qed

lemma delete_remove1:
  assumes "distinct (map fst al)" and "(k, v) \<in> set al"
  shows "AList.delete k al = remove1 (k, v) al"
  using assms
proof (induction al)
  case (Cons x al)
  show ?case
  proof (cases "x = (k, v)")
    case True
    with Cons.prems(1) have "k \<notin> fst ` set al" by auto
    with True show ?thesis by (simp add: delete_idem)
  next
    case False
    with Cons.prems have "(k, v) \<in> set al" by simp
    then have "fst x \<noteq> k" using Cons.prems(1) by (metis distinct.simps(2) fst_conv image_eqI list.simps(9) set_map)
    with Cons False show ?thesis by (cases x) simp
  qed
qed simp

section \<open>Properties\<close>

definition example_server_config :: server_config where
  "example_server_config = default_server_config\<lparr>sc_token := ''admin''\<rparr>"

definition example_addr :: "u16 \<Rightarrow> sockaddr" where
  "example_addr port = \<lparr>sa_ip = V4 (Ipv4Addr 192 168 6 7), sa_port = port\<rparr>"

text \<open>An example run: a client is admitted under the id \<open>abc\<close> and its handshake committed.\<close>

definition example_client :: client where
  "example_client =
     \<lparr>cl_addr = example_addr 4000, cl_virtual_ip = Ipv4Addr 10 0 0 2, cl_tx = 7,
      cl_tun_config = build_tun_config example_server_config (Ipv4Addr 10 0 0 2), cl_last_seen = 5\<rparr>"

definition example_system :: system where
  "example_system =
     \<lparr>sy_server = \<lparr>sv_next_client_id = 3, sv_sessions = [(''abc'', example_client)],
                   sv_chans = (\<lambda>_. chan_new)\<rparr>,
      sy_pending = []\<rparr>"

definition example_ip_packet :: "u8 \<Rightarrow> bytes" where
  "example_ip_packet d = [69, 0, 0, 20, 0, 0, 0, 0, 64, 6, 0, 0, 10, 0, 0, 9, 10, 0, 0, d]"

lemma example_ip_packet_destination:
  "get_destination_ip (example_ip_packet d) = Some (Ipv4Addr 10 0 0 d)"
  by (simp add: get_destination_ip_def example_ip_packet_def)

lemma example_reach: "reach 1 example_system"
proof -
  let ?pd = "\<lparr>pd_session_id = ''abc'', pd_virtual_ip = Ipv4Addr 10 0 0 2,
    pd_tun_config = build_tun_config example_server_config (Ipv4Addr 10 0 0 2),
    pd_addr = example_addr 4000, pd_tx = 7\<rparr>"
  let ?st = "\<lparr>sv_next_client_id = 3, sv_sessions = [], sv_chans = (\<lambda>_. chan_new)\<rparr>"
  have "handshake_lookup (Inr example_server_config) ''abc'' (example_addr 4000) 7 None
      (Some ''admin'') server_start =
    (Hs_accept ?pd (message_handshake \<lparr>hs_token = ''admin'', hs_session_id = ''abc'',
       hs_tun_config = Some (build_tun_config example_server_config (Ipv4Addr 10 0 0 2))\<rparr>), ?st)"
    by (simp add: handshake_lookup_def new_session_def allocate_virtual_ip_def validate_token_def
        server_start_def example_server_config_def Let_def)
  from server_step.reply [of _ _ _ _ _ _ system_start, unfolded system_start_def system.simps,
      OF this] reach.start
  have "reach (0 + 1) \<lparr>sy_server = ?st, sy_pending = [?pd]\<rparr>"
    by (intro reach.step) (auto simp: holdings_def system_start_def server_start_def)
  then have "reach (1 + 0) \<lparr>sy_server = handshake_commit 5 ?pd ?st, sy_pending = []\<rparr>"
    using server_step.commit [of "\<lparr>sy_server = ?st, sy_pending = [?pd]\<rparr>" "[]" ?pd "[]" 5]
    by (intro reach.step) auto
  then show ?thesis
    by (simp add: handshake_commit_def example_system_def example_client_def)
qed

text \<open>
  Clients that arrive one after the other without a session id, each on a connection of its own.
\<close>

definition crowd_client :: "server_config \<Rightarrow> nat \<Rightarrow> client" where
  "crowd_client config i =
     \<lparr>cl_addr = example_addr (of_nat i), cl_virtual_ip = ip_of_id (2 + i), cl_tx = i,
      cl_tun_config = build_tun_config config (ip_of_id (2 + i)), cl_last_seen = i\<rparr>"

definition crowd :: "server_config \<Rightarrow> nat \<Rightarrow> system" where
  "crowd config m =
     \<lparr>sy_server = \<lparr>sv_next_client_id = of_nat (2 + m),
        sv_sessions = map (\<lambda>i. (replicate i (CHR ''x''), crowd_client config i)) [0..<m],
        sv_chans = (\<lambda>_. chan_new)\<rparr>,
      sy_pending = []\<rparr>"

lemma update_new: "k \<notin> fst ` set xs \<Longrightarrow> AList.update k v xs = xs @ [(k, v)]"
  by (induction xs) auto

definition crowd_pending :: "server_config \<Rightarrow> nat \<Rightarrow> pending" where
  "crowd_pending config m =
     \<lparr>pd_session_id = replicate m (CHR ''x''), pd_virtual_ip = ip_of_id (2 + m),
      pd_tun_config = build_tun_config config (ip_of_id (2 + m)), pd_addr = example_addr (of_nat m), pd_tx = m\<rparr>"

text \<open>The crowd when the next client has been sent its reply and is not yet registered.\<close>

definition crowd_replied :: "server_config \<Rightarrow> nat \<Rightarrow> system" where
  "crowd_replied config m =
     (crowd config m)\<lparr>sy_server := (sy_server (crowd config m))\<lparr>sv_next_client_id := of_nat (3 + m)\<rparr>,
        sy_pending := [crowd_pending config m]\<rparr>"

lemma crowd_fresh: "replicate m (CHR ''x'') \<notin> fst ` set (sv_sessions (sy_server (crowd config m)))"
  by (auto simp: crowd_def dest: arg_cong [where f = length])

lemma crowd_replies:
  assumes "reach m (crowd config m)"
  shows "reach (Suc m) (crowd_replied config m)"
proof -
  let ?id = "replicate m (CHR ''x'')"
  let ?ip = "ip_of_id (2 + m)"
  have "Ipv4Addr 10 0 0 (ucast (of_nat (2 + m) :: u32)) = ?ip"
    by (simp only: ip_of_id_def ucast_u32_of_nat)
  then have lookup: "handshake_lookup (Inr config) ?id (example_addr (of_nat m)) m None None (sy_server (crowd config m))
      = (Hs_accept (crowd_pending config m) (message_handshake \<lparr>hs_token = sc_token config, hs_session_id = ?id,
           hs_tun_config = Some (build_tun_config config ?ip)\<rparr>), sy_server (crowd_replied config m))"
    by (simp add: handshake_lookup_def new_session_def allocate_virtual_ip_def crowd_def crowd_replied_def
        crowd_pending_def Let_def add.commute)
  have "?id \<notin> fst ` holdings (crowd config m)"
    using crowd_fresh [of m config] by (auto simp: holdings_def crowd_def)
  from reach.step [OF assms server_step.reply [OF lookup this]] show ?thesis
    by (simp add: crowd_def crowd_replied_def)
qed

lemma crowd_grows:
  assumes "reach m (crowd config m)"
  shows "reach (Suc m) (crowd config (Suc m))"
proof -
  have "sy_pending (crowd_replied config m) = [] @ crowd_pending config m # []" by (simp add: crowd_replied_def)
  from reach.step [OF crowd_replies [OF assms] server_step.commit [OF this, of m]]
  have "reach (Suc m) ((crowd_replied config m)\<lparr>sy_server := handshake_commit m (crowd_pending config m)
      (sy_server (crowd_replied config m)), sy_pending := []\<rparr>)" by simp
  moreover have "(crowd_replied config m)\<lparr>sy_server := handshake_commit m (crowd_pending config m)
      (sy_server (crowd_replied config m)), sy_pending := []\<rparr> = crowd config (Suc m)"
    using crowd_fresh [of m config]
    by (simp add: crowd_def crowd_replied_def crowd_pending_def handshake_commit_def update_new crowd_client_def)
  ultimately show ?thesis by simp
qed

lemma crowd_reached: "reach m (crowd config m)"
proof (induction m)
  case 0
  show ?case using reach.start by (simp add: crowd_def system_start_def server_start_def)
qed (rule crowd_grows)

text \<open>All addresses come from one network of 256.\<close>

lemma session_ips_few:
  assumes "reach n s"
  shows "card ((\<lambda>(k, c). cl_virtual_ip c) ` set (sv_sessions (sy_server s))) \<le> 256"
proof -
  have "(\<lambda>(k, c). cl_virtual_ip c) ` set (sv_sessions (sy_server s)) \<subseteq> Ipv4Addr 10 0 0 ` (UNIV :: u8 set)"
  proof
    fix ip assume "ip \<in> (\<lambda>(k, c). cl_virtual_ip c) ` set (sv_sessions (sy_server s))"
    then obtain k c where "(k, c) \<in> set (sv_sessions (sy_server s))" "ip = cl_virtual_ip c" by auto
    with system_inv_reach [OF assms] holdings_session [of k c s] show "ip \<in> Ipv4Addr 10 0 0 ` (UNIV :: u8 set)"
      by (fastforce simp: system_inv_def drawn_by_def ip_of_id_def)
  qed
  from card_mono [OF _ this] have "card ((\<lambda>(k, c). cl_virtual_ip c) ` set (sv_sessions (sy_server s)))
      \<le> card (Ipv4Addr 10 0 0 ` (UNIV :: u8 set))" by simp
  also have "\<dots> \<le> card (UNIV :: u8 set)" by (rule card_image_le) simp
  finally show ?thesis by (simp add: card_word)
qed

lemma server_address_given_out:
  "reach 256 (crowd default_server_config 256)
   \<and> (\<exists>(k, c) \<in> set (sv_sessions (sy_server (crowd default_server_config 256))).
        V4 (cl_virtual_ip c) = sc_tun_addr default_server_config)"
proof -
  have "V4 (cl_virtual_ip (crowd_client default_server_config 255)) = sc_tun_addr default_server_config"
    by (simp add: crowd_client_def ip_of_id_def default_server_config_def)
  then show ?thesis using crowd_reached [of 256 default_server_config] by (fastforce simp: crowd_def)
qed

text \<open>C8: In every state the server can reach, session ids are unique, and as long as no more than
  256 client ids were drawn, no two sessions share a virtual address, whatever handshakes,
  disconnects and clean-ups ran in whatever interleaving.  With at most 253 draws every session
  has one of the host addresses 10.0.0.2 to 10.0.0.254, the one its client was told.\<close>

theorem sessions_have_own_address:
  assumes "reach n s"
  shows "distinct (map fst (sv_sessions (sy_server s)))
    \<and> (n \<le> 256 \<longrightarrow> distinct (map (\<lambda>(k, c). cl_virtual_ip c) (sv_sessions (sy_server s))))
    \<and> (n \<le> 253 \<longrightarrow> (\<forall>(k, c) \<in> set (sv_sessions (sy_server s)).
          \<exists>d. 2 \<le> d \<and> d \<le> 254 \<and> cl_virtual_ip c = Ipv4Addr 10 0 0 d
            \<and> parse_ipv4 (tcf_address (cl_tun_config c)) = Some (cl_virtual_ip c)))"
  using system_inv_reach [OF assms] session_ips_distinct [OF assms] session_ip_host [OF assms]
  by (auto simp: system_inv_def)

theorem sessions_have_own_address_witness:
  "\<exists>d. 2 \<le> d \<and> d \<le> 254 \<and> cl_virtual_ip example_client = Ipv4Addr 10 0 0 d
     \<and> parse_ipv4 (tcf_address (cl_tun_config example_client)) = Some (cl_virtual_ip example_client)"
  using sessions_have_own_address [OF example_reach] by (simp add: example_system_def)

text \<open>C9: As long as at most 256 client ids have been drawn, a packet for the virtual address of a
  session goes to the channel of that session's connection and to no other, and over UDP to the
  address the session's handshake came from; the order in which the session map is searched does
  not matter.\<close>

theorem packet_reaches_its_session:
  assumes "reach n s" and "n \<le> 256" and "(k, c) \<in> set (sv_sessions (sy_server s))"
    and "get_destination_ip data = Some (cl_virtual_ip c)"
  shows "deliver_tun_packet data (sy_server s) =
      (sy_server s)\<lparr>sv_chans := (sv_chans (sy_server s))
         (cl_tx c := snd (chan_send data (sv_chans (sy_server s) (cl_tx c))))\<rparr>
    \<and> send_to_client tr data (cl_virtual_ip c) (sy_server s) t =
        snd (tr_send tr (message_data data) (cl_addr c) t)"
  using find_virtual_ip_unique [OF assms(1-3)] assms(4)
  by (simp add: deliver_tun_packet_def send_to_client_def)

theorem packet_reaches_its_session_witness:
  "ch_queue (sv_chans (deliver_tun_packet (example_ip_packet 2) (sy_server example_system)) 7)
     = [example_ip_packet 2]"
proof -
  have "get_destination_ip (example_ip_packet 2) = Some (cl_virtual_ip example_client)"
    by (simp add: example_ip_packet_destination example_client_def)
  from conjunct1 [OF packet_reaches_its_session [OF example_reach _ _ this]] show ?thesis
    by (simp add: example_system_def example_client_def chan_new_def)
qed

text \<open>A packet that is too short, is not IPv4 or is for an address no session holds reaches
  nobody.\<close>

lemma other_packets_dropped:
  "list_all (\<lambda>(k, c). get_destination_ip data \<noteq> Some (cl_virtual_ip c)) (sv_sessions st)
     \<Longrightarrow> deliver_tun_packet data st = st"
  by (fastforce simp: deliver_tun_packet_def find_virtual_ip_def list_all_iff split: option.split
      dest!: find_SomeD)

text \<open>C4: A client that was answered is reached.  Whatever the server did between the reply to a
  handshake and the registration of its session (other handshakes, disconnects, clean-ups,
  packets), with session ids that are fresh and at most 256 client ids drawn: once the session is
  registered, packets for the address in the reply go to the channel of the connection the
  handshake came on and to no other, and over UDP to the address it came from.\<close>

theorem admitted_client_reached:
  assumes "reach n s" and "n \<le> 256" and "pd \<in> set (sy_pending s)"
    and "get_destination_ip data = parse_ipv4 (tcf_address (pd_tun_config pd))"
  shows "deliver_tun_packet data (handshake_commit now pd (sy_server s)) =
      (handshake_commit now pd (sy_server s))\<lparr>sv_chans := (sv_chans (sy_server s))
         (pd_tx pd := snd (chan_send data (sv_chans (sy_server s) (pd_tx pd))))\<rparr>
    \<and> send_to_client tr data (pd_virtual_ip pd) (handshake_commit now pd (sy_server s)) t =
        snd (tr_send tr (message_data data) (pd_addr pd) t)"
proof -
  let ?c = "\<lparr>cl_addr = pd_addr pd, cl_virtual_ip = pd_virtual_ip pd, cl_tx = pd_tx pd,
    cl_tun_config = pd_tun_config pd, cl_last_seen = now\<rparr>"
  obtain before behind where pending: "sy_pending s = before @ pd # behind" using assms(3) by (auto dest: split_list)
  let ?s = "s\<lparr>sy_server := handshake_commit now pd (sy_server s), sy_pending := before @ behind\<rparr>"
  have reached: "reach n ?s" using reach.step [OF assms(1) server_step.commit [OF pending]] by simp
  have "(pd_session_id pd, ?c) \<in> set (sv_sessions (sy_server ?s))"
    by (rule map_of_SomeD) (simp add: handshake_commit_def update_conv')
  from find_virtual_ip_unique [OF reached assms(2) this]
  have find: "find_virtual_ip (pd_virtual_ip pd) (handshake_commit now pd (sy_server s)) = Some ?c" by simp
  have "(pd_session_id pd, pd_virtual_ip pd, pd_tun_config pd) \<in> holdings s" using assms(3) by (auto simp: holdings_def)
  with system_inv_reach [OF assms(1)] have "tcf_address (pd_tun_config pd) = ipv4_to_string (pd_virtual_ip pd)"
    by (fastforce simp: system_inv_def drawn_by_def)
  with assms(4) have "get_destination_ip data = Some (pd_virtual_ip pd)" by simp
  with find show ?thesis by (simp add: deliver_tun_packet_def send_to_client_def handshake_commit_def)
qed

theorem admitted_client_reached_witness:
  "ch_queue (sv_chans (deliver_tun_packet (example_ip_packet 3)
     (handshake_commit 9 (crowd_pending default_server_config 1) (sy_server (crowd_replied default_server_config 1)))) 1)
   = [example_ip_packet 3]"
proof -
  have pd: "crowd_pending default_server_config 1 \<in> set (sy_pending (crowd_replied default_server_config 1))"
    by (simp add: crowd_replied_def)
  have ip: "get_destination_ip (example_ip_packet 3)
      = parse_ipv4 (tcf_address (pd_tun_config (crowd_pending default_server_config 1)))"
    by (simp add: example_ip_packet_destination crowd_pending_def build_tun_config_def ip_of_id_def)
  have state: "sv_chans (sy_server (crowd_replied default_server_config 1)) = (\<lambda>_. chan_new)"
    "pd_tx (crowd_pending default_server_config 1) = 1"
    by (simp_all add: crowd_replied_def crowd_def crowd_pending_def)
  from conjunct1 [OF admitted_client_reached [OF crowd_replies [OF crowd_reached] _ pd ip, of 9]] show ?thesis
    by (simp only: state) (simp add: chan_new_def)
qed

text \<open>C13: A handshake is answered with a session exactly when the token sent is the server's, the
  server has none, or the client sent none at all; a refusal carries neither token, session nor
  configuration and leaves the server as it was.\<close>

theorem handshake_accepted_iff:
  "if tok = None \<or> sc_token config = [] \<or> tok = Some (sc_token config)
   then \<exists>pd msg st'. handshake_lookup (Inr config) fresh_id addr tx sid tok st = (Hs_accept pd msg, st')
   else handshake_lookup (Inr config) fresh_id addr tx sid tok st =
     (Hs_refuse (message_handshake \<lparr>hs_token = [], hs_session_id = [], hs_tun_config = None\<rparr>), st)"
proof (cases "tok = None \<or> sc_token config = [] \<or> tok = Some (sc_token config)")
  case True
  then have "\<not> (case tok of Some t \<Rightarrow> \<not> validate_token t (sc_token config) | None \<Rightarrow> False)"
    by (auto simp: validate_token_def split: option.split)
  then show ?thesis
    by (simp only: if_P [OF True]) (simp add: handshake_lookup_def Let_def case_prod_beta)
next
  case False
  then have "case tok of Some t \<Rightarrow> \<not> validate_token t (sc_token config) | None \<Rightarrow> False"
    by (auto simp: validate_token_def split: option.split)
  then show ?thesis
    by (simp only: if_not_P [OF False]) (simp add: handshake_lookup_def Let_def)
qed

text \<open>C14: A client that comes back with the id of a live session gets the same id, address and
  configuration; the session now belongs to its new connection, no client id is drawn and all
  other sessions stay as they are.\<close>

theorem reconnect_keeps_session:
  assumes "map_of (sv_sessions st) k = Some c"
    and "tok = None \<or> tok = Some (sc_token config)"
    and "\<And>m a. tr_send tr m a t = (Inr (), sent m a)"
    and "handle_handshake tr (Inr config) now fresh_id addr tx (Some k) tok (st, t) = (st', t')"
  shows "t' = sent (message_handshake \<lparr>hs_token = sc_token config, hs_session_id = k,
                      hs_tun_config = Some (cl_tun_config c)\<rparr>) addr
    \<and> sv_next_client_id st' = sv_next_client_id st
    \<and> map_of (sv_sessions st') =
        (map_of (sv_sessions st))(k \<mapsto> c\<lparr>cl_addr := addr, cl_tx := tx, cl_last_seen := now\<rparr>)"
proof -
  have "\<not> (case tok of Some t \<Rightarrow> \<not> validate_token t (sc_token config) | None \<Rightarrow> False)"
    using assms(2) by (auto simp: validate_token_def split: option.split)
  then have "(st', t') = (handshake_commit now \<lparr>pd_session_id = k, pd_virtual_ip = cl_virtual_ip c,
        pd_tun_config = cl_tun_config c, pd_addr = addr, pd_tx = tx\<rparr> st,
      sent (message_handshake \<lparr>hs_token = sc_token config, hs_session_id = k,
        hs_tun_config = Some (cl_tun_config c)\<rparr>) addr)"
    using assms(1,3,4) by (simp add: handle_handshake_def handshake_lookup_def Let_def)
  then show ?thesis by (cases c) (simp add: handshake_commit_def update_conv')
qed

theorem reconnect_keeps_session_witness:
  "map_of (sv_sessions (fst (handle_handshake
      \<lparr>tr_send = (\<lambda>m a t. (Inr (), t @ [(m, a)])), tr_next = (\<lambda>t. (None, t))\<rparr>
      (Inr example_server_config) 99 ''xyz'' (example_addr 4001) 8 (Some ''abc'') (Some ''admin'')
      (sy_server example_system, [])))) ''abc''
   = Some (example_client\<lparr>cl_addr := example_addr 4001, cl_tx := 8, cl_last_seen := 99\<rparr>)"
proof -
  let ?tr = "\<lparr>tr_send = (\<lambda>m a t. (Inr (), t @ [(m, a)])), tr_next = (\<lambda>t. (None, t))\<rparr>"
  obtain st' t' where run: "handle_handshake ?tr (Inr example_server_config) 99 ''xyz''
      (example_addr 4001) 8 (Some ''abc'') (Some ''admin'') (sy_server example_system, []) = (st', t')"
    by fastforce
  have "map_of (sv_sessions (sy_server example_system)) ''abc'' = Some example_client"
    by (simp add: example_system_def)
  from reconnect_keeps_session [OF this _ _ run, of "\<lambda>m a. [(m, a)]"] run show ?thesis
    by (simp add: example_server_config_def)
qed

text \<open>C36: More than 256 clients at once cannot all be served.  In every state the server can reach
  with more than 256 sessions two of them share a virtual address, and every packet for that
  address goes to the connection of the one, so that the other, on a connection of its own, gets
  none of its packets.\<close>

theorem crowded_server_misroutes:
  assumes "reach n s" and "256 < length (sv_sessions (sy_server s))"
  shows "\<exists>k c k' c'. (k, c) \<in> set (sv_sessions (sy_server s)) \<and> (k', c') \<in> set (sv_sessions (sy_server s)) \<and> k \<noteq> k'
    \<and> cl_virtual_ip c = cl_virtual_ip c'
    \<and> (\<forall>data. get_destination_ip data = Some (cl_virtual_ip c') \<longrightarrow>
        deliver_tun_packet data (sy_server s) =
          (sy_server s)\<lparr>sv_chans := (sv_chans (sy_server s))
             (cl_tx c := snd (chan_send data (sv_chans (sy_server s) (cl_tx c))))\<rparr>)"
proof -
  let ?ss = "sv_sessions (sy_server s)"
  let ?ip = "\<lambda>(k :: string, c). cl_virtual_ip c"
  have d: "distinct (map fst ?ss)" using system_inv_reach [OF assms(1)] by (simp add: system_inv_def)
  then have "card (set ?ss) = length ?ss" by (simp add: distinct_card distinct_map)
  with session_ips_few [OF assms(1)] assms(2) have "\<not> inj_on ?ip (set ?ss)"
    by (intro pigeonhole) simp
  then obtain k1 c1 k2 c2 where two: "(k1, c1) \<in> set ?ss" "(k2, c2) \<in> set ?ss" "cl_virtual_ip c1 = cl_virtual_ip c2"
    "(k1, c1) \<noteq> (k2, c2)" by (auto simp: inj_on_def)
  then have "k1 \<noteq> k2" using eq_key_imp_eq_value [OF d] by blast
  obtain c where c: "find_virtual_ip (cl_virtual_ip c1) (sy_server s) = Some c"
    using two(1) by (cases "find_virtual_ip (cl_virtual_ip c1) (sy_server s)")
      (force simp: find_virtual_ip_def find_None_iff)+
  then obtain k where k: "(k, c) \<in> set ?ss" "cl_virtual_ip c = cl_virtual_ip c1" by (auto simp: find_virtual_ip_def dest!: find_SomeD)
  have deliver: "deliver_tun_packet data (sy_server s) = (sy_server s)\<lparr>sv_chans := (sv_chans (sy_server s))
      (cl_tx c := snd (chan_send data (sv_chans (sy_server s) (cl_tx c))))\<rparr>"
    if "get_destination_ip data = Some (cl_virtual_ip c1)" for data
    using that c by (simp add: deliver_tun_packet_def)
  from \<open>k1 \<noteq> k2\<close> consider "k \<noteq> k1" | "k \<noteq> k2" by blast
  then show ?thesis using k two deliver by cases (metis, metis)
qed

theorem crowded_server_misroutes_witness:
  "\<exists>k c k' c'. (k, c) \<in> set (sv_sessions (sy_server (crowd default_server_config 257)))
    \<and> (k', c') \<in> set (sv_sessions (sy_server (crowd default_server_config 257))) \<and> k \<noteq> k'
    \<and> cl_virtual_ip c = cl_virtual_ip c'"
proof -
  have "256 < length (sv_sessions (sy_server (crowd default_server_config 257)))" by (simp add: crowd_def)
  from crowded_server_misroutes [OF crowd_reached this] show ?thesis by blast
qed

text \<open>C35: A clean-up pass keeps exactly the sessions whose handshake was at most an hour ago by a
  clock that did not step back, and keeps them unchanged.\<close>

theorem cleanup_keeps_recent:
  "set (sv_sessions (cleanup_expired_sessions now st)) =
     {(k, c) \<in> set (sv_sessions st). cl_last_seen c \<le> now \<and> now < cl_last_seen c + secs 3600}
   \<and> sv_next_client_id (cleanup_expired_sessions now st) = sv_next_client_id st"
proof -
  have "session_live now c \<longleftrightarrow> cl_last_seen c \<le> now \<and> now < cl_last_seen c + secs 3600" for c
    by (auto simp: session_live_def DURATION_MAX_def secs_def)
  then show ?thesis by (auto simp: cleanup_expired_sessions_def)
qed

text \<open>The end of a connection removes one session of its address, if it has any, and no
  session of another address.\<close>

lemma disconnect_removes_one:
  assumes "distinct (map fst (sv_sessions st))"
  shows "filter (\<lambda>(k, c). cl_addr c \<noteq> addr) (sv_sessions (handle_disconnect addr st)) =
      filter (\<lambda>(k, c). cl_addr c \<noteq> addr) (sv_sessions st)
    \<and> length (filter (\<lambda>(k, c). cl_addr c = addr) (sv_sessions (handle_disconnect addr st))) =
        length (filter (\<lambda>(k, c). cl_addr c = addr) (sv_sessions st)) - 1"
proof (cases "List.find (\<lambda>(k, c). cl_addr c = addr) (sv_sessions st)")
  case None
  then have "filter (\<lambda>(k, c). cl_addr c = addr) (sv_sessions st) = []"
    by (auto simp: find_None_iff filter_empty_conv)
  with None show ?thesis by (simp add: handle_disconnect_def)
next
  case (Some x)
  obtain k c where x: "x = (k, c)" by (cases x)
  have kc: "(k, c) \<in> set (sv_sessions st)" "cl_addr c = addr" using Some x by (auto dest: find_SomeD)
  have gone: "AList.delete k (sv_sessions st) = remove1 (k, c) (sv_sessions st)"
    using assms kc(1) by (rule delete_remove1)
  show ?thesis
    using Some x kc gone
    by (simp add: handle_disconnect_def filter_remove1 length_remove1 remove1_idem)
qed

end
