(* ===== verification/Transport.thy ===== *)
theory Transport
  imports Server
begin

text \<open>
  The three transports and the tasks that serve them: \<open>transport/tcp.rs\<close>, \<open>transport/udp.rs\<close>,
  \<open>transport/ws.rs\<close> and \<open>transport/mod.rs\<close>.  The state of a transport holds what the library
  below will deliver (the results of \<open>Framed\<close>, \<open>UdpFramed\<close> or the WebSocket stream, in order),
  which sends it will fail, and what was sent.  A task is driven by the branches its \<open>select!\<close>
  takes; each event carries what the environment answers.
\<close>

section \<open>TCP (tcp.rs)\<close>

record tcp_transport =
  tt_peer_addr :: sockaddr
  tt_results :: "(io_error + message) list"
  tt_failing :: "message \<Rightarrow> io_error option"
  tt_sent :: "message list"

definition tcp_send :: "message \<Rightarrow> sockaddr \<Rightarrow> tcp_transport \<Rightarrow> (io_error + unit) \<times> tcp_transport" where
  "tcp_send msg addr t =
     (case tt_failing t msg of
        Some e \<Rightarrow> (Inl e, t)
      | None \<Rightarrow> (Inr (), t\<lparr>tt_sent := tt_sent t @ [msg]\<rparr>))"

definition tcp_next :: "tcp_transport \<Rightarrow> (io_error + message \<times> sockaddr) option \<times> tcp_transport" where
  "tcp_next t =
     (case tt_results t of
        [] \<Rightarrow> (None, t)
      | r # rs \<Rightarrow>
          (Some (case r of Inl e \<Rightarrow> Inl e | Inr msg \<Rightarrow> Inr (msg, tt_peer_addr t)),
           t\<lparr>tt_results := rs\<rparr>))"

definition tcp_trait :: "tcp_transport transport_trait" where
  "tcp_trait = \<lparr>tr_send = tcp_send, tr_next = tcp_next\<rparr>"

section \<open>UDP (udp.rs)\<close>

record udp_transport =
  ut_results :: "(io_error + message \<times> sockaddr) list"
  ut_failing :: "message \<times> sockaddr \<Rightarrow> io_error option"
  ut_sent :: "(message \<times> sockaddr) list"

definition udp_send :: "message \<Rightarrow> sockaddr \<Rightarrow> udp_transport \<Rightarrow> (io_error + unit) \<times> udp_transport" where
  "udp_send msg addr t =
     (case ut_failing t (msg, addr) of
        Some e \<Rightarrow> (Inl e, t)
      | None \<Rightarrow> (Inr (), t\<lparr>ut_sent := ut_sent t @ [(msg, addr)]\<rparr>))"

definition udp_next :: "udp_transport \<Rightarrow> (io_error + message \<times> sockaddr) option \<times> udp_transport" where
  "udp_next t =
     (case ut_results t of [] \<Rightarrow> (None, t) | r # rs \<Rightarrow> (Some r, t\<lparr>ut_results := rs\<rparr>))"

definition udp_trait :: "udp_transport transport_trait" where
  "udp_trait = \<lparr>tr_send = udp_send, tr_next = udp_next\<rparr>"

section \<open>WebSocket (ws.rs)\<close>

datatype ws_message = WsBinary bytes | WsOther string

record ws_transport =
  wt_peer_addr :: sockaddr
  wt_results :: "(string + ws_message) list"
  wt_failing :: "ws_message \<Rightarrow> string option"
  wt_sent :: "ws_message list"

definition ws_send ::
  "prost \<Rightarrow> message \<Rightarrow> sockaddr \<Rightarrow> ws_transport \<Rightarrow> (io_error + unit) \<times> ws_transport" where
  "ws_send pb msg addr t =
     (let ws_msg = WsBinary (encode_to_vec pb msg) in
      case wt_failing t ws_msg of
        Some e \<Rightarrow> (Inl (IoFailure e), t)
      | None \<Rightarrow> (Inr (), t\<lparr>wt_sent := wt_sent t @ [ws_msg]\<rparr>))"

text \<open>The loop of \<open>next\<close>: messages that are not binary are skipped.\<close>

fun ws_next_from ::
  "prost \<Rightarrow> sockaddr \<Rightarrow> (string + ws_message) list
     \<Rightarrow> (io_error + message \<times> sockaddr) option \<times> (string + ws_message) list" where
  "ws_next_from pb peer_addr [] = (None, [])"
| "ws_next_from pb peer_addr (Inr (WsBinary bytes) # rs) =
     (ok (map_err InvalidData (case prost_decode pb bytes of Inl e \<Rightarrow> Inl e | Inr msg \<Rightarrow> Inr (Inr (msg, peer_addr)))),
      rs)"
| "ws_next_from pb peer_addr (Inr (WsOther _) # rs) = ws_next_from pb peer_addr rs"
| "ws_next_from pb peer_addr (Inl e # rs) = (Some (Inl (IoFailure e)), rs)"

definition ws_next ::
  "prost \<Rightarrow> ws_transport \<Rightarrow> (io_error + message \<times> sockaddr) option \<times> ws_transport" where
  "ws_next pb t =
     (case ws_next_from pb (wt_peer_addr t) (wt_results t) of
        (r, rs) \<Rightarrow> (r, t\<lparr>wt_results := rs\<rparr>))"

definition ws_trait :: "prost \<Rightarrow> ws_transport transport_trait" where
  "ws_trait pb = \<lparr>tr_send = ws_send pb, tr_next = ws_next pb\<rparr>"

text \<open>The certificate files of \<open>create_tls_acceptor\<close> and whether the server asks for TLS.\<close>

definition resolve_path :: "(string \<Rightarrow> bool) \<Rightarrow> string \<Rightarrow> string \<Rightarrow> string" where
  "resolve_path exists path dflt = (if exists path then path else dflt)"

definition create_tls_acceptor ::
  "(string \<Rightarrow> bool) \<Rightarrow> (string \<Rightarrow> string + bytes) \<Rightarrow> (bytes \<Rightarrow> bytes \<Rightarrow> string + 'i) \<Rightarrow> ('i \<Rightarrow> string + 'a)
     \<Rightarrow> string \<Rightarrow> string \<Rightarrow> io_error + 'a" where
  "create_tls_acceptor exists read from_pkcs8 tls_acceptor cert_path key_path =
     (let cert_path = resolve_path exists cert_path ''certs/server-cert.pem'';
          key_path = resolve_path exists key_path ''certs/server-key.pem''
      in if \<not> exists cert_path \<or> \<not> exists key_path
         then Inl (IoFailure (''Certificate or key file not found. Looking for '' @ cert_path
                    @ '' and '' @ key_path))
         else case read cert_path of
             Inl e \<Rightarrow> Inl (InvalidData (''Failed to read certificate: '' @ e))
           | Inr cert_bytes \<Rightarrow>
               (case read key_path of
                  Inl e \<Rightarrow> Inl (InvalidData (''Failed to read key: '' @ e))
                | Inr key_bytes \<Rightarrow>
                    (case from_pkcs8 cert_bytes key_bytes of
                       Inl e \<Rightarrow> Inl (InvalidData (''Failed to create identity: '' @ e))
                     | Inr identity \<Rightarrow>
                         map_err (\<lambda>e. InvalidData (''Failed to create TLS acceptor: '' @ e))
                           (tls_acceptor identity))))"

definition ws_server_tls :: "server_config \<Rightarrow> bool" where
  "ws_server_tls config = (sc_transport_type config = ''wss'')"

section \<open>A connection of the server (tcp.rs, ws.rs)\<close>

definition non_empty :: "string \<Rightarrow> string option" where
  "non_empty s = (if s = [] then None else Some s)"

text \<open>What a round of the loop works on: the server, the channel to the TUN task, the transport.\<close>

record 't conn_state =
  cn_server :: server_state
  cn_transport_tx :: "bytes chan"
  cn_transport :: 't

text \<open>
  One message: \<open>hs_addr\<close> is the address a handshake is registered under, \<open>tx\<close> the channel of
  the client.
\<close>

fun serve_message ::
  "'t transport_trait \<Rightarrow> string + server_config \<Rightarrow> nat \<Rightarrow> string \<Rightarrow> sockaddr \<Rightarrow> nat \<Rightarrow> sockaddr \<Rightarrow> message
     \<Rightarrow> 't conn_state \<Rightarrow> 't conn_state" where
  "serve_message tr loaded now fresh_id hs_addr tx src_addr (Some (Handshake handshake)) cn =
     (case handle_handshake tr loaded now fresh_id hs_addr tx
             (non_empty (hs_session_id handshake)) (non_empty (hs_token handshake))
             (cn_server cn, cn_transport cn) of
        (st, t) \<Rightarrow> cn\<lparr>cn_server := st, cn_transport := t\<rparr>)"
| "serve_message tr loaded now fresh_id hs_addr tx src_addr (Some (Data payload)) cn =
     cn\<lparr>cn_transport_tx := handle_data payload (cn_transport_tx cn)\<rparr>"
| "serve_message tr loaded now fresh_id hs_addr tx src_addr (Some (Keepalive timestamp)) cn =
     cn\<lparr>cn_transport := handle_keepalive tr src_addr timestamp (cn_transport cn)\<rparr>"
| "serve_message tr loaded now fresh_id hs_addr tx src_addr (Some (Disconnect reason)) cn =
     cn\<lparr>cn_server := handle_disconnect src_addr (cn_server cn)\<rparr>"
| "serve_message tr loaded now fresh_id hs_addr tx src_addr None cn = cn"

text \<open>
  The branch the \<open>select!\<close> takes: the transport has something (with the configuration, clock
  and session id a handshake would read), or the channel of the client has.
\<close>

datatype conn_event =
  Transport_ready "string + server_config" nat string
| Client_ready

fun connection_step ::
  "'t transport_trait \<Rightarrow> sockaddr \<Rightarrow> nat \<Rightarrow> conn_event \<Rightarrow> 't conn_state \<Rightarrow> bool \<times> 't conn_state" where
  "connection_step tr peer_addr tx (Transport_ready loaded now fresh_id) cn =
     (case tr_next tr (cn_transport cn) of
        (Some (Inr (msg, src_addr)), t) \<Rightarrow>
          (True, serve_message tr loaded now fresh_id peer_addr tx src_addr msg
                   (cn\<lparr>cn_transport := t\<rparr>))
      | (Some (Inl e), t) \<Rightarrow> (False, cn\<lparr>cn_transport := t\<rparr>)
      | (None, t) \<Rightarrow> (False, cn\<lparr>cn_transport := t\<rparr>))"
| "connection_step tr peer_addr tx Client_ready cn =
     (case chan_recv (sv_chans (cn_server cn) tx) of
        (None, ch) \<Rightarrow> (True, cn)
      | (Some None, ch) \<Rightarrow> (False, cn)
      | (Some (Some data), ch) \<Rightarrow>
          (case tr_send tr (message_data data) peer_addr (cn_transport cn) of
             (r, t) \<Rightarrow>
               (is_ok r,
                cn\<lparr>cn_server := (cn_server cn)\<lparr>sv_chans := (sv_chans (cn_server cn))(tx := ch)\<rparr>,
                   cn_transport := t\<rparr>)))"

fun connection_loop ::
  "'t transport_trait \<Rightarrow> sockaddr \<Rightarrow> nat \<Rightarrow> conn_event list \<Rightarrow> 't conn_state \<Rightarrow> bool \<times> 't conn_state" where
  "connection_loop tr peer_addr tx [] cn = (True, cn)"
| "connection_loop tr peer_addr tx (e # es) cn =
     (case connection_step tr peer_addr tx e cn of
        (False, cn) \<Rightarrow> (False, cn)
      | (True, cn) \<Rightarrow> connection_loop tr peer_addr tx es cn)"

text \<open>When the loop is left, the peer is disconnected and the receiver of its channel dropped.\<close>

definition handle_connection ::
  "'t transport_trait \<Rightarrow> sockaddr \<Rightarrow> nat \<Rightarrow> conn_event list \<Rightarrow> 't conn_state \<Rightarrow> bool \<times> 't conn_state" where
  "handle_connection tr peer_addr tx events cn =
     (case connection_loop tr peer_addr tx events cn of
        (True, cn) \<Rightarrow> (True, cn)
      | (False, cn) \<Rightarrow>
          (False,
           cn\<lparr>cn_server :=
             (let st = handle_disconnect peer_addr (cn_server cn)
              in st\<lparr>sv_chans := (sv_chans st)(tx := (sv_chans st tx)\<lparr>ch_receiver := False\<rparr>)\<rparr>)\<rparr>))"

definition handle_tcp_connection ::
  "nat \<Rightarrow> conn_event list \<Rightarrow> tcp_transport conn_state \<Rightarrow> bool \<times> tcp_transport conn_state" where
  "handle_tcp_connection tx events cn =
     handle_connection tcp_trait (tt_peer_addr (cn_transport cn)) tx events cn"

definition handle_ws_connection ::
  "prost \<Rightarrow> nat \<Rightarrow> conn_event list \<Rightarrow> ws_transport conn_state \<Rightarrow> bool \<times> ws_transport conn_state" where
  "handle_ws_connection pb tx events cn =
     handle_connection (ws_trait pb) (wt_peer_addr (cn_transport cn)) tx events cn"

section \<open>The UDP server task (udp.rs)\<close>

datatype udp_event =
  Udp_ready "string + server_config" nat string nat
| Udp_tun "bytes option"

text \<open>
  The channel given to a session is a fresh one whose receiver is dropped at once; its number
  comes with the event.
\<close>

definition dummy_channel :: "nat \<Rightarrow> message \<Rightarrow> 't conn_state \<Rightarrow> 't conn_state" where
  "dummy_channel dummy_tx msg cn =
     (case msg of
        Some (Handshake _) \<Rightarrow>
          cn\<lparr>cn_server := (cn_server cn)\<lparr>sv_chans :=
            (sv_chans (cn_server cn))(dummy_tx := chan_new\<lparr>ch_receiver := False\<rparr>)\<rparr>\<rparr>
      | _ \<Rightarrow> cn)"

fun udp_io_step :: "udp_event \<Rightarrow> udp_transport conn_state \<Rightarrow> bool \<times> udp_transport conn_state" where
  "udp_io_step (Udp_ready loaded now fresh_id dummy_tx) cn =
     (case udp_next (cn_transport cn) of
        (Some (Inr (msg, src_addr)), t) \<Rightarrow>
          (True, serve_message udp_trait loaded now fresh_id src_addr dummy_tx src_addr msg
                   (dummy_channel dummy_tx msg (cn\<lparr>cn_transport := t\<rparr>)))
      | (Some (Inl e), t) \<Rightarrow> (False, cn\<lparr>cn_transport := t\<rparr>)
      | (None, t) \<Rightarrow> (False, cn\<lparr>cn_transport := t\<rparr>))"
| "udp_io_step (Udp_tun (Some data)) cn =
     (case get_destination_ip data of
        Some dest_ip \<Rightarrow>
          (True, cn\<lparr>cn_transport := send_to_client udp_trait data dest_ip (cn_server cn) (cn_transport cn)\<rparr>)
      | None \<Rightarrow> (True, cn))"
| "udp_io_step (Udp_tun None) cn = (False, cn)"

fun udp_transport_io_task ::
  "udp_event list \<Rightarrow> udp_transport conn_state \<Rightarrow> bool \<times> udp_transport conn_state" where
  "udp_transport_io_task [] cn = (True, cn)"
| "udp_transport_io_task (e # es) cn =
     (case udp_io_step e cn of
        (False, cn) \<Rightarrow> (False, cn)
      | (True, cn) \<Rightarrow> udp_transport_io_task es cn)"

section \<open>The client's transport task (mod.rs)\<close>

record 't client_io =
  ci_transport :: 't
  ci_transport_tx :: "bytes chan"

datatype client_event =
  Server_ready u64
| Tun_ready "bytes option"
| Keepalive_tick "64 word"

text \<open>The logged latency: both operands are 64-bit and the subtraction wraps.\<close>

definition latency_ms :: "u64 \<Rightarrow> 64 word \<Rightarrow> u64" where
  "latency_ms received_timestamp sent_timestamp = received_timestamp - sent_timestamp"

fun io_error_to_string :: "io_error \<Rightarrow> string" where
  "io_error_to_string (InvalidData s) = s"
| "io_error_to_string (IoFailure s) = s"

fun client_io_step ::
  "'t transport_trait \<Rightarrow> sockaddr \<Rightarrow> client_event \<Rightarrow> 't client_io \<Rightarrow> string option \<times> 't client_io" where
  "client_io_step tr server_addr (Server_ready now) ci =
     (case tr_next tr (ci_transport ci) of
        (Some (Inr (msg, _)), t) \<Rightarrow>
          (let ci = ci\<lparr>ci_transport := t\<rparr> in
           case msg of
             Some (Data payload) \<Rightarrow>
               (case chan_send payload (ci_transport_tx ci) of
                  (Inl e, ch) \<Rightarrow> (Some (''Failed to send to TUN: '' @ e), ci)
                | (Inr _, ch) \<Rightarrow> (None, ci\<lparr>ci_transport_tx := ch\<rparr>))
           | Some (Disconnect reason) \<Rightarrow> (Some (''Server disconnected: '' @ reason), ci)
           | _ \<Rightarrow> (None, ci))
      | (Some (Inl e), t) \<Rightarrow>
          (Some (''Error receiving: '' @ io_error_to_string e), ci\<lparr>ci_transport := t\<rparr>)
      | (None, t) \<Rightarrow> (Some ''Connection closed'', ci\<lparr>ci_transport := t\<rparr>))"
| "client_io_step tr server_addr (Tun_ready (Some data)) ci =
     (case tr_send tr (message_data data) server_addr (ci_transport ci) of
        (Inl e, t) \<Rightarrow> (Some (''Failed to send to server: '' @ io_error_to_string e), ci\<lparr>ci_transport := t\<rparr>)
      | (Inr _, t) \<Rightarrow> (None, ci\<lparr>ci_transport := t\<rparr>))"
| "client_io_step tr server_addr (Tun_ready None) ci = (Some ''Channel disconnected'', ci)"
| "client_io_step tr server_addr (Keepalive_tick timestamp) ci =
     (case tr_send tr (message_keepalive timestamp) server_addr (ci_transport ci) of
        (Inl e, t) \<Rightarrow> (Some (''Keepalive failed: '' @ io_error_to_string e), ci\<lparr>ci_transport := t\<rparr>)
      | (Inr _, t) \<Rightarrow> (None, ci\<lparr>ci_transport := t\<rparr>))"

fun client_transport_io_task ::
  "'t transport_trait \<Rightarrow> sockaddr \<Rightarrow> client_event list \<Rightarrow> 't client_io \<Rightarrow> string option \<times> 't client_io" where
  "client_transport_io_task tr server_addr [] ci = (None, ci)"
| "client_transport_io_task tr server_addr (e # es) ci =
     (case client_io_step tr server_addr e ci of
        (Some err, ci) \<Rightarrow> (Some err, ci)
      | (None, ci) \<Rightarrow> client_transport_io_task tr server_addr es ci)"

section \<open>What the tasks do with a transport\<close>

text \<open>
  The receiving half of the contract: \<open>incoming t\<close> are the results \<open>next\<close> will give, in order;
  after them it gives \<open>None\<close>.  Sending does not disturb them.
\<close>

locale transport_stream = transport +
  fixes incoming :: "'a \<Rightarrow> (io_error + message \<times> sockaddr) option list"
  assumes next_incoming: "tr_next tr t = (r, t') \<Longrightarrow>
      incoming t = [] \<and> r = None \<and> incoming t' = [] \<or> incoming t = r # incoming t'"
    and send_incoming: "incoming (snd (tr_send tr m a t)) = incoming t"
begin

lemma send_keeps: "tr_send tr m a t = (r, t') \<Longrightarrow> incoming t' = incoming t"
  using send_incoming [of m a t] by simp

lemma send_frames: "tr_send tr m a t = (r, t') \<Longrightarrow> frame t' = frame t"
  using send_frame [of m a t] by simp

lemma next_keeps: "tr_next tr t = (r, t') \<Longrightarrow> wire t' = wire t \<and> frame t' = frame t"
  using next_wire [of t] next_frame [of t] by simp

end

text \<open>Whether a round of a connection polls the transport.\<close>

fun polls :: "conn_event \<Rightarrow> bool" where
  "polls (Transport_ready _ _ _) = True"
| "polls Client_ready = False"

text \<open>The packets carried by a list of results, and the messages a client task sends.\<close>

fun payloads :: "(io_error + message \<times> sockaddr) option list \<Rightarrow> bytes list" where
  "payloads [] = []"
| "payloads (Some (Inr (Some (Data p), _)) # rs) = p # payloads rs"
| "payloads (_ # rs) = payloads rs"

fun client_messages :: "client_event list \<Rightarrow> message list" where
  "client_messages [] = []"
| "client_messages (Tun_ready (Some data) # es) = message_data data # client_messages es"
| "client_messages (Keepalive_tick ts # es) = message_keepalive ts # client_messages es"
| "client_messages (_ # es) = client_messages es"

lemma payloads_append [simp]: "payloads (xs @ ys) = payloads xs @ payloads ys"
  by (induction xs rule: payloads.induct) auto

context transport_stream
begin

lemma handshake_incoming:
  "incoming (snd (handle_handshake tr loaded now fresh_id addr tx sid tok (st, t))) = incoming t"
  by (auto simp: handle_handshake_def send_incoming send_keeps
      split: prod.split handshake_outcome.split sum.split)

text \<open>Serving a message leaves the rest of the stream alone and forwards the packet in it.\<close>

lemma serve_message_effect:
  assumes "ch_receiver (cn_transport_tx cn)"
  shows "incoming (cn_transport (serve_message tr loaded now fresh_id hs_addr tx src msg cn)) =
      incoming (cn_transport cn)
    \<and> ch_queue (cn_transport_tx (serve_message tr loaded now fresh_id hs_addr tx src msg cn)) =
      ch_queue (cn_transport_tx cn) @ payloads [Some (Inr (msg, src))]
    \<and> ch_receiver (cn_transport_tx (serve_message tr loaded now fresh_id hs_addr tx src msg cn))"
proof (cases msg)
  case (Some m)
  then show ?thesis
    using assms handshake_incoming [of loaded now fresh_id hs_addr tx _ _ "cn_server cn" "cn_transport cn"]
    by (cases m)
      (auto simp: handle_data_def handle_keepalive_def send_incoming split: prod.split,
       (metis snd_conv)+)
qed (use assms in simp)

text \<open>One round consumes at most one result and forwards the packet in it.\<close>

lemma connection_step_effect:
  assumes "ch_receiver (cn_transport_tx cn)" and "connection_step tr peer tx e cn = (b, cn')"
  shows "\<exists>seen. incoming (cn_transport cn) = seen @ incoming (cn_transport cn')
    \<and> ch_queue (cn_transport_tx cn') = ch_queue (cn_transport_tx cn) @ payloads seen
    \<and> ch_receiver (cn_transport_tx cn')"
proof (cases e)
  case (Transport_ready loaded now fresh_id)
  obtain r t where n: "tr_next tr (cn_transport cn) = (r, t)"
    by (cases "tr_next tr (cn_transport cn)") auto
  show ?thesis
  proof (cases r)
    case None
    with assms n Transport_ready next_incoming [OF n] show ?thesis
      by (auto intro: exI [of _ "[]"] exI [of _ "[None]"])
  next
    case (Some res)
    then have inc: "incoming (cn_transport cn) = r # incoming t" using next_incoming [OF n] by simp
    show ?thesis
    proof (cases res)
      case (Inl e)
      with assms n Transport_ready Some inc show ?thesis
        by (auto intro: exI [of _ "[Some (Inl e)]"])
    next
      case (Inr ms)
      obtain msg src where "ms = (msg, src)" by (cases ms)
      with assms n Transport_ready Some Inr inc
        serve_message_effect [of "cn\<lparr>cn_transport := t\<rparr>" loaded now fresh_id peer tx src msg]
      show ?thesis by (auto intro!: exI [of _ "[Some (Inr (msg, src))]"])
    qed
  qed
next
  case Client_ready
  then show ?thesis
    using assms by (auto split: prod.splits option.splits intro!: exI [of _ "[]"] dest!: send_keeps)
qed

lemma connection_loop_effect:
  assumes "ch_receiver (cn_transport_tx cn)" and "connection_loop tr peer tx events cn = (b, cn')"
  shows "\<exists>seen. incoming (cn_transport cn) = seen @ incoming (cn_transport cn')
    \<and> ch_queue (cn_transport_tx cn') = ch_queue (cn_transport_tx cn) @ payloads seen"
  using assms
proof (induction events arbitrary: cn)
  case (Cons e es)
  obtain b1 cn1 where step: "connection_step tr peer tx e cn = (b1, cn1)"
    by (cases "connection_step tr peer tx e cn") auto
  from connection_step_effect [OF Cons.prems(1) step] obtain seen where
    seen: "incoming (cn_transport cn) = seen @ incoming (cn_transport cn1)"
      "ch_queue (cn_transport_tx cn1) = ch_queue (cn_transport_tx cn) @ payloads seen"
      "ch_receiver (cn_transport_tx cn1)" by blast
  show ?case
  proof (cases b1)
    case True
    with Cons.prems(2) step have "connection_loop tr peer tx es cn1 = (b, cn')" by simp
    from Cons.IH [OF seen(3) this] obtain seen' where
      "incoming (cn_transport cn1) = seen' @ incoming (cn_transport cn')"
      "ch_queue (cn_transport_tx cn') = ch_queue (cn_transport_tx cn1) @ payloads seen'" by blast
    with seen show ?thesis by (intro exI [of _ "seen @ seen'"]) simp
  next
    case False
    with Cons.prems(2) step seen show ?thesis by auto
  qed
qed (auto intro: exI [of _ "[]"])

text \<open>A connection that stays open consumes one result each time it polls the transport.\<close>

lemma connection_step_progress:
  assumes "ch_receiver (cn_transport_tx cn)" and "connection_step tr peer tx e cn = (True, cn')"
  shows "length (incoming (cn_transport cn)) = length (filter polls [e]) + length (incoming (cn_transport cn'))"
proof (cases e)
  case (Transport_ready loaded now fresh_id)
  obtain r t where n: "tr_next tr (cn_transport cn) = (r, t)"
    by (cases "tr_next tr (cn_transport cn)") auto
  from assms(2) n Transport_ready obtain msg src where r: "r = Some (Inr (msg, src))"
    by (auto split: option.splits sum.splits)
  then have "incoming (cn_transport cn) = r # incoming t" using next_incoming [OF n] by simp
  with assms n Transport_ready r
    serve_message_effect [of "cn\<lparr>cn_transport := t\<rparr>" loaded now fresh_id peer tx src msg]
  show ?thesis by auto
next
  case Client_ready
  then show ?thesis
    using assms by (auto split: prod.splits option.splits dest!: send_keeps)
qed

lemma connection_loop_progress:
  assumes "ch_receiver (cn_transport_tx cn)" and "connection_loop tr peer tx events cn = (True, cn')"
  shows "length (incoming (cn_transport cn)) = length (filter polls events) + length (incoming (cn_transport cn'))"
  using assms
proof (induction events arbitrary: cn)
  case (Cons e es)
  then obtain cn1 where step: "connection_step tr peer tx e cn = (True, cn1)"
    and rest: "connection_loop tr peer tx es cn1 = (True, cn')"
    by (auto split: prod.splits bool.splits)
  have "ch_receiver (cn_transport_tx cn1)" using connection_step_effect [OF Cons.prems(1) step] by blast
  with Cons.IH [OF _ rest] connection_step_progress [OF Cons.prems(1) step] show ?case by simp
qed simp

text \<open>A client task that has not failed sent what it was given, in order.\<close>

lemma client_task_sends:
  assumes "client_transport_io_task tr a events ci = (None, ci')"
  shows "wire (ci_transport ci') =
    wire (ci_transport ci) @ map (\<lambda>m. frame (ci_transport ci) m a) (client_messages events)"
  using assms
proof (induction events arbitrary: ci)
  case (Cons e es)
  obtain ci1 where step: "client_io_step tr a e ci = (None, ci1)"
    and rest: "client_transport_io_task tr a es ci1 = (None, ci')"
    using Cons.prems by (auto split: prod.splits option.splits)
  have "wire (ci_transport ci1) = wire (ci_transport ci)
      @ map (\<lambda>m. frame (ci_transport ci) m a) (client_messages [e])
    \<and> frame (ci_transport ci1) = frame (ci_transport ci)"
  proof (cases e)
    case (Server_ready now)
    with step show ?thesis
      by (auto simp: Let_def split: prod.splits option.splits sum.splits msg.splits dest!: next_keeps)
  next
    case (Tun_ready d)
    with step show ?thesis
      by (cases d) (auto split: prod.splits sum.splits dest: send_ok send_frames)
  next
    case (Keepalive_tick ts)
    with step show ?thesis by (auto split: prod.splits sum.splits dest: send_ok send_frames)
  qed
  moreover have "client_messages (e # es) = client_messages [e] @ client_messages es"
    by (cases "e # es" rule: client_messages.cases) auto
  ultimately show ?case using Cons.IH [OF rest] by simp
qed simp

text \<open>It forwarded every packet of the results it consumed.\<close>

lemma client_task_receives:
  assumes "client_transport_io_task tr a events ci = (None, ci')"
  shows "\<exists>seen. incoming (ci_transport ci) = seen @ incoming (ci_transport ci')
    \<and> ch_queue (ci_transport_tx ci') = ch_queue (ci_transport_tx ci) @ payloads seen"
  using assms
proof (induction events arbitrary: ci)
  case (Cons e es)
  obtain ci1 where step: "client_io_step tr a e ci = (None, ci1)"
    and rest: "client_transport_io_task tr a es ci1 = (None, ci')"
    using Cons.prems by (auto split: prod.splits option.splits)
  have "\<exists>seen. incoming (ci_transport ci) = seen @ incoming (ci_transport ci1)
    \<and> ch_queue (ci_transport_tx ci1) = ch_queue (ci_transport_tx ci) @ payloads seen"
  proof (cases e)
    case (Server_ready now)
    obtain r t where n: "tr_next tr (ci_transport ci) = (r, t)"
      by (cases "tr_next tr (ci_transport ci)") auto
    with step Server_ready obtain msg src where r: "r = Some (Inr (msg, src))"
      by (auto split: option.splits sum.splits prod.splits)
    then have "incoming (ci_transport ci) = [r] @ incoming t" using next_incoming [OF n] by simp
    moreover have "ch_queue (ci_transport_tx ci1) = ch_queue (ci_transport_tx ci) @ payloads [r]
        \<and> ci_transport ci1 = t"
      using step Server_ready n r
      by (auto simp: Let_def chan_send_def split: option.splits msg.splits if_splits)
    ultimately show ?thesis by metis
  next
    case (Tun_ready d)
    with step show ?thesis
      by (cases d) (auto split: prod.splits sum.splits dest!: send_keeps intro!: exI [of _ "[]"])
  next
    case (Keepalive_tick ts)
    with step show ?thesis
      by (auto split: prod.splits sum.splits dest!: send_keeps intro!: exI [of _ "[]"])
  qed
  then obtain seen where seen: "incoming (ci_transport ci) = seen @ incoming (ci_transport ci1)"
    "ch_queue (ci_transport_tx ci1) = ch_queue (ci_transport_tx ci) @ payloads seen" by blast
  from Cons.IH [OF rest] obtain seen' where
    "incoming (ci_transport ci1) = seen' @ incoming (ci_transport ci')"
    "ch_queue (ci_transport_tx ci') = ch_queue (ci_transport_tx ci1) @ payloads seen'" by blast
  with seen show ?case by (intro exI [of _ "seen @ seen'"]) simp
qed (auto intro: exI [of _ "[]"])

end

section \<open>The transports meet the contract\<close>

definition tcp_incoming :: "tcp_transport \<Rightarrow> (io_error + message \<times> sockaddr) option list" where
  "tcp_incoming t =
     map (\<lambda>r. Some (case r of Inl e \<Rightarrow> Inl e | Inr m \<Rightarrow> Inr (m, tt_peer_addr t))) (tt_results t)"

text \<open>A WebSocket stream: skipped messages give nothing, a frame that does not decode an end.\<close>

definition ws_result ::
  "prost \<Rightarrow> sockaddr \<Rightarrow> string + ws_message \<Rightarrow> (io_error + message \<times> sockaddr) option list" where
  "ws_result pb peer r =
     (case r of
        Inl e \<Rightarrow> [Some (Inl (IoFailure e))]
      | Inr (WsOther _) \<Rightarrow> []
      | Inr (WsBinary b) \<Rightarrow>
          [case prost_decode pb b of Inl _ \<Rightarrow> None | Inr m \<Rightarrow> Some (Inr (m, peer))])"

definition ws_incoming :: "prost \<Rightarrow> ws_transport \<Rightarrow> (io_error + message \<times> sockaddr) option list" where
  "ws_incoming pb t = concat (map (ws_result pb (wt_peer_addr t)) (wt_results t))"

lemma ws_next_from_results:
  assumes "ws_next_from pb peer rs = (r, rs')"
  shows "concat (map (ws_result pb peer) rs) = [] \<and> r = None
      \<and> concat (map (ws_result pb peer) rs') = []
    \<or> concat (map (ws_result pb peer) rs) = r # concat (map (ws_result pb peer) rs')"
  using assms
  by (induction pb peer rs rule: ws_next_from.induct) (auto simp: ws_result_def split: sum.split)

interpretation tcp: transport_stream tcp_trait tt_sent "\<lambda>t m a. m" tcp_incoming
  by unfold_locales
    (auto simp: tcp_trait_def tcp_send_def tcp_next_def tcp_incoming_def
      split: option.splits list.splits sum.splits)

interpretation udp: transport_stream udp_trait ut_sent "\<lambda>t m a. (m, a)" "\<lambda>t. map Some (ut_results t)"
  by unfold_locales
    (auto simp: udp_trait_def udp_send_def udp_next_def split: option.splits list.splits)

interpretation ws: transport_stream "ws_trait pb" wt_sent "\<lambda>t m a. WsBinary (encode_to_vec pb m)"
  "ws_incoming pb"
  for pb :: prost
  by unfold_locales
    (auto simp: ws_trait_def ws_send_def ws_next_def ws_incoming_def Let_def
      split: option.splits prod.splits dest!: ws_next_from_results)

lemma tcp_connection_effect:
  assumes "ch_receiver (cn_transport_tx cn)" and "handle_tcp_connection tx events cn = (b, cn')"
  shows "\<exists>seen. tcp_incoming (cn_transport cn) = seen @ tcp_incoming (cn_transport cn')
    \<and> ch_queue (cn_transport_tx cn') = ch_queue (cn_transport_tx cn) @ payloads seen"
proof -
  let ?loop = "connection_loop tcp_trait (tt_peer_addr (cn_transport cn)) tx events cn"
  obtain b1 cn1 where loop: "?loop = (b1, cn1)" by (cases ?loop) auto
  with assms(2) have "cn_transport cn' = cn_transport cn1 \<and> cn_transport_tx cn' = cn_transport_tx cn1"
    by (auto simp: handle_tcp_connection_def handle_connection_def split: bool.splits)
  with tcp.connection_loop_effect [OF assms(1) loop] show ?thesis by simp
qed

lemma ws_next_from_skip: "ws_next_from pb peer (map (Inr \<circ> WsOther) others @ rs) = ws_next_from pb peer rs"
  by (induction others) auto

section \<open>Properties\<close>

text \<open>Whatever a connection of the server is interleaved with, the packets in the messages it
  has consumed are handed to the TUN task in the order they arrived, each once, and nothing
  else is; messages not yet consumed stay in the stream.\<close>

lemma server_forwards_in_order:
  assumes "ch_receiver (cn_transport_tx cn)" and "handle_tcp_connection tx events cn = (b, cn')"
  shows "\<exists>seen. tcp_incoming (cn_transport cn) = seen @ tcp_incoming (cn_transport cn')
    \<and> ch_queue (cn_transport_tx cn') = ch_queue (cn_transport_tx cn) @ payloads seen"
  using assms by (rule tcp_connection_effect)

definition example_conn :: "tcp_transport conn_state" where
  "example_conn =
     \<lparr>cn_server = sy_server example_system, cn_transport_tx = chan_new,
      cn_transport = \<lparr>tt_peer_addr = example_addr 4000,
        tt_results = [Inr (message_data [1]), Inr (message_keepalive 5), Inr (message_data [2])],
        tt_failing = (\<lambda>_. None), tt_sent = []\<rparr>\<rparr>"

lemma server_forwards_in_order_example:
  "\<exists>seen. tcp_incoming (cn_transport example_conn) = seen @ tcp_incoming (cn_transport
        (snd (handle_tcp_connection 7 (replicate 2 (Transport_ready (Inl ''none'') 0 [])) example_conn)))
    \<and> ch_queue (cn_transport_tx
        (snd (handle_tcp_connection 7 (replicate 2 (Transport_ready (Inl ''none'') 0 [])) example_conn)))
      = payloads seen"
proof -
  have "ch_receiver (cn_transport_tx example_conn)" and "ch_queue (cn_transport_tx example_conn) = []"
    by (simp_all add: example_conn_def chan_new_def)
  with server_forwards_in_order [of example_conn 7 "replicate 2 (Transport_ready (Inl ''none'') 0 [])"]
  show ?thesis by (metis append_Nil prod.collapse)
qed

text \<open>As long as the client's task runs without error, the server is sent exactly the packets
  read from the TUN device and the keepalives, in the order of the events, and the TUN device
  exactly the packets of the messages consumed from the server.\<close>

lemma client_relays_in_order:
  assumes "client_transport_io_task tcp_trait server_addr events ci = (None, ci')"
  shows "tt_sent (ci_transport ci') = tt_sent (ci_transport ci) @ client_messages events
    \<and> (\<exists>seen. tcp_incoming (ci_transport ci) = seen @ tcp_incoming (ci_transport ci')
        \<and> ch_queue (ci_transport_tx ci') = ch_queue (ci_transport_tx ci) @ payloads seen)"
  using tcp.client_task_sends [OF assms] tcp.client_task_receives [OF assms] by simp

definition example_client_io :: "tcp_transport client_io" where
  "example_client_io = \<lparr>ci_transport = cn_transport example_conn, ci_transport_tx = chan_new\<rparr>"

lemma client_relays_in_order_example:
  "tt_sent (ci_transport (snd (client_transport_io_task tcp_trait (example_addr 1)
     [Tun_ready (Some [9]), Server_ready 0, Keepalive_tick 3] example_client_io))) =
   [message_data [9], message_keepalive 3]"
proof -
  have "fst (client_transport_io_task tcp_trait (example_addr 1)
     [Tun_ready (Some [9]), Server_ready 0, Keepalive_tick 3] example_client_io) = None"
    by (simp add: example_client_io_def example_conn_def tcp_trait_def tcp_send_def tcp_next_def
        message_data_def chan_new_def)
  then have "client_transport_io_task tcp_trait (example_addr 1)
     [Tun_ready (Some [9]), Server_ready 0, Keepalive_tick 3] example_client_io =
    (None, snd (client_transport_io_task tcp_trait (example_addr 1)
     [Tun_ready (Some [9]), Server_ready 0, Keepalive_tick 3] example_client_io))"
    by (simp add: prod_eq_iff)
  from conjunct1 [OF client_relays_in_order [OF this]] show ?thesis
    by (simp add: example_client_io_def example_conn_def)
qed

text \<open>C37: Over a WebSocket, the next message is the first binary frame whatever other frames come
  before it; a frame that does not decode is reported as the end of the connection, not as an
  error.\<close>

theorem ws_next_first_binary:
  assumes "wt_results t = map (Inr \<circ> WsOther) others @ Inr (WsBinary b) # rest"
  shows "ws_next pb t =
    (case prost_decode pb b of Inr m \<Rightarrow> Some (Inr (m, wt_peer_addr t)) | Inl _ \<Rightarrow> None,
     t\<lparr>wt_results := rest\<rparr>)"
  using assms by (simp add: ws_next_def ws_next_from_skip split: sum.split)

theorem ws_next_first_binary_witness:
  "fst (ws_next data_prost \<lparr>wt_peer_addr = example_addr 1,
     wt_results = [Inr (WsOther ''ping''), Inr (WsBinary [5])], wt_failing = (\<lambda>_. None),
     wt_sent = []\<rparr>) = Some (Inr (message_data [5], example_addr 1))"
  using ws_next_first_binary [of "\<lparr>wt_peer_addr = example_addr 1,
     wt_results = [Inr (WsOther ''ping''), Inr (WsBinary [5])], wt_failing = (\<lambda>_. None),
     wt_sent = []\<rparr>" "[''ping'']" "[5]" "[]" data_prost]
  by (simp add: data_prost_def)

end
