(* ===== verification/Network.thy ===== *)
theory Network
  imports Packet_Route Transport "HOL-Library.Sublist"
begin

text \<open>
  A client and a server at work: the four tasks that move packets (\<open>tun_io_task\<close> on both sides,
  \<open>client_transport_io_task\<close>, \<open>handle_tcp_connection\<close>) and the loop of \<open>handle_tun_packet\<close>, joined
  by the channels that \<open>run_connected_client\<close> and \<open>run_tcp_server\<close> create and by a TCP connection
  that carries frames of the codec.  Every event is one round of one task, taken when its input
  is there and the channel it sends to has room for what it sends, so a list of events is one interleaving of the
  tasks.  Theorems speak of all of them.
\<close>

section \<open>One direction of the connection\<close>

text \<open>
  Bytes on their way, and the decoder of the receiving \<open>Framed\<close> with its buffer.  \<open>Framed\<close> hands
  what it reads to the decoder until that asks for more.
\<close>

record pipe =
  pp_wire :: bytes
  pp_codec :: byte_codec
  pp_buffer :: bytes

definition pipe_new :: pipe where
  "pipe_new = \<lparr>pp_wire = [], pp_codec = byte_codec_new, pp_buffer = []\<rparr>"

text \<open>What a transport has sent since it was in the state \<open>old\<close> goes on the wire, encoded.\<close>

definition pipe_write :: "prost \<Rightarrow> tcp_transport \<Rightarrow> tcp_transport \<Rightarrow> pipe \<Rightarrow> pipe" where
  "pipe_write pb old new p =
     p\<lparr>pp_wire := snd (encode_all pb byte_codec_new (drop (length (tt_sent old)) (tt_sent new)) (pp_wire p))\<rparr>"

text \<open>A read of at most \<open>n\<close> bytes: the results it makes available.\<close>

definition pipe_read :: "prost \<Rightarrow> nat \<Rightarrow> pipe \<Rightarrow> (io_error + message) list \<times> pipe" where
  "pipe_read pb n p =
     (case drain pb (pp_codec p) (pp_buffer p @ take n (pp_wire p)) of
        (ms, e, codec, buffer) \<Rightarrow>
          (map Inr ms @ (case e of None \<Rightarrow> [] | Some e \<Rightarrow> [Inl e]),
           \<lparr>pp_wire = drop n (pp_wire p), pp_codec = codec, pp_buffer = buffer\<rparr>))"

text \<open>A send of \<open>Framed\<close> fails when the encoder does; the connection itself stays up.\<close>

definition framed_failing :: "prost \<Rightarrow> message \<Rightarrow> io_error option" where
  "framed_failing pb m = (case encode pb byte_codec_new m [] of (Inl e, _) \<Rightarrow> Some e | (Inr _, _) \<Rightarrow> None)"

section \<open>The network\<close>

record network =
  nt_ctun :: tun_io
  nt_client :: "tcp_transport client_io"
  nt_up :: pipe
  nt_conn :: "tcp_transport conn_state"
  nt_stun :: tun_io
  nt_down :: pipe

text \<open>
  What does not change: the libraries and rules of both sides, the address the client sends to
  and the client's session, with its virtual address and the channel of its connection.
\<close>

record ('n, 'm) net_params =
  np_pb :: prost
  np_cenv :: "'n route_env"
  np_senv :: "'m route_env"
  np_server_addr :: sockaddr
  np_session :: client

text \<open>A round of a task: what it was, and what the environment answers in it.\<close>

datatype net_event =
  C_tun_read bytes nat
| C_tun_direct bytes "nat \<Rightarrow> nat"
| C_tun_write "nat \<Rightarrow> nat"
| C_send
| C_keepalive "64 word"
| C_receive u64
| Up_read nat
| S_receive "string + server_config" nat string
| S_send
| S_tun_read bytes nat
| S_tun_direct bytes "nat \<Rightarrow> nat"
| S_tun_write "nat \<Rightarrow> nat"
| S_route
| S_other nat
| S_cleanup nat
| Down_read nat

definition received :: "'a chan \<Rightarrow> ('a \<times> 'a chan) option" where
  "received ch = (case chan_recv ch of (Some (Some x), ch) \<Rightarrow> Some (x, ch) | _ \<Rightarrow> None)"

text \<open>
  A round that leaves a task running and its channel within its bound.  The channels to the
  direct proxies are read by tasks outside this network.
\<close>

definition ctun_round :: "('n, 'm) net_params \<Rightarrow> tun_event \<Rightarrow> network \<Rightarrow> network option" where
  "ctun_round np ev s =
     (case tun_io_step (np_cenv np) ev (nt_ctun s) of
        (None, st) \<Rightarrow> if within (io_tun_tx st) then Some (s\<lparr>nt_ctun := st\<rparr>) else None
      | (Some e, st) \<Rightarrow> None)"

definition stun_round :: "('n, 'm) net_params \<Rightarrow> tun_event \<Rightarrow> network \<Rightarrow> network option" where
  "stun_round np ev s =
     (case tun_io_step (np_senv np) ev (nt_stun s) of
        (None, st) \<Rightarrow> if within (io_tun_tx st) then Some (s\<lparr>nt_stun := st\<rparr>) else None
      | (Some e, st) \<Rightarrow> None)"

definition client_round :: "('n, 'm) net_params \<Rightarrow> client_event \<Rightarrow> network \<Rightarrow> network option" where
  "client_round np ev s =
     (case client_io_step tcp_trait (np_server_addr np) ev (nt_client s) of
        (None, ci) \<Rightarrow>
          if within (ci_transport_tx ci)
          then Some (s\<lparr>nt_client := ci,
            nt_up := pipe_write (np_pb np) (ci_transport (nt_client s)) (ci_transport ci) (nt_up s)\<rparr>)
          else None
      | (Some e, ci) \<Rightarrow> None)"

definition conn_round :: "('n, 'm) net_params \<Rightarrow> conn_event \<Rightarrow> network \<Rightarrow> network option" where
  "conn_round np ev s =
     (case connection_step tcp_trait (tt_peer_addr (cn_transport (nt_conn s))) (cl_tx (np_session np)) ev
             (nt_conn s) of
        (True, cn) \<Rightarrow>
          if within (cn_transport_tx cn)
          then Some (s\<lparr>nt_conn := cn,
            nt_down := pipe_write (np_pb np) (cn_transport (nt_conn s)) (cn_transport cn) (nt_down s)\<rparr>)
          else None
      | (False, cn) \<Rightarrow> None)"

definition update_server :: "(server_state \<Rightarrow> server_state) \<Rightarrow> network \<Rightarrow> network" where
  "update_server f s = s\<lparr>nt_conn := (nt_conn s)\<lparr>cn_server := f (cn_server (nt_conn s))\<rparr>\<rparr>"

text \<open>Whether \<open>handle_tun_packet\<close> finishes with a packet: the channel it sends to, if any, has room.\<close>

definition can_deliver :: "bytes \<Rightarrow> server_state \<Rightarrow> bool" where
  "can_deliver data st =
     (case get_destination_ip data of
        None \<Rightarrow> True
      | Some dest_ip \<Rightarrow>
          (case find_virtual_ip dest_ip st of
             None \<Rightarrow> True
           | Some client \<Rightarrow>
               (case chan_send data (sv_chans st (cl_tx client)) of (Inl _, _) \<Rightarrow> True | (Inr _, ch) \<Rightarrow> within ch)))"

definition available :: "(io_error + message) list \<Rightarrow> tcp_transport \<Rightarrow> tcp_transport" where
  "available rs t = t\<lparr>tt_results := tt_results t @ rs\<rparr>"

fun net_step :: "('n, 'm) net_params \<Rightarrow> net_event \<Rightarrow> network \<Rightarrow> network option" where
  "net_step np (C_tun_read data now) s =
     (if length data \<le> TUN_MTU then ctun_round np (From_tun (Inr data) now) s else None)"
| "net_step np (C_tun_direct data clock) s = ctun_round np (From_direct (Some data) clock None) s"
| "net_step np (C_tun_write clock) s =
     (case received (ci_transport_tx (nt_client s)) of
        None \<Rightarrow> None
      | Some (data, ch) \<Rightarrow>
          ctun_round np (From_transport (Some data) clock None)
            (s\<lparr>nt_client := (nt_client s)\<lparr>ci_transport_tx := ch\<rparr>\<rparr>))"
| "net_step np C_send s =
     (case received (io_tun_tx (nt_ctun s)) of
        None \<Rightarrow> None
      | Some (data, ch) \<Rightarrow>
          client_round np (Tun_ready (Some data)) (s\<lparr>nt_ctun := (nt_ctun s)\<lparr>io_tun_tx := ch\<rparr>\<rparr>))"
| "net_step np (C_keepalive timestamp) s = client_round np (Keepalive_tick timestamp) s"
| "net_step np (C_receive now) s =
     (if tt_results (ci_transport (nt_client s)) = [] then None else client_round np (Server_ready now) s)"
| "net_step np (Up_read n) s =
     (case pipe_read (np_pb np) n (nt_up s) of
        (rs, p) \<Rightarrow>
          Some (s\<lparr>nt_up := p,
            nt_conn := (nt_conn s)\<lparr>cn_transport := available rs (cn_transport (nt_conn s))\<rparr>\<rparr>))"
| "net_step np (S_receive loaded now fresh_id) s =
     (if tt_results (cn_transport (nt_conn s)) = [] then None
      else conn_round np (Transport_ready loaded now fresh_id) s)"
| "net_step np S_send s = conn_round np Client_ready s"
| "net_step np (S_tun_read data now) s =
     (if length data \<le> TUN_MTU then stun_round np (From_tun (Inr data) now) s else None)"
| "net_step np (S_tun_direct data clock) s = stun_round np (From_direct (Some data) clock None) s"
| "net_step np (S_tun_write clock) s =
     (case received (cn_transport_tx (nt_conn s)) of
        None \<Rightarrow> None
      | Some (data, ch) \<Rightarrow>
          stun_round np (From_transport (Some data) clock None)
            (s\<lparr>nt_conn := (nt_conn s)\<lparr>cn_transport_tx := ch\<rparr>\<rparr>))"
| "net_step np S_route s =
     (case received (io_tun_tx (nt_stun s)) of
        None \<Rightarrow> None
      | Some (data, ch) \<Rightarrow>
          (if can_deliver data (cn_server (nt_conn s))
           then Some (update_server (deliver_tun_packet data) (s\<lparr>nt_stun := (nt_stun s)\<lparr>io_tun_tx := ch\<rparr>\<rparr>))
           else None))"
| "net_step np (S_other tx) s =
     (if tx = cl_tx (np_session np) then None
      else case received (sv_chans (cn_server (nt_conn s)) tx) of
        None \<Rightarrow> None
      | Some (data, ch) \<Rightarrow> Some (update_server (\<lambda>st. st\<lparr>sv_chans := (sv_chans st)(tx := ch)\<rparr>) s))"
| "net_step np (S_cleanup now) s = Some (update_server (cleanup_expired_sessions now) s)"
| "net_step np (Down_read n) s =
     (case pipe_read (np_pb np) n (nt_down s) of
        (rs, p) \<Rightarrow>
          Some (s\<lparr>nt_down := p,
            nt_client := (nt_client s)\<lparr>ci_transport := available rs (ci_transport (nt_client s))\<rparr>\<rparr>))"

text \<open>The rounds of the two TUN tasks that an event consists of, with the packets in them.\<close>

datatype net_obs = Client_tun tun_event | Server_tun tun_event

fun observe :: "net_event \<Rightarrow> network \<Rightarrow> net_obs list" where
  "observe (C_tun_read data now) s = [Client_tun (From_tun (Inr data) now)]"
| "observe (C_tun_direct data clock) s = [Client_tun (From_direct (Some data) clock None)]"
| "observe (C_tun_write clock) s =
     [Client_tun (From_transport (map_option fst (received (ci_transport_tx (nt_client s)))) clock None)]"
| "observe (S_tun_read data now) s = [Server_tun (From_tun (Inr data) now)]"
| "observe (S_tun_direct data clock) s = [Server_tun (From_direct (Some data) clock None)]"
| "observe (S_tun_write clock) s =
     [Server_tun (From_transport (map_option fst (received (cn_transport_tx (nt_conn s)))) clock None)]"
| "observe _ s = []"

text \<open>A run: what is seen of it at the TUN devices, and the state it ends in.\<close>

fun net_run :: "('n, 'm) net_params \<Rightarrow> net_event list \<Rightarrow> network \<Rightarrow> (net_obs list \<times> network) option" where
  "net_run np [] s = Some ([], s)"
| "net_run np (e # es) s =
     (case net_step np e s of
        None \<Rightarrow> None
      | Some s' \<Rightarrow> map_option (\<lambda>(tr, s''). (observe e s @ tr, s'')) (net_run np es s'))"

text \<open>Both sides just after the handshake: nothing is under way.\<close>

definition tcp_idle :: "prost \<Rightarrow> tcp_transport \<Rightarrow> bool" where
  "tcp_idle pb t \<longleftrightarrow> tt_failing t = framed_failing pb \<and> tt_results t = []"

definition session_ok :: "client \<Rightarrow> server_state \<Rightarrow> bool" where
  "session_ok c st \<longleftrightarrow>
     find_virtual_ip (cl_virtual_ip c) st = Some c
     \<and> (\<forall>(k, c') \<in> set (sv_sessions st). cl_tx c' = cl_tx c \<longrightarrow> cl_virtual_ip c' = cl_virtual_ip c)"

definition net_start :: "('n, 'm) net_params \<Rightarrow> network \<Rightarrow> bool" where
  "net_start np s \<longleftrightarrow>
     nt_ctun s = tun_io_start chan_new chan_new \<and> nt_stun s = tun_io_start chan_new chan_new
     \<and> ci_transport_tx (nt_client s) = chan_new \<and> cn_transport_tx (nt_conn s) = chan_new
     \<and> sv_chans (cn_server (nt_conn s)) (cl_tx (np_session np)) = chan_new
     \<and> (\<forall>tx. within (sv_chans (cn_server (nt_conn s)) tx))
     \<and> tcp_idle (np_pb np) (ci_transport (nt_client s)) \<and> tcp_idle (np_pb np) (cn_transport (nt_conn s))
     \<and> nt_up s = pipe_new \<and> nt_down s = pipe_new
     \<and> session_ok (np_session np) (cn_server (nt_conn s))"

section \<open>What should happen\<close>

fun client_events :: "net_obs list \<Rightarrow> tun_event list" where
  "client_events [] = []"
| "client_events (Client_tun ev # tr) = ev # client_events tr"
| "client_events (Server_tun ev # tr) = client_events tr"

fun server_events :: "net_obs list \<Rightarrow> tun_event list" where
  "server_events [] = []"
| "server_events (Client_tun ev # tr) = server_events tr"
| "server_events (Server_tun ev # tr) = ev # server_events tr"

fun from_tunnel :: "tun_event list \<Rightarrow> bytes list" where
  "from_tunnel [] = []"
| "from_tunnel (From_transport (Some data) clock werr # es) = data # from_tunnel es"
| "from_tunnel (_ # es) = from_tunnel es"

definition for_session :: "('n, 'm) net_params \<Rightarrow> bytes \<Rightarrow> bool" where
  "for_session np data \<longleftrightarrow> get_destination_ip data = Some (cl_virtual_ip (np_session np))"

text \<open>
  Upwards: the packets the client's rules send to the tunnel, and those written to the server's
  device.  Downwards: the packets for the client's address that the server's rules send to the
  tunnel, and those written to the client's device.
\<close>

definition sent_up :: "('n, 'm) net_params \<Rightarrow> net_obs list \<Rightarrow> bytes list" where
  "sent_up np tr = sent_to To_tunnel (spec_routes (np_cenv np) (client_events tr) (\<lambda>_ _. None))"

definition delivered_up :: "net_obs list \<Rightarrow> bytes list" where
  "delivered_up tr = from_tunnel (server_events tr)"

definition sent_down :: "('n, 'm) net_params \<Rightarrow> net_obs list \<Rightarrow> bytes list" where
  "sent_down np tr =
     filter (for_session np) (sent_to To_tunnel (spec_routes (np_senv np) (server_events tr) (\<lambda>_ _. None)))"

definition delivered_down :: "net_obs list \<Rightarrow> bytes list" where
  "delivered_down tr = from_tunnel (client_events tr)"

text \<open>The packets and keepalives the two ends exchange, and what is expected of their coding.\<close>

fun carried :: "message \<Rightarrow> bool" where
  "carried (Some (Data p)) \<longleftrightarrow> length p \<le> TUN_MTU"
| "carried (Some (Keepalive _)) \<longleftrightarrow> True"
| "carried _ \<longleftrightarrow> False"

definition coding_ok :: "prost \<Rightarrow> bool" where
  "coding_ok pb \<longleftrightarrow>
     (\<forall>m. carried m \<longrightarrow> prost_decode pb (encode_to_vec pb m) = Inr m
        \<and> HEADER_SIZE + length (encode_to_vec pb m) \<le> DEFAULT_MAX_FRAME_SIZE)"

section \<open>The connection carries messages in order\<close>

definition in_flight :: "prost \<Rightarrow> pipe \<Rightarrow> message list" where
  "in_flight pb p = fst (drain pb (pp_codec p) (pp_buffer p @ pp_wire p))"

definition pipe_ok :: "prost \<Rightarrow> pipe \<Rightarrow> bool" where
  "pipe_ok pb p \<longleftrightarrow>
     drain pb (pp_codec p) (pp_buffer p @ pp_wire p) = (in_flight pb p, None, byte_codec_new, [])
     \<and> list_all carried (in_flight pb p)"

lemma drain_new_Nil: "drain pb byte_codec_new [] = ([], None, byte_codec_new, [])"
  by (subst drain.simps) (simp add: decode_Head byte_codec_new_def default_byte_codec_def)

lemma pipe_ok_new [simp]: "pipe_ok pb pipe_new" "in_flight pb pipe_new = []"
  by (simp_all add: pipe_ok_def in_flight_def pipe_new_def drain_new_Nil)

lemma coding_fits:
  assumes "coding_ok pb" and "carried m"
  shows "encode_all pb byte_codec_new [m] dst = (Inr (), snd (encode_all pb byte_codec_new [m] dst))"
    and "faithful pb m" and "framed_failing pb m = None"
  using assms
  by (auto simp: coding_ok_def encode_cases faithful_def framed_failing_def HEADER_SIZE_def byte_codec_new_def
      default_byte_codec_def not_less)

lemma pipe_write_none [simp]: "tt_sent new = tt_sent old \<Longrightarrow> pipe_write pb old new p = p"
  by (simp add: pipe_write_def)

lemma pipe_write_one:
  assumes "coding_ok pb" and "carried m" and "pipe_ok pb p" and "tt_sent new = tt_sent old @ [m]"
  shows "pipe_ok pb (pipe_write pb old new p) \<and> in_flight pb (pipe_write pb old new p) = in_flight pb p @ [m]"
proof -
  have limits: "bc_state byte_codec_new = Head" "bc_max_frame_size byte_codec_new < 2 ^ 32"
    by (simp_all add: byte_codec_new_def default_byte_codec_def DEFAULT_MAX_FRAME_SIZE_def)
  from drain_frames [OF _ limits coding_fits(1) [OF assms(1,2), of "pp_wire p"]] coding_fits(2) [OF assms(1,2)]
  obtain frames where "pp_wire (pipe_write pb old new p) = pp_wire p @ frames"
    and "drain pb byte_codec_new frames = ([m], None, byte_codec_new, [])"
    by (auto simp: pipe_write_def assms(4))
  moreover have "pp_codec (pipe_write pb old new p) = pp_codec p"
    "pp_buffer (pipe_write pb old new p) = pp_buffer p" by (simp_all add: pipe_write_def)
  ultimately have "drain pb (pp_codec (pipe_write pb old new p))
      (pp_buffer (pipe_write pb old new p) @ pp_wire (pipe_write pb old new p))
      = (in_flight pb p @ [m], None, byte_codec_new, [])"
    using assms(3) bc.run_append [of pb "pp_codec p" "pp_buffer p @ pp_wire p" frames]
    by (simp add: pipe_ok_def)
  then show ?thesis using assms(2,3) by (simp add: pipe_ok_def in_flight_def)
qed

lemma pipe_read_effect:
  assumes "pipe_ok pb p" and "pipe_read pb n p = (rs, p')"
  shows "\<exists>ms. rs = map Inr ms \<and> in_flight pb p = ms @ in_flight pb p' \<and> pipe_ok pb p' \<and> list_all carried ms
    \<and> (length (pp_wire p) \<le> n \<longrightarrow> in_flight pb p' = [])"
proof -
  obtain ms e codec buffer where d: "drain pb (pp_codec p) (pp_buffer p @ take n (pp_wire p)) = (ms, e, codec, buffer)"
    by (cases "drain pb (pp_codec p) (pp_buffer p @ take n (pp_wire p))") auto
  have all: "drain pb (pp_codec p) ((pp_buffer p @ take n (pp_wire p)) @ drop n (pp_wire p))
      = (in_flight pb p, None, byte_codec_new, [])"
    using assms(1) by (simp add: pipe_ok_def)
  then have e: "e = None"
    using bc.run_append [of pb "pp_codec p" "pp_buffer p @ take n (pp_wire p)" "drop n (pp_wire p)"] d
    by (auto split: option.splits)
  with assms(2) d have p': "p' = \<lparr>pp_wire = drop n (pp_wire p), pp_codec = codec, pp_buffer = buffer\<rparr>"
    and rs: "rs = map Inr ms" by (auto simp: pipe_read_def)
  obtain ms' e' c' r' where d': "drain pb codec (buffer @ drop n (pp_wire p)) = (ms', e', c', r')"
    by (cases "drain pb codec (buffer @ drop n (pp_wire p))") auto
  then have fl: "in_flight pb p = ms @ ms'" "e' = None" "c' = byte_codec_new" "r' = []"
    using all d e bc.run_append [of pb "pp_codec p" "pp_buffer p @ take n (pp_wire p)" "drop n (pp_wire p)"]
    by auto
  then have "in_flight pb p' = ms'" "pipe_ok pb p'" "list_all carried ms"
    using d' p' assms(1) by (auto simp: pipe_ok_def in_flight_def)
  moreover have "ms' = []" if "length (pp_wire p) \<le> n"
    using that all d d' drain_new_Nil [of pb] fl(3,4) by (auto simp: fl(1))
  ultimately show ?thesis using rs fl(1) by auto
qed

section \<open>What is under way\<close>

fun datas :: "message list \<Rightarrow> bytes list" where
  "datas [] = []"
| "datas (Some (Data p) # ms) = p # datas ms"
| "datas (_ # ms) = datas ms"

lemma datas_append [simp]: "datas (ms @ ms') = datas ms @ datas ms'"
  by (induction ms rule: datas.induct) auto

lemma datas_simps [simp]: "datas [message_data p] = [p]" "datas [message_keepalive t] = []"
  by (simp_all add: message_data_def message_keepalive_def)

lemma carried_simps [simp]: "carried (message_data p) \<longleftrightarrow> length p \<le> TUN_MTU" "carried (message_keepalive t)"
  by (simp_all add: message_data_def message_keepalive_def)

abbreviation small :: "bytes \<Rightarrow> bool" where
  "small p \<equiv> length p \<le> TUN_MTU"

text \<open>The messages a transport has for its task.\<close>

definition arrived :: "tcp_transport \<Rightarrow> message list" where
  "arrived t = map projr (tt_results t)"

definition half_ok :: "prost \<Rightarrow> tcp_transport \<Rightarrow> bool" where
  "half_ok pb t \<longleftrightarrow>
     tt_failing t = framed_failing pb \<and> tt_results t = map Inr (arrived t) \<and> list_all carried (arrived t)"

definition client_queue :: "('n, 'm) net_params \<Rightarrow> network \<Rightarrow> bytes chan" where
  "client_queue np s = sv_chans (cn_server (nt_conn s)) (cl_tx (np_session np))"

definition link_ok :: "('n, 'm) net_params \<Rightarrow> network \<Rightarrow> bool" where
  "link_ok np s \<longleftrightarrow>
     ch_receiver (ci_transport_tx (nt_client s)) \<and> ch_receiver (cn_transport_tx (nt_conn s))
     \<and> ch_receiver (client_queue np s)
     \<and> half_ok (np_pb np) (ci_transport (nt_client s)) \<and> half_ok (np_pb np) (cn_transport (nt_conn s))
     \<and> pipe_ok (np_pb np) (nt_up s) \<and> pipe_ok (np_pb np) (nt_down s)
     \<and> list_all small (ch_queue (io_tun_tx (nt_ctun s))) \<and> list_all small (ch_queue (io_tun_tx (nt_stun s)))
     \<and> list_all small (ch_queue (client_queue np s))
     \<and> within (ci_transport_tx (nt_client s)) \<and> within (cn_transport_tx (nt_conn s))
     \<and> within (io_tun_tx (nt_ctun s)) \<and> within (io_tun_tx (nt_stun s))
     \<and> (\<forall>tx. within (sv_chans (cn_server (nt_conn s)) tx))
     \<and> session_ok (np_session np) (cn_server (nt_conn s))"

text \<open>The packets on their way, the oldest first.\<close>

definition up_transit :: "('n, 'm) net_params \<Rightarrow> network \<Rightarrow> bytes list" where
  "up_transit np s =
     ch_queue (cn_transport_tx (nt_conn s)) @ datas (arrived (cn_transport (nt_conn s)))
     @ datas (in_flight (np_pb np) (nt_up s)) @ ch_queue (io_tun_tx (nt_ctun s))"

definition down_transit :: "('n, 'm) net_params \<Rightarrow> network \<Rightarrow> bytes list" where
  "down_transit np s =
     ch_queue (ci_transport_tx (nt_client s)) @ datas (arrived (ci_transport (nt_client s)))
     @ datas (in_flight (np_pb np) (nt_down s)) @ ch_queue (client_queue np s)
     @ filter (for_session np) (ch_queue (io_tun_tx (nt_stun s)))"

text \<open>What a step does to them: what it puts in and takes out, upwards and downwards.\<close>

definition moves ::
  "('n, 'm) net_params \<Rightarrow> network \<Rightarrow> network \<Rightarrow> bytes list \<Rightarrow> bytes list \<Rightarrow> bytes list \<Rightarrow> bytes list \<Rightarrow> bool" where
  "moves np s s' up_in up_out down_in down_out \<longleftrightarrow>
     link_ok np s' \<and> up_transit np s @ up_in = up_out @ up_transit np s'
     \<and> down_transit np s @ down_in = down_out @ down_transit np s'"

lemmas transit_defs = moves_def link_ok_def up_transit_def down_transit_def client_queue_def

lemma received_Some:
  "received ch = Some (x, ch') \<longleftrightarrow> (\<exists>xs. ch_queue ch = x # xs \<and> ch' = ch\<lparr>ch_queue := xs\<rparr>)"
  by (auto simp: received_def chan_recv_def split: list.splits)

fun small_read :: "tun_event \<Rightarrow> bool" where
  "small_read (From_tun (Inr p) now) \<longleftrightarrow> small p"
| "small_read _ \<longleftrightarrow> True"

lemma within_pop: "within ch \<Longrightarrow> ch_queue ch = x # xs \<Longrightarrow> within (ch\<lparr>ch_queue := xs\<rparr>)"
  by (simp add: within_def)

lemma routed_small: "small_read ev \<Longrightarrow> list_all small (sent_to dest (spec_routes env [ev] m))"
  by (cases "(env, [ev], m)" rule: spec_routes.cases) (auto simp: sent_if_def)

lemma moves_ctun:
  assumes "link_ok np s" and "io_ok t m (nt_ctun s)" and "event_ok ev" and "\<forall>u \<in> set (lookup_times [ev]). t \<le> u"
    and "small_read ev" and "ctun_round np ev s = Some s'"
  shows "moves np s s' (sent_to To_tunnel (spec_routes (np_cenv np) [ev] m)) [] [] []
    \<and> io_ok (next_time ev t) (next_map (np_cenv np) ev m) (nt_ctun s') \<and> nt_stun s' = nt_stun s"
proof -
  obtain c where "tun_io_step (np_cenv np) ev (nt_ctun s) = (None,
      (nt_ctun s)\<lparr>io_cache := c,
         io_tun_tx := (io_tun_tx (nt_ctun s))\<lparr>ch_queue := ch_queue (io_tun_tx (nt_ctun s))
           @ sent_to To_tunnel (spec_routes (np_cenv np) [ev] m)\<rparr>,
         io_direct_tx := (io_direct_tx (nt_ctun s))\<lparr>ch_queue := ch_queue (io_direct_tx (nt_ctun s))
           @ sent_to To_direct (spec_routes (np_cenv np) [ev] m)\<rparr>,
         io_written := io_written (nt_ctun s) @ inbound [ev]\<rparr>)"
    and "cache_invar c" "same_live (next_time ev t) (cache_expiry c) (next_map (np_cenv np) ev m)"
    using step_meets_spec [OF assms(2-4)] by blast
  with assms(1,2,6) routed_small [OF assms(5)] show ?thesis
    by (auto simp: ctun_round_def transit_defs io_ok_def split: if_splits)
qed

lemma moves_stun:
  assumes "link_ok np s" and "io_ok t m (nt_stun s)" and "event_ok ev" and "\<forall>u \<in> set (lookup_times [ev]). t \<le> u"
    and "small_read ev" and "stun_round np ev s = Some s'"
  shows "moves np s s' [] [] (filter (for_session np) (sent_to To_tunnel (spec_routes (np_senv np) [ev] m))) []
    \<and> io_ok (next_time ev t) (next_map (np_senv np) ev m) (nt_stun s') \<and> nt_ctun s' = nt_ctun s"
proof -
  obtain c where "tun_io_step (np_senv np) ev (nt_stun s) = (None,
      (nt_stun s)\<lparr>io_cache := c,
         io_tun_tx := (io_tun_tx (nt_stun s))\<lparr>ch_queue := ch_queue (io_tun_tx (nt_stun s))
           @ sent_to To_tunnel (spec_routes (np_senv np) [ev] m)\<rparr>,
         io_direct_tx := (io_direct_tx (nt_stun s))\<lparr>ch_queue := ch_queue (io_direct_tx (nt_stun s))
           @ sent_to To_direct (spec_routes (np_senv np) [ev] m)\<rparr>,
         io_written := io_written (nt_stun s) @ inbound [ev]\<rparr>)"
    and "cache_invar c" "same_live (next_time ev t) (cache_expiry c) (next_map (np_senv np) ev m)"
    using step_meets_spec [OF assms(2-4)] by blast
  with assms(1,2,6) routed_small [OF assms(5)] show ?thesis
    by (auto simp: stun_round_def transit_defs io_ok_def split: if_splits)
qed

text \<open>The rounds of the two ends of the connection.\<close>

lemma tcp_send_carried:
  assumes "coding_ok pb" and "half_ok pb t" and "carried m"
  shows "tcp_send m a t = (Inr (), t\<lparr>tt_sent := tt_sent t @ [m]\<rparr>)"
    "half_ok pb (t\<lparr>tt_sent := sent\<rparr>)" "arrived (t\<lparr>tt_sent := sent\<rparr>) = arrived t"
  using assms coding_fits(3) [OF assms(1,3)] by (simp_all add: tcp_send_def half_ok_def arrived_def)

lemma C_send_eq:
  assumes "coding_ok (np_pb np)" and "link_ok np s" and "ch_queue (io_tun_tx (nt_ctun s)) = p # ps"
  defines "t \<equiv> ci_transport (nt_client s)"
  defines "t' \<equiv> t\<lparr>tt_sent := tt_sent t @ [message_data p]\<rparr>"
  shows "net_step np C_send s =
    Some (s\<lparr>nt_ctun := (nt_ctun s)\<lparr>io_tun_tx := (io_tun_tx (nt_ctun s))\<lparr>ch_queue := ps\<rparr>\<rparr>,
            nt_client := (nt_client s)\<lparr>ci_transport := t'\<rparr>, nt_up := pipe_write (np_pb np) t t' (nt_up s)\<rparr>)"
  using assms tcp_send_carried(1) [OF assms(1), of "ci_transport (nt_client s)" "message_data p" "np_server_addr np"]
  by (simp add: received_def chan_recv_def client_round_def tcp_trait_def link_ok_def)

lemma moves_C_send:
  assumes "coding_ok (np_pb np)" and "link_ok np s" and "net_step np C_send s = Some s'"
  shows "moves np s s' [] [] [] []
    \<and> (\<exists>ch. nt_ctun s' = (nt_ctun s)\<lparr>io_tun_tx := ch\<rparr> \<and> ch_receiver ch = ch_receiver (io_tun_tx (nt_ctun s)))
    \<and> nt_stun s' = nt_stun s"
proof -
  let ?t = "ci_transport (nt_client s)"
  from assms(3) obtain p ps where q: "ch_queue (io_tun_tx (nt_ctun s)) = p # ps"
    by (auto simp: received_Some split: option.splits)
  have p: "small p" and ok: "half_ok (np_pb np) ?t" "pipe_ok (np_pb np) (nt_up s)"
    using assms(2) q by (simp_all add: link_ok_def)
  have "carried (message_data p)" using p by simp
  note tcp_send_carried(2,3) [OF assms(1) ok(1) this, of "tt_sent ?t @ [message_data p]"]
    pipe_write_one [OF assms(1) this ok(2), of "?t\<lparr>tt_sent := tt_sent ?t @ [message_data p]\<rparr>" ?t]
  with C_send_eq [OF assms(1,2) q] assms(2,3) p q show ?thesis by (auto simp: transit_defs within_pop)
qed

lemma moves_C_keepalive:
  assumes "coding_ok (np_pb np)" and "link_ok np s" and "net_step np (C_keepalive ts) s = Some s'"
  shows "moves np s s' [] [] [] [] \<and> nt_ctun s' = nt_ctun s \<and> nt_stun s' = nt_stun s"
proof -
  let ?t = "ci_transport (nt_client s)"
  let ?t' = "?t\<lparr>tt_sent := tt_sent ?t @ [message_keepalive ts]\<rparr>"
  have ok: "half_ok (np_pb np) ?t" "pipe_ok (np_pb np) (nt_up s)" using assms(2) by (simp_all add: link_ok_def)
  note sent = tcp_send_carried [OF assms(1) ok(1) carried_simps(2) [of ts]]
  have "s' = s\<lparr>nt_client := (nt_client s)\<lparr>ci_transport := ?t'\<rparr>, nt_up := pipe_write (np_pb np) ?t ?t' (nt_up s)\<rparr>"
    using assms(3) sent(1) by (auto simp: client_round_def tcp_trait_def split: if_splits)
  with sent(2,3) [of "tt_sent ?t @ [message_keepalive ts]"] assms(2)
    pipe_write_one [OF assms(1) _ ok(2), of "message_keepalive ts" ?t' ?t] show ?thesis by (auto simp: transit_defs)
qed

lemma half_ok_next:
  assumes "half_ok pb t" and "tt_results t \<noteq> []"
  obtains m ms where "arrived t = m # ms" "carried m"
    "tcp_next t = (Some (Inr (m, tt_peer_addr t)), t\<lparr>tt_results := map Inr ms\<rparr>)"
    "half_ok pb (t\<lparr>tt_results := map Inr ms\<rparr>)" "arrived (t\<lparr>tt_results := map Inr ms\<rparr>) = ms"
proof (cases "arrived t")
  case Nil
  with assms show ?thesis by (simp add: half_ok_def)
next
  case (Cons m ms)
  moreover have "tt_results t = Inr m # map Inr ms" using assms(1) Cons by (simp add: half_ok_def)
  ultimately show ?thesis
    using assms(1) by (intro that [of m ms]) (simp_all add: half_ok_def tcp_next_def arrived_def comp_def)
qed

lemma carried_cases:
  assumes "carried m"
  obtains p where "m = message_data p" "small p" | ts where "m = message_keepalive ts"
  using assms by (cases m rule: carried.cases) (auto simp: message_data_def message_keepalive_def)

lemma C_receive_eq:
  assumes "link_ok np s" and "arrived (ci_transport (nt_client s)) = m # ms"
  defines "t' \<equiv> (ci_transport (nt_client s))\<lparr>tt_results := map Inr ms\<rparr>"
    and "ch \<equiv> ci_transport_tx (nt_client s)"
  defines "ch' \<equiv> ch\<lparr>ch_queue := ch_queue ch @ datas [m]\<rparr>"
  shows "net_step np (C_receive now) s =
    (if within ch' then Some (s\<lparr>nt_client := \<lparr>ci_transport = t', ci_transport_tx = ch'\<rparr>\<rparr>) else None)"
proof -
  let ?t = "ci_transport (nt_client s)"
  have ok: "half_ok (np_pb np) ?t" "ch_receiver ch" using assms(1) by (simp_all add: link_ok_def ch_def)
  with assms(2) have r: "tt_results ?t = Inr m # map Inr ms" and "carried m" by (simp_all add: half_ok_def)
  from this(2) show ?thesis
  proof (cases rule: carried_cases)
    case (1 p)
    with r ok(2) show ?thesis
      by (simp add: client_round_def tcp_trait_def tcp_next_def t'_def ch'_def message_data_def flip: ch_def)
  next
    case (2 ts)
    with r ok(2) show ?thesis
      by (simp add: client_round_def tcp_trait_def tcp_next_def t'_def ch'_def message_keepalive_def flip: ch_def)
  qed
qed

lemma moves_C_receive:
  assumes "link_ok np s" and "net_step np (C_receive now) s = Some s'"
  shows "moves np s s' [] [] [] [] \<and> nt_ctun s' = nt_ctun s \<and> nt_stun s' = nt_stun s"
proof -
  have "half_ok (np_pb np) (ci_transport (nt_client s))" and "tt_results (ci_transport (nt_client s)) \<noteq> []"
    using assms by (auto simp: link_ok_def split: if_splits)
  then obtain m ms where nx: "arrived (ci_transport (nt_client s)) = m # ms"
      "half_ok (np_pb np) ((ci_transport (nt_client s))\<lparr>tt_results := map Inr ms\<rparr>)"
      "arrived ((ci_transport (nt_client s))\<lparr>tt_results := map Inr ms\<rparr>) = ms"
    by (rule half_ok_next)
  have "datas (m # ms) = datas [m] @ datas ms" using datas_append [of "[m]" ms] by simp
  with C_receive_eq [OF assms(1) nx(1), of now] nx assms show ?thesis by (auto simp: transit_defs split: if_splits)
qed

lemma half_ok_available:
  "half_ok pb t \<Longrightarrow> list_all carried ms \<Longrightarrow> half_ok pb (available (map Inr ms) t)"
  "arrived (available (map Inr ms) t) = arrived t @ ms"
  by (simp_all add: half_ok_def arrived_def available_def comp_def)

lemma moves_Up_read:
  assumes "link_ok np s" and "net_step np (Up_read n) s = Some s'"
  shows "moves np s s' [] [] [] [] \<and> nt_ctun s' = nt_ctun s \<and> nt_stun s' = nt_stun s"
proof -
  obtain rs p where r: "pipe_read (np_pb np) n (nt_up s) = (rs, p)" by (cases "pipe_read (np_pb np) n (nt_up s)")
  have "pipe_ok (np_pb np) (nt_up s)" using assms(1) by (simp add: link_ok_def)
  from pipe_read_effect [OF this r] obtain ms where "rs = map Inr ms"
    "in_flight (np_pb np) (nt_up s) = ms @ in_flight (np_pb np) p" "pipe_ok (np_pb np) p" "list_all carried ms" by blast
  with assms r half_ok_available(1) [of "np_pb np" "cn_transport (nt_conn s)" ms] half_ok_available(2) [of ms "cn_transport (nt_conn s)"] show ?thesis
    by (auto simp: transit_defs)
qed

lemma moves_Down_read:
  assumes "link_ok np s" and "net_step np (Down_read n) s = Some s'"
  shows "moves np s s' [] [] [] [] \<and> nt_ctun s' = nt_ctun s \<and> nt_stun s' = nt_stun s"
proof -
  obtain rs p where r: "pipe_read (np_pb np) n (nt_down s) = (rs, p)" by (cases "pipe_read (np_pb np) n (nt_down s)")
  have "pipe_ok (np_pb np) (nt_down s)" using assms(1) by (simp add: link_ok_def)
  from pipe_read_effect [OF this r] obtain ms where "rs = map Inr ms"
    "in_flight (np_pb np) (nt_down s) = ms @ in_flight (np_pb np) p" "pipe_ok (np_pb np) p" "list_all carried ms" by blast
  with assms r half_ok_available(1) [of "np_pb np" "ci_transport (nt_client s)" ms] half_ok_available(2) [of ms "ci_transport (nt_client s)"] show ?thesis
    by (auto simp: transit_defs)
qed

text \<open>Serving a packet or a keepalive: the one goes to the TUN task, the other is answered.\<close>

fun answers :: "message list \<Rightarrow> message list" where
  "answers [] = []"
| "answers (Some (Keepalive ts) # ms) = message_keepalive ts # answers ms"
| "answers (_ # ms) = answers ms"

lemma answers_simps [simp]: "answers [message_data p] = []" "answers [message_keepalive ts] = [message_keepalive ts]"
  by (simp_all add: message_data_def message_keepalive_def)

lemma S_receive_eq:
  assumes "coding_ok (np_pb np)" and "link_ok np s" and "arrived (cn_transport (nt_conn s)) = m # ms"
  defines "t \<equiv> cn_transport (nt_conn s)" and "ch \<equiv> cn_transport_tx (nt_conn s)"
  defines "t' \<equiv> t\<lparr>tt_results := map Inr ms, tt_sent := tt_sent t @ answers [m]\<rparr>"
    and "ch' \<equiv> ch\<lparr>ch_queue := ch_queue ch @ datas [m]\<rparr>"
  shows "net_step np (S_receive loaded now fresh_id) s =
    (if within ch' then Some (s\<lparr>nt_conn := (nt_conn s)\<lparr>cn_transport := t', cn_transport_tx := ch'\<rparr>,
       nt_down := pipe_write (np_pb np) t t' (nt_down s)\<rparr>) else None)"
proof -
  have ok: "half_ok (np_pb np) t" "ch_receiver ch" using assms(2) by (simp_all add: link_ok_def t_def ch_def)
  with assms(3) have r: "tt_results t = Inr m # map Inr ms" and "carried m" by (simp_all add: half_ok_def t_def)
  have "half_ok (np_pb np) (t\<lparr>tt_results := map Inr ms\<rparr>)"
    using ok(1) assms(3) by (simp add: half_ok_def t_def arrived_def comp_def)
  note sent = tcp_send_carried(1) [OF assms(1) this]
  from \<open>carried m\<close> show ?thesis
  proof (cases rule: carried_cases)
    case (1 p)
    with r ok(2) show ?thesis
      by (simp add: conn_round_def tcp_trait_def tcp_next_def t'_def ch'_def message_data_def handle_data_def
          flip: ch_def t_def)
  next
    case (2 ts)
    with r ok(2) sent [of "message_keepalive ts" "tt_peer_addr t"] show ?thesis
      by (simp add: conn_round_def tcp_trait_def tcp_next_def t'_def ch'_def message_keepalive_def
          handle_keepalive_def flip: ch_def t_def)
  qed
qed

lemma pipe_write_answers:
  assumes "coding_ok pb" and "carried m" and "pipe_ok pb p" and "tt_sent new = tt_sent old @ answers [m]"
  shows "pipe_ok pb (pipe_write pb old new p) \<and> in_flight pb (pipe_write pb old new p) = in_flight pb p @ answers [m]"
  using assms(2)
proof (cases rule: carried_cases)
  case (1 q)
  with assms(3,4) show ?thesis by simp
next
  case (2 ts)
  with pipe_write_one [OF assms(1) _ assms(3), of "message_keepalive ts" new old] assms(4) show ?thesis by simp
qed

lemma moves_S_receive:
  assumes "coding_ok (np_pb np)" and "link_ok np s" and "net_step np (S_receive loaded now fresh_id) s = Some s'"
  shows "moves np s s' [] [] [] [] \<and> nt_ctun s' = nt_ctun s \<and> nt_stun s' = nt_stun s"
proof -
  let ?t = "cn_transport (nt_conn s)"
  have pipe: "pipe_ok (np_pb np) (nt_down s)" using assms(2) by (simp add: link_ok_def)
  have "half_ok (np_pb np) ?t" and "tt_results ?t \<noteq> []"
    using assms by (auto simp: link_ok_def split: if_splits)
  then obtain m ms where nx: "arrived ?t = m # ms" "carried m"
      "half_ok (np_pb np) (?t\<lparr>tt_results := map Inr ms\<rparr>)" "arrived (?t\<lparr>tt_results := map Inr ms\<rparr>) = ms"
    by (rule half_ok_next)
  let ?t' = "?t\<lparr>tt_results := map Inr ms, tt_sent := tt_sent ?t @ answers [m]\<rparr>"
  have "half_ok (np_pb np) ?t'" "arrived ?t' = ms" using nx(3,4) by (simp_all add: half_ok_def arrived_def)
  moreover have "datas (m # ms) = datas [m] @ datas ms" "datas (answers [m]) = []"
    using datas_append [of "[m]" ms] nx(2) by (auto elim: carried_cases)
  moreover note pipe_write_answers [OF assms(1) nx(2) pipe, of ?t' ?t]
  ultimately show ?thesis
    using S_receive_eq [OF assms(1,2) nx(1), of loaded now fresh_id] nx(1) assms(2,3)
    by (auto simp: transit_defs split: if_splits)
qed

lemma session_ok_chans [simp]: "session_ok c (st\<lparr>sv_chans := chans\<rparr>) \<longleftrightarrow> session_ok c st"
  by (simp add: session_ok_def find_virtual_ip_def)

lemma S_send_eq:
  assumes "coding_ok (np_pb np)" and "link_ok np s" and "ch_queue (client_queue np s) = p # ps"
  defines "t \<equiv> cn_transport (nt_conn s)"
  defines "t' \<equiv> t\<lparr>tt_sent := tt_sent t @ [message_data p]\<rparr>"
  shows "net_step np S_send s =
    Some (s\<lparr>nt_conn := (nt_conn s)\<lparr>cn_server := (cn_server (nt_conn s))\<lparr>sv_chans :=
        (sv_chans (cn_server (nt_conn s)))(cl_tx (np_session np) := (client_queue np s)\<lparr>ch_queue := ps\<rparr>)\<rparr>,
      cn_transport := t'\<rparr>, nt_down := pipe_write (np_pb np) t t' (nt_down s)\<rparr>)"
  using assms
    tcp_send_carried(1) [OF assms(1), of "cn_transport (nt_conn s)" "message_data p" "tt_peer_addr (cn_transport (nt_conn s))"]
  by (simp add: conn_round_def chan_recv_def client_queue_def tcp_trait_def is_ok_iff link_ok_def)

lemma moves_S_send:
  assumes "coding_ok (np_pb np)" and "link_ok np s" and "net_step np S_send s = Some s'"
  shows "moves np s s' [] [] [] [] \<and> nt_ctun s' = nt_ctun s \<and> nt_stun s' = nt_stun s"
proof (cases "ch_queue (client_queue np s)")
  case Nil
  with assms(3) have "s' = s"
    by (auto simp: conn_round_def chan_recv_def client_queue_def split: if_splits)
  with assms(2) show ?thesis by (simp add: moves_def)
next
  case (Cons p ps)
  let ?t = "cn_transport (nt_conn s)"
  have "carried (message_data p)" and ok: "half_ok (np_pb np) ?t" "pipe_ok (np_pb np) (nt_down s)"
    using assms(2) Cons by (simp_all add: link_ok_def)
  note tcp_send_carried(2,3) [OF assms(1) ok(1) this(1), of "tt_sent ?t @ [message_data p]"]
    pipe_write_one [OF assms(1) this(1) ok(2), of "?t\<lparr>tt_sent := tt_sent ?t @ [message_data p]\<rparr>" ?t]
  with S_send_eq [OF assms(1,2) Cons] assms(2,3) Cons show ?thesis by (auto simp: transit_defs within_pop)
qed

text \<open>The server's packets: those for the client's address reach the client's channel, others do not.\<close>

lemma deliver_for_session:
  assumes "session_ok c st" and "ch_receiver (sv_chans st (cl_tx c))"
  shows "session_ok c (deliver_tun_packet p st)
    \<and> sv_chans (deliver_tun_packet p st) (cl_tx c) =
      (if get_destination_ip p = Some (cl_virtual_ip c)
       then (sv_chans st (cl_tx c))\<lparr>ch_queue := ch_queue (sv_chans st (cl_tx c)) @ [p]\<rparr> else sv_chans st (cl_tx c))"
proof (cases "get_destination_ip p")
  case (Some ip)
  show ?thesis
  proof (cases "ip = cl_virtual_ip c")
    case True
    with assms Some show ?thesis by (auto simp: deliver_tun_packet_def session_ok_def find_virtual_ip_def)
  next
    case False
    have "cl_tx c' \<noteq> cl_tx c" if "find_virtual_ip ip st = Some c'" for c'
    proof -
      have "c' \<in> snd ` set (sv_sessions st)" "cl_virtual_ip c' = ip"
        using find_SomeD [OF that [unfolded find_virtual_ip_def]] by auto
      with False assms(1) show ?thesis by (force simp: session_ok_def)
    qed
    with False assms Some show ?thesis
      by (auto simp: deliver_tun_packet_def split: option.split)
  qed
qed (use assms in \<open>simp add: deliver_tun_packet_def\<close>)

lemma io_ok_pop [simp]:
  "io_ok t m (st\<lparr>io_tun_tx := ch\<rparr>) \<longleftrightarrow>
     ch_receiver ch \<and> cache_invar (io_cache st) \<and> same_live t (cache_expiry (io_cache st)) m \<and> ch_receiver (io_direct_tx st)"
  by (auto simp: io_ok_def)

lemma moves_S_route:
  assumes "link_ok np s" and "net_step np S_route s = Some s'"
  shows "moves np s s' [] [] [] [] \<and> nt_ctun s' = nt_ctun s
    \<and> (\<exists>ch. nt_stun s' = (nt_stun s)\<lparr>io_tun_tx := ch\<rparr> \<and> ch_receiver ch = ch_receiver (io_tun_tx (nt_stun s)))"
proof -
  from assms(2) obtain p ps where q: "ch_queue (io_tun_tx (nt_stun s)) = p # ps"
    by (auto simp: received_Some split: option.splits)
  let ?st = "cn_server (nt_conn s)" and ?c = "np_session np"
  have "s' = s\<lparr>nt_conn := (nt_conn s)\<lparr>cn_server := deliver_tun_packet p ?st\<rparr>,
      nt_stun := (nt_stun s)\<lparr>io_tun_tx := (io_tun_tx (nt_stun s))\<lparr>ch_queue := ps\<rparr>\<rparr>\<rparr>"
    using assms(2) q by (auto simp: received_def chan_recv_def update_server_def split: if_splits)
  moreover have "session_ok ?c ?st" "ch_receiver (sv_chans ?st (cl_tx ?c))"
    using assms(1) by (simp_all add: link_ok_def client_queue_def)
  note deliver_for_session [OF this, of p]
  moreover have "within (sv_chans (deliver_tun_packet p ?st) tx)" for tx
  proof -
    have "can_deliver p ?st" using assms(2) q by (auto simp: received_def chan_recv_def split: if_splits)
    moreover have "within (sv_chans ?st tx)" using assms(1) by (simp add: link_ok_def)
    ultimately show ?thesis
      by (auto simp: deliver_tun_packet_def can_deliver_def chan_send_def split: option.splits if_splits)
  qed
  ultimately show ?thesis using assms(1) q by (auto simp: transit_defs for_session_def within_pop)
qed

lemma moves_S_other:
  assumes "link_ok np s" and "net_step np (S_other tx) s = Some s'"
  shows "moves np s s' [] [] [] [] \<and> nt_ctun s' = nt_ctun s \<and> nt_stun s' = nt_stun s"
  using assms
  by (auto simp: transit_defs update_server_def received_Some within_pop split: if_splits option.splits)

text \<open>Cleaning up leaves the client's session alone while it is live.\<close>

fun keeps_session :: "client \<Rightarrow> net_event \<Rightarrow> bool" where
  "keeps_session c (S_cleanup now) \<longleftrightarrow> session_live now c"
| "keeps_session c _ \<longleftrightarrow> True"

lemma find_filter: "List.find P xs = Some x \<Longrightarrow> Q x \<Longrightarrow> List.find P (filter Q xs) = Some x"
  by (induction xs) (auto split: if_splits)

lemma session_ok_cleanup:
  assumes "session_ok c st" and "session_live now c"
  shows "session_ok c (cleanup_expired_sessions now st)"
proof -
  have "map snd (filter (\<lambda>(k, c). session_live now c) xs) = filter (session_live now) (map snd xs)"
    for xs :: "(string \<times> client) list"
    by (induction xs) auto
  with assms show ?thesis
    by (auto simp: session_ok_def cleanup_expired_sessions_def find_virtual_ip_def find_filter)
qed

lemma moves_S_cleanup:
  assumes "link_ok np s" and "session_live now (np_session np)" and "net_step np (S_cleanup now) s = Some s'"
  shows "moves np s s' [] [] [] [] \<and> nt_ctun s' = nt_ctun s \<and> nt_stun s' = nt_stun s"
proof -
  have "sv_chans (cleanup_expired_sessions now st) = sv_chans st" for st by (simp add: cleanup_expired_sessions_def)
  with assms show ?thesis
    using session_ok_cleanup [of "np_session np" "cn_server (nt_conn s)" now]
    by (auto simp: transit_defs update_server_def)
qed

section \<open>Runs\<close>

text \<open>Nothing is lost: the packets under way and the packets put in are the packets taken out and those still under way.\<close>

definition timely :: "nat \<Rightarrow> tun_event list \<Rightarrow> bool" where
  "timely t evs \<longleftrightarrow> sorted (t # lookup_times evs)"

lemma lookup_times_append: "lookup_times (evs @ evs') = lookup_times evs @ lookup_times evs'"
  by (induction evs rule: lookup_times.induct) auto

lemma timely_Cons: "timely t (ev # evs) \<longleftrightarrow> (\<forall>u \<in> set (lookup_times [ev]). t \<le> u) \<and> timely (next_time ev t) evs"
  by (cases ev) (auto simp: timely_def)

definition net_ok ::
  "('n, 'm) net_params \<Rightarrow> nat \<Rightarrow> (ipv4addr \<Rightarrow> string \<Rightarrow> nat option) \<Rightarrow> nat
     \<Rightarrow> (ipv4addr \<Rightarrow> string \<Rightarrow> nat option) \<Rightarrow> network \<Rightarrow> bool" where
  "net_ok np tc mc ts ms s \<longleftrightarrow> link_ok np s \<and> io_ok tc mc (nt_ctun s) \<and> io_ok ts ms (nt_stun s)"

lemma pop_client_tx:
  assumes "link_ok np s" and "received (ci_transport_tx (nt_client s)) = Some (p, ch)"
  defines "s1 \<equiv> s\<lparr>nt_client := (nt_client s)\<lparr>ci_transport_tx := ch\<rparr>\<rparr>"
  shows "link_ok np s1" "up_transit np s1 = up_transit np s" "down_transit np s = p # down_transit np s1"
    "nt_ctun s1 = nt_ctun s" "nt_stun s1 = nt_stun s"
  using assms by (auto simp: transit_defs received_Some within_pop)

lemma pop_conn_tx:
  assumes "link_ok np s" and "received (cn_transport_tx (nt_conn s)) = Some (p, ch)"
  defines "s1 \<equiv> s\<lparr>nt_conn := (nt_conn s)\<lparr>cn_transport_tx := ch\<rparr>\<rparr>"
  shows "link_ok np s1" "down_transit np s1 = down_transit np s" "up_transit np s = p # up_transit np s1"
    "nt_ctun s1 = nt_ctun s" "nt_stun s1 = nt_stun s"
  using assms by (auto simp: transit_defs received_Some within_pop)

definition step_ok ::
  "('n, 'm) net_params \<Rightarrow> nat \<Rightarrow> (ipv4addr \<Rightarrow> string \<Rightarrow> nat option) \<Rightarrow> nat
     \<Rightarrow> (ipv4addr \<Rightarrow> string \<Rightarrow> nat option) \<Rightarrow> network \<Rightarrow> tun_event list \<Rightarrow> tun_event list \<Rightarrow> network \<Rightarrow> bool" where
  "step_ok np tc mc ts ms s cevs sevs s' \<longleftrightarrow>
     moves np s s' (sent_to To_tunnel (spec_routes (np_cenv np) cevs mc)) (from_tunnel sevs)
       (filter (for_session np) (sent_to To_tunnel (spec_routes (np_senv np) sevs ms))) (from_tunnel cevs)
     \<and> net_ok np (fold next_time cevs tc) (fold (next_map (np_cenv np)) cevs mc)
         (fold next_time sevs ts) (fold (next_map (np_senv np)) sevs ms) s'"

lemma silent_step_ok:
  assumes "net_ok np tc mc ts ms s" and "moves np s s' [] [] [] []"
    and "io_ok tc mc (nt_ctun s) \<Longrightarrow> io_ok tc mc (nt_ctun s')" "io_ok ts ms (nt_stun s) \<Longrightarrow> io_ok ts ms (nt_stun s')"
  shows "step_ok np tc mc ts ms s [] [] s'"
  using assms by (auto simp: step_ok_def net_ok_def moves_def)

lemma ctun_step_ok:
  assumes "net_ok np tc mc ts ms s" and "event_ok ev" and "timely tc [ev]" and "small_read ev" "from_tunnel [ev] = []"
    and "ctun_round np ev s = Some s'"
  shows "step_ok np tc mc ts ms s [ev] [] s'"
  using moves_ctun [of np s tc mc ev s'] assms
  by (auto simp: step_ok_def net_ok_def timely_Cons moves_def)

lemma stun_step_ok:
  assumes "net_ok np tc mc ts ms s" and "event_ok ev" and "timely ts [ev]" and "small_read ev" "from_tunnel [ev] = []"
    and "stun_round np ev s = Some s'"
  shows "step_ok np tc mc ts ms s [] [ev] s'"
  using moves_stun [of np s ts ms ev s'] assms
  by (auto simp: step_ok_def net_ok_def timely_Cons moves_def)

lemma C_tun_write_ok:
  assumes "net_ok np tc mc ts ms s" and "received (ci_transport_tx (nt_client s)) = Some (p, ch)"
    and "ctun_round np (From_transport (Some p) clock None) (s\<lparr>nt_client := (nt_client s)\<lparr>ci_transport_tx := ch\<rparr>\<rparr>) = Some s'"
  shows "step_ok np tc mc ts ms s [From_transport (Some p) clock None] [] s'"
  using moves_ctun [OF pop_client_tx(1) [OF _ assms(2)] _ _ _ _ assms(3), of tc mc] assms(1)
    pop_client_tx [OF _ assms(2), of np]
  by (auto simp: step_ok_def net_ok_def moves_def)

lemma S_tun_write_ok:
  assumes "net_ok np tc mc ts ms s" and "received (cn_transport_tx (nt_conn s)) = Some (p, ch)"
    and "stun_round np (From_transport (Some p) clock None) (s\<lparr>nt_conn := (nt_conn s)\<lparr>cn_transport_tx := ch\<rparr>\<rparr>) = Some s'"
  shows "step_ok np tc mc ts ms s [] [From_transport (Some p) clock None] s'"
  using moves_stun [OF pop_conn_tx(1) [OF _ assms(2)] _ _ _ _ assms(3), of ts ms] assms(1)
    pop_conn_tx [OF _ assms(2), of np]
  by (auto simp: step_ok_def net_ok_def moves_def)

lemma net_step_ok:
  assumes "coding_ok (np_pb np)" and "net_ok np tc mc ts ms s" and "keeps_session (np_session np) e"
    and "net_step np e s = Some s'"
    and "timely tc (client_events (observe e s))" and "timely ts (server_events (observe e s))"
  shows "step_ok np tc mc ts ms s (client_events (observe e s)) (server_events (observe e s)) s'"
proof -
  have link: "link_ok np s" using assms(2) by (simp add: net_ok_def)
  note silent = silent_step_ok [OF assms(2)]
  show ?thesis
  proof (cases e)
    case (C_tun_read data now)
    with assms show ?thesis by (auto intro!: ctun_step_ok split: if_splits)
  next
    case (C_tun_direct data clock)
    with assms show ?thesis by (auto intro!: ctun_step_ok)
  next
    case (C_tun_write clock)
    with assms(2,4) show ?thesis by (auto intro!: C_tun_write_ok split: option.splits)
  next
    case C_send
    from moves_C_send [OF assms(1) link assms(4) [unfolded C_send]] C_send show ?thesis by (auto intro!: silent simp: io_ok_def)
  next
    case (C_keepalive ts')
    from moves_C_keepalive [OF assms(1) link assms(4) [unfolded C_keepalive]] C_keepalive show ?thesis by (auto intro!: silent)
  next
    case (C_receive now)
    from moves_C_receive [OF link assms(4) [unfolded C_receive]] C_receive show ?thesis by (auto intro!: silent)
  next
    case (Up_read n)
    from moves_Up_read [OF link assms(4) [unfolded Up_read]] Up_read show ?thesis by (auto intro!: silent)
  next
    case (S_receive loaded now fresh_id)
    from moves_S_receive [OF assms(1) link assms(4) [unfolded S_receive]] S_receive show ?thesis by (auto intro!: silent)
  next
    case S_send
    from moves_S_send [OF assms(1) link assms(4) [unfolded S_send]] S_send show ?thesis by (auto intro!: silent)
  next
    case (S_tun_read data now)
    with assms show ?thesis by (auto intro!: stun_step_ok split: if_splits)
  next
    case (S_tun_direct data clock)
    with assms show ?thesis by (auto intro!: stun_step_ok)
  next
    case (S_tun_write clock)
    with assms(2,4) show ?thesis by (auto intro!: S_tun_write_ok split: option.splits)
  next
    case S_route
    from moves_S_route [OF link assms(4) [unfolded S_route]] S_route show ?thesis by (auto intro!: silent simp: io_ok_def)
  next
    case (S_other tx)
    from moves_S_other [OF link assms(4) [unfolded S_other]] S_other show ?thesis by (auto intro!: silent)
  next
    case (S_cleanup now)
    then have keep: "session_live now (np_session np)" using assms(3) by simp
    from moves_S_cleanup [OF link keep assms(4) [unfolded S_cleanup]] S_cleanup show ?thesis by (auto intro!: silent)
  next
    case (Down_read n)
    from moves_Down_read [OF link assms(4) [unfolded Down_read]] Down_read show ?thesis by (auto intro!: silent)
  qed
qed

lemma events_append [simp]:
  "client_events (tr @ tr') = client_events tr @ client_events tr'"
  "server_events (tr @ tr') = server_events tr @ server_events tr'"
  by (induction tr rule: client_events.induct) auto

lemma from_tunnel_append [simp]: "from_tunnel (evs @ evs') = from_tunnel evs @ from_tunnel evs'"
  by (induction evs rule: from_tunnel.induct) auto

lemma spec_routes_append:
  "spec_routes env (evs @ evs') m = spec_routes env evs m @ spec_routes env evs' (fold (next_map env) evs m)"
proof (induction evs arbitrary: m)
  case (Cons ev evs)
  then show ?case
    using spec_routes_Cons [of env ev "evs @ evs'" m] spec_routes_Cons [of env ev evs m] by simp
qed simp

lemma timely_append: "timely t (evs @ evs') \<longleftrightarrow> timely t evs \<and> timely (fold next_time evs t) evs'"
proof (induction evs arbitrary: t)
  case Nil
  show ?case by (simp add: timely_def)
next
  case (Cons ev evs)
  then show ?case by (simp add: timely_Cons [of t ev])
qed

lemma step_ok_trans:
  assumes "step_ok np tc mc ts ms s ce se s1"
    and "step_ok np (fold next_time ce tc) (fold (next_map (np_cenv np)) ce mc)
      (fold next_time se ts) (fold (next_map (np_senv np)) se ms) s1 ce' se' s'"
  shows "step_ok np tc mc ts ms s (ce @ ce') (se @ se') s'"
  using assms unfolding step_ok_def moves_def
  by (auto simp: spec_routes_append) (metis append.assoc)+

lemma net_run_ok:
  assumes "coding_ok (np_pb np)" and "net_ok np tc mc ts ms s" and "list_all (keeps_session (np_session np)) es"
    and "net_run np es s = Some (tr, s')"
    and "timely tc (client_events tr)" and "timely ts (server_events tr)"
  shows "step_ok np tc mc ts ms s (client_events tr) (server_events tr) s'"
  using assms(2-)
proof (induction es arbitrary: tc mc ts ms s tr)
  case Nil
  then show ?case by (simp add: silent_step_ok moves_def net_ok_def)
next
  case (Cons e es)
  obtain s1 tr1 where step: "net_step np e s = Some s1" and run: "net_run np es s1 = Some (tr1, s')"
    and tr: "tr = observe e s @ tr1"
    using Cons.prems(3) by (auto split: option.splits)
  have ok: "step_ok np tc mc ts ms s (client_events (observe e s)) (server_events (observe e s)) s1"
    using net_step_ok [OF assms(1) Cons.prems(1) _ step] Cons.prems(2,4,5) tr by (simp add: timely_append)
  then have "net_ok np (fold next_time (client_events (observe e s)) tc)
      (fold (next_map (np_cenv np)) (client_events (observe e s)) mc)
      (fold next_time (server_events (observe e s)) ts)
      (fold (next_map (np_senv np)) (server_events (observe e s)) ms) s1" by (simp add: step_ok_def)
  from Cons.IH [OF this _ run] Cons.prems(2,4,5) tr step_ok_trans [OF ok] show ?case
    by (simp add: timely_append)
qed

lemma net_start_ok:
  assumes "net_start np s"
  shows "net_ok np 0 (\<lambda>_ _. None) 0 (\<lambda>_ _. None) s" "up_transit np s = []" "down_transit np s = []"
proof -
  have "io_ok 0 (\<lambda>_ _. None) (tun_io_start chan_new chan_new)"
    using dc.invar_empty by (simp add: io_ok_def tun_io_start_def dc.expiry_empty same_live_def chan_new_def)
  with assms show "net_ok np 0 (\<lambda>_ _. None) 0 (\<lambda>_ _. None) s" "up_transit np s = []" "down_transit np s = []"
    by (auto simp: net_start_def net_ok_def transit_defs tcp_idle_def half_ok_def arrived_def tun_io_start_def
        chan_new_def within_def)
qed

text \<open>What has been delivered and what is under way is what was sent.\<close>

lemma run_conserves_packets:
  assumes "coding_ok (np_pb np)" and "net_start np s" and "list_all (keeps_session (np_session np)) es"
    and "net_run np es s = Some (tr, s')"
    and "sorted (lookup_times (client_events tr))" and "sorted (lookup_times (server_events tr))"
  shows "sent_up np tr = delivered_up tr @ up_transit np s' \<and> sent_down np tr = delivered_down tr @ down_transit np s'"
  using net_run_ok [OF assms(1) net_start_ok(1) [OF assms(2)] assms(3,4)] assms(5,6) net_start_ok(2,3) [OF assms(2)]
  by (simp add: step_ok_def moves_def timely_def sent_up_def sent_down_def delivered_up_def delivered_down_def)

section \<open>Everything under way can be delivered\<close>

text \<open>Events that bring no new packets in.\<close>

fun internal :: "net_event \<Rightarrow> bool" where
  "internal (C_tun_read _ _) = False"
| "internal (C_tun_direct _ _) = False"
| "internal (C_keepalive _) = False"
| "internal (S_tun_read _ _) = False"
| "internal (S_tun_direct _ _) = False"
| "internal (S_cleanup _) = False"
| "internal _ = True"

text \<open>How many steps the things under way are from their ends, at most.\<close>

definition distance :: "('n, 'm) net_params \<Rightarrow> network \<Rightarrow> nat" where
  "distance np s =
     length (ch_queue (ci_transport_tx (nt_client s))) + length (ch_queue (cn_transport_tx (nt_conn s)))
     + 2 * length (arrived (ci_transport (nt_client s))) + 4 * length (arrived (cn_transport (nt_conn s)))
     + 3 * length (in_flight (np_pb np) (nt_down s)) + 5 * length (in_flight (np_pb np) (nt_up s))
     + 4 * length (ch_queue (client_queue np s)) + 6 * length (ch_queue (io_tun_tx (nt_ctun s)))
     + 5 * length (ch_queue (io_tun_tx (nt_stun s)))"

definition nearer :: "('n, 'm) net_params \<Rightarrow> network \<Rightarrow> net_event \<Rightarrow> bool" where
  "nearer np s e \<longleftrightarrow> internal e \<and> (\<exists>s'. net_step np e s = Some s' \<and> distance np s' < distance np s)"

lemma within_short: "length (ch_queue ch) \<le> 1 \<Longrightarrow> within ch"
  by (simp add: within_def CHANNEL_CAPACITY_def)

lemma nearer_C_tun_write:
  "link_ok np s \<Longrightarrow> ch_queue (ci_transport_tx (nt_client s)) \<noteq> [] \<Longrightarrow> nearer np s (C_tun_write clock)"
  by (auto simp: nearer_def received_def chan_recv_def ctun_round_def link_ok_def distance_def client_queue_def
      neq_Nil_conv)

lemma nearer_S_tun_write:
  "link_ok np s \<Longrightarrow> ch_queue (cn_transport_tx (nt_conn s)) \<noteq> [] \<Longrightarrow> nearer np s (S_tun_write clock)"
  by (auto simp: nearer_def received_def chan_recv_def stun_round_def link_ok_def distance_def client_queue_def
      neq_Nil_conv)

lemma arrived_shorter [simp]: "arrived (t\<lparr>tt_results := map Inr ms\<rparr>) = ms" "arrived (t\<lparr>tt_sent := sent\<rparr>) = arrived t"
  by (simp_all add: arrived_def comp_def)

lemma datas_short: "length (datas [m]) \<le> 1"
  by (cases "[m]" rule: datas.cases) auto

lemma nearer_C_receive:
  assumes "link_ok np s" and "ch_queue (ci_transport_tx (nt_client s)) = []" and "arrived (ci_transport (nt_client s)) = m # ms"
  shows "nearer np s (C_receive now)"
  using C_receive_eq [OF assms(1,3), of now] assms(2,3) datas_short [of m]
  by (auto simp: nearer_def within_short distance_def client_queue_def simp del: net_step.simps)

lemma nearer_S_receive:
  assumes "coding_ok (np_pb np)" and "link_ok np s" and "ch_queue (cn_transport_tx (nt_conn s)) = []"
    and "arrived (cn_transport (nt_conn s)) = m # ms"
  shows "nearer np s (S_receive loaded now fresh_id)"
proof -
  let ?t = "cn_transport (nt_conn s)"
  let ?t' = "?t\<lparr>tt_results := map Inr ms, tt_sent := tt_sent ?t @ answers [m]\<rparr>"
  have "pipe_ok (np_pb np) (nt_down s)" "carried m"
    using assms(2,4) by (simp_all add: link_ok_def half_ok_def)
  note pipe_write_answers [OF assms(1) this(2,1), of ?t' ?t]
  moreover have "length (datas [m]) + length (answers [m]) \<le> 1" using \<open>carried m\<close> by (auto elim: carried_cases)
  ultimately show ?thesis
    using S_receive_eq [OF assms(1,2,4), of loaded now fresh_id] assms(3,4)
    by (auto simp: nearer_def within_short distance_def client_queue_def simp del: net_step.simps)
qed

lemma nearer_Down_read:
  assumes "link_ok np s" and "in_flight (np_pb np) (nt_down s) \<noteq> []"
  shows "nearer np s (Down_read (length (pp_wire (nt_down s))))"
proof -
  obtain rs p where r: "pipe_read (np_pb np) (length (pp_wire (nt_down s))) (nt_down s) = (rs, p)"
    by (cases "pipe_read (np_pb np) (length (pp_wire (nt_down s))) (nt_down s)")
  have "pipe_ok (np_pb np) (nt_down s)" using assms(1) by (simp add: link_ok_def)
  from pipe_read_effect [OF this r] have "rs = map Inr (in_flight (np_pb np) (nt_down s))" "in_flight (np_pb np) p = []" by auto
  with r assms(2) half_ok_available(2) [of "in_flight (np_pb np) (nt_down s)" "ci_transport (nt_client s)"] show ?thesis
    by (auto simp: nearer_def distance_def client_queue_def)
qed

lemma nearer_Up_read:
  assumes "link_ok np s" and "in_flight (np_pb np) (nt_up s) \<noteq> []"
  shows "nearer np s (Up_read (length (pp_wire (nt_up s))))"
proof -
  obtain rs p where r: "pipe_read (np_pb np) (length (pp_wire (nt_up s))) (nt_up s) = (rs, p)"
    by (cases "pipe_read (np_pb np) (length (pp_wire (nt_up s))) (nt_up s)")
  have "pipe_ok (np_pb np) (nt_up s)" using assms(1) by (simp add: link_ok_def)
  from pipe_read_effect [OF this r] have "rs = map Inr (in_flight (np_pb np) (nt_up s))" "in_flight (np_pb np) p = []" by auto
  with r assms(2) half_ok_available(2) [of "in_flight (np_pb np) (nt_up s)" "cn_transport (nt_conn s)"] show ?thesis
    by (auto simp: nearer_def distance_def client_queue_def)
qed

lemma nearer_S_send:
  assumes "coding_ok (np_pb np)" and "link_ok np s" and "ch_queue (client_queue np s) \<noteq> []"
  shows "nearer np s S_send"
proof -
  let ?t = "cn_transport (nt_conn s)"
  obtain p ps where q: "ch_queue (client_queue np s) = p # ps" using assms(3) by (cases "ch_queue (client_queue np s)") auto
  then have "carried (message_data p)" "pipe_ok (np_pb np) (nt_down s)" using assms(2) by (simp_all add: link_ok_def)
  note pipe_write_one [OF assms(1) this, of "?t\<lparr>tt_sent := tt_sent ?t @ [message_data p]\<rparr>" ?t]
  with S_send_eq [OF assms(1,2) q] q show ?thesis
    by (auto simp: nearer_def distance_def client_queue_def simp del: net_step.simps)
qed

lemma nearer_C_send:
  assumes "coding_ok (np_pb np)" and "link_ok np s" and "ch_queue (io_tun_tx (nt_ctun s)) \<noteq> []"
  shows "nearer np s C_send"
proof -
  let ?t = "ci_transport (nt_client s)"
  obtain p ps where q: "ch_queue (io_tun_tx (nt_ctun s)) = p # ps" using assms(3) by (cases "ch_queue (io_tun_tx (nt_ctun s))") auto
  then have "carried (message_data p)" "pipe_ok (np_pb np) (nt_up s)" using assms(2) by (simp_all add: link_ok_def)
  note pipe_write_one [OF assms(1) this, of "?t\<lparr>tt_sent := tt_sent ?t @ [message_data p]\<rparr>" ?t]
  with C_send_eq [OF assms(1,2) q] q show ?thesis
    by (auto simp: nearer_def distance_def client_queue_def simp del: net_step.simps)
qed

text \<open>
  The router may have to wait for the connection of another client; that connection can always
  take a packet from its channel.
\<close>

lemma nearer_S_route:
  assumes "link_ok np s" and "ch_queue (io_tun_tx (nt_stun s)) = p # ps"
    and "can_deliver p (cn_server (nt_conn s))" and "ch_queue (client_queue np s) = []"
  shows "nearer np s S_route"
proof -
  let ?st = "cn_server (nt_conn s)" and ?c = "np_session np"
  have "session_ok ?c ?st" "ch_receiver (sv_chans ?st (cl_tx ?c))"
    using assms(1) by (simp_all add: link_ok_def client_queue_def)
  note deliver_for_session [OF this, of p]
  with assms(2-4) show ?thesis
    by (auto simp: nearer_def received_def chan_recv_def update_server_def distance_def client_queue_def)
qed

lemma route_after_other:
  assumes "link_ok np s" and "ch_queue (io_tun_tx (nt_stun s)) = p # ps"
    and "\<not> can_deliver p (cn_server (nt_conn s))" and "ch_queue (client_queue np s) = []"
  shows "\<exists>tx s1. net_step np (S_other tx) s = Some s1 \<and> distance np s1 = distance np s \<and> link_ok np s1
    \<and> ch_queue (io_tun_tx (nt_stun s1)) = p # ps \<and> can_deliver p (cn_server (nt_conn s1))
    \<and> ch_queue (client_queue np s1) = []"
proof -
  let ?st = "cn_server (nt_conn s)"
  obtain ip c where c: "get_destination_ip p = Some ip" "find_virtual_ip ip ?st = Some c"
    and full: "ch_receiver (sv_chans ?st (cl_tx c))" "\<not> within ((sv_chans ?st (cl_tx c))\<lparr>ch_queue := ch_queue (sv_chans ?st (cl_tx c)) @ [p]\<rparr>)"
    using assms(3) by (auto simp: can_deliver_def chan_send_def split: option.splits if_splits)
  have within: "within (sv_chans ?st (cl_tx c))" using assms(1) by (simp add: link_ok_def)
  have other: "cl_tx c \<noteq> cl_tx (np_session np)"
    using full(2) assms(4) by (auto simp: client_queue_def within_short)
  obtain x xs where q: "ch_queue (sv_chans ?st (cl_tx c)) = x # xs"
    using full(2) by (cases "ch_queue (sv_chans ?st (cl_tx c))") (auto simp: within_short)
  let ?s1 = "update_server (\<lambda>st. st\<lparr>sv_chans := (sv_chans st)(cl_tx c := (sv_chans ?st (cl_tx c))\<lparr>ch_queue := xs\<rparr>)\<rparr>) s"
  have step: "net_step np (S_other (cl_tx c)) s = Some ?s1"
    using other q by (simp add: received_def chan_recv_def)
  have "link_ok np ?s1" using moves_S_other [OF assms(1) step] by (simp add: moves_def)
  moreover have "can_deliver p (cn_server (nt_conn ?s1))"
    using c full(1) q within by (simp add: can_deliver_def update_server_def find_virtual_ip_def chan_send_def within_def)
  ultimately show ?thesis
    using step assms(2,4) other
    by (intro exI [of _ "cl_tx c"] exI [of _ ?s1]) (simp add: update_server_def distance_def client_queue_def)
qed

lemma closer:
  assumes "coding_ok (np_pb np)" and "link_ok np s" and "distance np s \<noteq> 0"
  shows "\<exists>es tr s'. list_all internal es \<and> net_run np es s = Some (tr, s') \<and> distance np s' < distance np s"
proof -
  have one: "\<exists>es tr s'. list_all internal es \<and> net_run np es s = Some (tr, s') \<and> distance np s' < distance np s"
    if "nearer np s e" for e
    using that by (auto simp: nearer_def intro!: exI [of _ "[e]"])
  show ?thesis
  proof (cases "\<exists>e. nearer np s e")
    case False
    have "ch_queue (ci_transport_tx (nt_client s)) = []" "ch_queue (cn_transport_tx (nt_conn s)) = []"
      "in_flight (np_pb np) (nt_down s) = []" "in_flight (np_pb np) (nt_up s) = []"
      "ch_queue (client_queue np s) = []" "ch_queue (io_tun_tx (nt_ctun s)) = []"
      using False nearer_C_tun_write nearer_S_tun_write nearer_Down_read nearer_Up_read nearer_S_send nearer_C_send
        assms(1,2) by blast+
    moreover from this(1,2) have "arrived (ci_transport (nt_client s)) = []" "arrived (cn_transport (nt_conn s)) = []"
      using False nearer_C_receive [OF assms(2)] nearer_S_receive [OF assms(1,2)] by (metis neq_Nil_conv)+
    ultimately obtain p ps where q: "ch_queue (io_tun_tx (nt_stun s)) = p # ps"
      using assms(3) by (cases "ch_queue (io_tun_tx (nt_stun s))") (auto simp: distance_def)
    have "\<not> can_deliver p (cn_server (nt_conn s))"
      using False nearer_S_route [OF assms(2) q] \<open>ch_queue (client_queue np s) = []\<close> by blast
    from route_after_other [OF assms(2) q this \<open>ch_queue (client_queue np s) = []\<close>]
    obtain tx s1 where other: "net_step np (S_other tx) s = Some s1" "distance np s1 = distance np s"
      and "nearer np s1 S_route" using nearer_S_route by blast
    then obtain s2 where "net_step np S_route s1 = Some s2" "distance np s2 < distance np s"
      by (auto simp: nearer_def)
    with other(1) show ?thesis
      by (intro exI [of _ "[S_other tx, S_route]"]) (simp del: net_step.simps)
  qed (use one in blast)
qed

lemma net_run_append:
  "net_run np (es @ es') s =
     (case net_run np es s of
        None \<Rightarrow> None
      | Some (tr, s1) \<Rightarrow> map_option (\<lambda>(tr', s2). (tr @ tr', s2)) (net_run np es' s1))"
proof (induction es arbitrary: s)
  case Nil
  show ?case by (simp add: option.map_ident case_prod_unfold)
next
  case (Cons e es)
  then show ?case
    by (auto simp: option.map_comp comp_def case_prod_unfold split: option.splits simp del: net_step.simps)
qed

lemma internal_observe:
  assumes "internal e"
  shows "lookup_times (client_events (observe e s)) = []" "lookup_times (server_events (observe e s)) = []"
    "spec_routes env (client_events (observe e s)) m = []" "spec_routes env' (server_events (observe e s)) m' = []"
    "keeps_session c e"
  using assms by (cases e; simp; cases "received (ci_transport_tx (nt_client s))"; cases "received (cn_transport_tx (nt_conn s))"; simp)+

lemma internal_run:
  assumes "list_all internal es" and "net_run np es s = Some (tr, s')"
  shows "lookup_times (client_events tr) = [] \<and> lookup_times (server_events tr) = []
    \<and> (\<forall>m. spec_routes env (client_events tr) m = []) \<and> (\<forall>m. spec_routes env' (server_events tr) m = [])
    \<and> list_all (keeps_session c) es"
  using assms
proof (induction es arbitrary: s tr)
  case (Cons e es)
  obtain s1 tr1 where "net_step np e s = Some s1" "net_run np es s1 = Some (tr1, s')" "tr = observe e s @ tr1"
    using Cons.prems(2) by (auto split: option.splits simp del: net_step.simps)
  with Cons.IH [of s1 tr1] Cons.prems(1) show ?case
    by (simp add: spec_routes_append lookup_times_append internal_observe)
qed simp

lemma net_drains:
  assumes "coding_ok (np_pb np)" and "net_ok np tc mc ts ms s"
  shows "\<exists>es tr s'. list_all internal es \<and> net_run np es s = Some (tr, s') \<and> distance np s' = 0"
  using assms(2)
proof (induction "distance np s" arbitrary: s tc mc ts ms rule: less_induct)
  case less
  show ?case
  proof (cases "distance np s = 0")
    case True
    then show ?thesis by (intro exI [of _ "[]"]) simp
  next
    case False
    with closer [OF assms(1) _ False] less.prems obtain es tr s1
      where es: "list_all internal es" "net_run np es s = Some (tr, s1)" "distance np s1 < distance np s"
      by (auto simp: net_ok_def)
    have "step_ok np tc mc ts ms s (client_events tr) (server_events tr) s1"
      using internal_run [OF es(1,2), of "np_cenv np" "np_senv np" "np_session np"]
      by (intro net_run_ok [OF assms(1) less.prems _ es(2)]) (simp_all add: timely_def)
    then have "net_ok np (fold next_time (client_events tr) tc) (fold (next_map (np_cenv np)) (client_events tr) mc)
        (fold next_time (server_events tr) ts) (fold (next_map (np_senv np)) (server_events tr) ms) s1"
      by (simp add: step_ok_def)
    from less.hyps [OF es(3) this] obtain es' tr' s'
      where "list_all internal es'" "net_run np es' s1 = Some (tr', s')" "distance np s' = 0" by blast
    with es show ?thesis by (intro exI [of _ "es @ es'"]) (simp add: net_run_append)
  qed
qed

lemma nothing_under_way: "distance np s = 0 \<Longrightarrow> up_transit np s = [] \<and> down_transit np s = []"
  by (simp add: distance_def up_transit_def down_transit_def)

section \<open>Properties\<close>

text \<open>
  An example.  Messages carry a tag before the packet or the time stamp.  Nothing is an IP packet
  to \<open>example_env\<close> but the packets \<open>[1]\<close> and \<open>[2]\<close>, and what is none goes to the tunnel.
\<close>

definition tagged_prost :: prost where
  "tagged_prost =
     \<lparr>encode_to_vec = (\<lambda>m. case m of
        Some (Data p) \<Rightarrow> 0 # p
      | Some (Keepalive ts) \<Rightarrow> 1 # u32_le (ucast ts) @ u32_le (ucast (drop_bit 32 ts))
      | _ \<Rightarrow> [2]),
      prost_decode = (\<lambda>b. case b of
        [] \<Rightarrow> Inl ''empty''
      | tag # rest \<Rightarrow>
          if tag = 0 then Inr (message_data rest)
          else if tag = 1
          then (case get_u32_le rest of
                  (lo, rest) \<Rightarrow> Inr (message_keepalive (ucast lo OR push_bit 32 (ucast (fst (get_u32_le rest))))))
          else Inr None)\<rparr>"

lemma tagged_prost_ok: "coding_ok tagged_prost"
proof -
  have "ucast (ucast ts :: u32) OR push_bit 32 (ucast (ucast (drop_bit 32 ts) :: u32)) = ts" for ts :: "64 word"
    by (rule bit_word_eqI) (auto simp: bit_simps)
  moreover have "get_u32_le (u32_le w) = (w, [])" for w using get_u32_le_u32_le [of w "[]"] by simp
  ultimately show ?thesis
    by (auto simp: coding_ok_def tagged_prost_def HEADER_SIZE_def DEFAULT_MAX_FRAME_SIZE_def TUN_MTU_def
        elim!: carried_cases [unfolded message_data_def message_keepalive_def]
        simp: message_data_def message_keepalive_def)
qed

definition example_params :: "(ipv4addr \<times> nat, ipv4addr \<times> nat) net_params" where
  "example_params =
     \<lparr>np_pb = tagged_prost, np_cenv = example_env, np_senv = example_env, np_server_addr = example_addr 1,
      np_session = example_client\<rparr>"

definition example_network :: network where
  "example_network =
     (let t = \<lparr>tt_peer_addr = example_addr 4000, tt_results = [], tt_failing = framed_failing tagged_prost, tt_sent = []\<rparr>
      in \<lparr>nt_ctun = tun_io_start chan_new chan_new, nt_client = \<lparr>ci_transport = t, ci_transport_tx = chan_new\<rparr>,
          nt_up = pipe_new,
          nt_conn = \<lparr>cn_server = sy_server example_system, cn_transport_tx = chan_new, cn_transport = t\<rparr>,
          nt_stun = tun_io_start chan_new chan_new, nt_down = pipe_new\<rparr>)"

lemma example_network_start: "net_start example_params example_network"
  by (simp add: net_start_def example_params_def example_network_def tcp_idle_def session_ok_def find_virtual_ip_def
      example_system_def example_client_def within_def chan_new_def Let_def)

lemma example_ip_packet_length: "length (example_ip_packet d) = 20"
  by (simp add: example_ip_packet_def)

lemma example_not_ip: "from_ip_packet (env_slice example_env) (example_ip_packet 2) = None"
  by (simp add: example_env_def from_ip_packet_def example_ip_packet_def)

text \<open>C2: A client and a server joined by a TCP connection deliver in order and lose nothing.  In
  every run, whatever rounds of their tasks are interleaved and however the connection cuts the
  bytes, the packets written to the server's TUN device from the tunnel are, up to any moment, an
  initial part of the packets that the client's rules have sent to the tunnel, and the packets
  written to the client's device an initial part of those for its virtual address that the
  server's rules have sent to the tunnel.  The run starts with the client's session registered,
  the only one of its connection, no clean-up pass in it finds that session expired, and the clocks
  do not step back.\<close>

theorem network_in_order:
  assumes "coding_ok (np_pb np)" and "net_start np s" and "list_all (keeps_session (np_session np)) es"
    and "net_run np es s = Some (tr, s')"
    and "sorted (lookup_times (client_events tr))" and "sorted (lookup_times (server_events tr))"
  shows "prefix (delivered_up tr) (sent_up np tr) \<and> prefix (delivered_down tr) (sent_down np tr)"
  using run_conserves_packets [OF assms] by (simp add: prefix_def)

theorem network_in_order_witness:
  "prefix [[3]] (sent_up example_params
     [Client_tun (From_tun (Inr [3]) 5), Client_tun (From_tun (Inr [4]) 6),
      Server_tun (From_transport (Some [3]) (\<lambda>_. 0) None)])"
proof -
  let ?es = "[C_tun_read [3] 5, C_send, C_tun_read [4] 6, Up_read 100, S_receive (Inl ''none'') 0 [], S_tun_write (\<lambda>_. 0)]"
  let ?tr = "[Client_tun (From_tun (Inr [3]) 5), Client_tun (From_tun (Inr [4]) 6),
      Server_tun (From_transport (Some [3]) (\<lambda>_. 0) None)]"
  have "from_ip_packet (env_slice example_env) [4] = None" by (simp add: example_env_def from_ip_packet_def)
  moreover have "drain tagged_prost byte_codec_new [2, 0, 0, 0, 0, 3] = ([Some (Data [3])], None, byte_codec_new, [])"
    "encode_all tagged_prost byte_codec_new [Some (Data [3])] [] = (Inr (), [2, 0, 0, 0, 0, 3])"
    by (subst drain.simps, simp add: decode_Head decode_Body tagged_prost_def byte_codec_new_def default_byte_codec_def
        DEFAULT_MAX_FRAME_SIZE_def message_data_def, subst drain.simps, simp add: decode_Head)
      (simp add: encode_cases tagged_prost_def byte_codec_new_def default_byte_codec_def DEFAULT_MAX_FRAME_SIZE_def
        u32_le_def)
  moreover have "framed_failing tagged_prost (Some (Data [3])) = None"
    using coding_fits(3) [OF tagged_prost_ok, of "Some (Data [3])"] by (simp add: TUN_MTU_def)
  ultimately obtain s' where run: "net_run example_params ?es example_network = Some (?tr, s')"
    by (simp add: example_params_def example_network_def ctun_round_def stun_round_def tun_io_start_def
        client_round_def conn_round_def received_def chan_recv_def tcp_trait_def tcp_send_def tcp_next_def
        handle_data_def pipe_write_def pipe_read_def pipe_new_def available_def message_data_def
        handle_packet_route_def example_env_simps chan_new_def within_def CHANNEL_CAPACITY_def TUN_MTU_def Let_def
        del: encode_all.simps)
  have "coding_ok (np_pb example_params)" by (simp add: example_params_def tagged_prost_ok)
  from network_in_order [OF this example_network_start _ run] show ?thesis by (simp add: delivered_up_def)
qed

text \<open>C1: What was sent to the tunnel can still be delivered.  After any run of completed rounds of
  the tasks that starts with the client's session registered, the only one of its connection, in which
  no clean-up pass finds that session expired and the clocks do not step back, the tasks can go on by themselves, without new
  packets and without a task ending, until the server's device has been given every packet the
  client's rules have sent to the tunnel, and the client's device every packet for its virtual
  address that the server's rules have sent to the tunnel.  (Tasks suspended inside a round are
  the subject of \<open>Blocking\<close>; a session that has expired is the subject of the clean-up.)\<close>

theorem network_delivers:
  assumes "coding_ok (np_pb np)" and "net_start np s" and "list_all (keeps_session (np_session np)) es"
    and "net_run np es s = Some (tr, s')"
    and "sorted (lookup_times (client_events tr))" and "sorted (lookup_times (server_events tr))"
  shows "\<exists>es' tr' s''. list_all internal es' \<and> net_run np (es @ es') s = Some (tr @ tr', s'')
    \<and> delivered_up (tr @ tr') = sent_up np tr \<and> delivered_down (tr @ tr') = sent_down np tr"
proof -
  have "net_ok np (fold next_time (client_events tr) 0) (fold (next_map (np_cenv np)) (client_events tr) (\<lambda>_ _. None))
      (fold next_time (server_events tr) 0) (fold (next_map (np_senv np)) (server_events tr) (\<lambda>_ _. None)) s'"
    using net_run_ok [OF assms(1) net_start_ok(1) [OF assms(2)] assms(3,4)] assms(5,6)
    by (simp add: step_ok_def timely_def)
  from net_drains [OF assms(1) this] obtain es' tr' s''
    where es': "list_all internal es'" "net_run np es' s' = Some (tr', s'')" "distance np s'' = 0" by blast
  note quiet = internal_run [OF es'(1,2), of "np_cenv np" "np_senv np" "np_session np"]
  have run: "net_run np (es @ es') s = Some (tr @ tr', s'')" using assms(4) es'(2) by (simp add: net_run_append)
  have "sent_up np (tr @ tr') = sent_up np tr" "sent_down np (tr @ tr') = sent_down np tr"
    using quiet by (simp_all add: sent_up_def sent_down_def spec_routes_append)
  moreover have "sorted (lookup_times (client_events (tr @ tr')))" "sorted (lookup_times (server_events (tr @ tr')))"
    using quiet assms(5,6) by (simp_all add: lookup_times_append)
  moreover have "list_all (keeps_session (np_session np)) (es @ es')" using assms(3) quiet by simp
  ultimately show ?thesis
    using run_conserves_packets [OF assms(1,2) _ run] nothing_under_way [OF es'(3)] es'(1) run
    by (intro exI [of _ es'] exI [of _ tr'] exI [of _ s'']) simp
qed

theorem network_delivers_witness:
  "\<exists>es' tr' s''. net_run example_params
      ([C_tun_read [3] 5, S_tun_read (example_ip_packet 2) 6] @ es') example_network
      = Some ([Client_tun (From_tun (Inr [3]) 5), Server_tun (From_tun (Inr (example_ip_packet 2)) 6)] @ tr', s'')
    \<and> delivered_up tr' = [[3]] \<and> delivered_down tr' = [example_ip_packet 2]"
proof -
  let ?es = "[C_tun_read [3] 5, S_tun_read (example_ip_packet 2) 6]"
  let ?tr = "[Client_tun (From_tun (Inr [3]) 5), Server_tun (From_tun (Inr (example_ip_packet 2)) 6)]"
  obtain s' where run: "net_run example_params ?es example_network = Some (?tr, s')"
    by (simp add: example_params_def example_network_def ctun_round_def stun_round_def tun_io_start_def
        handle_packet_route_def example_env_simps example_not_ip chan_new_def within_def CHANNEL_CAPACITY_def
        TUN_MTU_def Let_def example_ip_packet_length)
  have sent: "sent_up example_params ?tr = [[3]]" "sent_down example_params ?tr = [example_ip_packet 2]"
    by (simp_all add: sent_up_def sent_down_def example_params_def spec_dest_def example_env_simps example_not_ip
        sent_if_def for_session_def example_ip_packet_destination example_client_def)
  have "coding_ok (np_pb example_params)" by (simp add: example_params_def tagged_prost_ok)
  from network_delivers [OF this example_network_start _ run] sent obtain es' tr' s''
    where "net_run example_params (?es @ es') example_network = Some (?tr @ tr', s'')"
      and "delivered_up (?tr @ tr') = [[3]]" "delivered_down (?tr @ tr') = [example_ip_packet 2]" by auto
  moreover have "delivered_up (?tr @ tr') = delivered_up tr'" "delivered_down (?tr @ tr') = delivered_down tr'"
    by (simp_all add: delivered_up_def delivered_down_def)
  ultimately show ?thesis by (intro exI [of _ es'] exI [of _ tr'] exI [of _ s'']) (simp only: simp_thms)
qed

end
