(* ===== verification/Blocking.thy ===== *)
theory Blocking
  imports Packet_Route Server
begin

text \<open>
  Where tasks wait for each other: the tasks of \<open>common.rs\<close>, \<open>transport/mod.rs\<close>, \<open>transport/tcp.rs\<close>
  and \<open>server.rs\<close> cut at every \<open>await\<close> that can suspend them inside a branch of their \<open>select!\<close>:
  sends to a bounded channel, writes to a socket and the lock of the session map.  A task
  suspended there does not look at its other branches.  The write of a handshake's reply is not a
  state of its own: it belongs to the step before the second critical section.  Rounds in which a task fails and ends are
  left out, except the end of a connection, after which the server goes on.
\<close>

definition send_completes :: "'a \<Rightarrow> 'a chan \<Rightarrow> bool" where
  "send_completes x ch \<longleftrightarrow> within (snd (chan_send x ch))"

definition full :: "'a chan \<Rightarrow> bool" where
  "full ch \<longleftrightarrow> ch_receiver ch \<and> length (ch_queue ch) = CHANNEL_CAPACITY"

definition chan_ok :: "'a chan \<Rightarrow> bool" where
  "chan_ok ch \<longleftrightarrow> ch_receiver ch \<and> within ch"

lemma full_not_complete: "full ch \<Longrightarrow> \<not> send_completes p ch"
  by (simp add: full_def send_completes_def within_def)

lemma send_completes_room: "within ch \<Longrightarrow> \<not> full ch \<Longrightarrow> send_completes p ch"
  by (cases "ch_receiver ch") (auto simp: send_completes_def within_def full_def)

lemma chan_ok_room: "chan_ok ch \<Longrightarrow> \<not> full ch \<Longrightarrow> send_completes p ch"
  by (simp add: chan_ok_def send_completes_room)

lemma full_recv:
  assumes "full ch"
  obtains x ch' where "chan_recv ch = (Some (Some x), ch')" and "\<And>p. send_completes p ch'"
    and "ch_receiver ch'" and "\<not> full ch'"
proof -
  obtain x xs where "ch_queue ch = x # xs"
    using assms by (cases "ch_queue ch") (auto simp: full_def CHANNEL_CAPACITY_def)
  with assms that [of x "ch\<lparr>ch_queue := xs\<rparr>"] show ?thesis
    by (simp add: chan_recv_def send_completes_def within_def full_def)
qed

lemma chan_send_receiver [simp]: "ch_receiver (snd (chan_send p ch)) = ch_receiver ch"
  by (simp add: chan_send_def)

lemma chan_recv_keeps:
  "chan_recv ch = (Some (Some p), ch') \<Longrightarrow> within ch \<Longrightarrow> within ch' \<and> ch_receiver ch' = ch_receiver ch"
  by (auto simp: chan_recv_def within_def split: list.splits if_splits)

lemma chan_ok_recv: "chan_recv ch = (Some (Some p), ch') \<Longrightarrow> chan_ok ch \<Longrightarrow> chan_ok ch'"
  by (auto simp: chan_ok_def dest: chan_recv_keeps)

lemma chan_ok_send: "send_completes p ch \<Longrightarrow> chan_ok ch \<Longrightarrow> chan_ok (snd (chan_send p ch))"
  by (simp add: chan_ok_def send_completes_def)

lemma full_stays: "chan_ok ch \<Longrightarrow> \<not> full ch \<longleftrightarrow> length (ch_queue ch) < CHANNEL_CAPACITY"
  by (auto simp: chan_ok_def full_def within_def)

lemma reachI: "r\<^sup>*\<^sup>* t u \<Longrightarrow> Q u \<Longrightarrow> \<exists>t'. r\<^sup>*\<^sup>* t t' \<and> Q t'"
  by blast

lemma reach_step: "r t u \<Longrightarrow> \<exists>v. r\<^sup>*\<^sup>* u v \<and> Q v \<Longrightarrow> \<exists>v. r\<^sup>*\<^sup>* t v \<and> Q v"
  by (meson converse_rtranclp_into_rtranclp)

lemma reach_trans: "r\<^sup>*\<^sup>* t u \<Longrightarrow> \<exists>v. r\<^sup>*\<^sup>* u v \<and> Q v \<Longrightarrow> \<exists>v. r\<^sup>*\<^sup>* t v \<and> Q v"
  by (meson rtranclp_trans)

section \<open>The TUN task (common.rs)\<close>

datatype tun_state = Selecting | Await_tunnel bytes | Await_direct bytes

text \<open>The task with the channels at its ends.\<close>

record tun_task =
  tk_state :: tun_state
  tk_tun_tx :: "bytes chan"
  tk_transport_rx :: "bytes chan"
  tk_direct_tx :: "bytes chan"
  tk_direct_rx :: "bytes chan"

definition tun_task_start :: tun_task where
  "tun_task_start =
     \<lparr>tk_state = Selecting, tk_tun_tx = chan_new, tk_transport_rx = chan_new, tk_direct_tx = chan_new,
      tk_direct_rx = chan_new\<rparr>"

text \<open>Where \<open>handle_packet_route\<close> sends a packet when the cache gives it these domains.\<close>

definition routed :: "'n route_env \<Rightarrow> string list \<Rightarrow> bytes \<Rightarrow> destination" where
  "routed env domains p =
     (case from_ip_packet (env_slice env) p of
        None \<Rightarrow> To_tunnel
      | Some ctx \<Rightarrow> dest_of (match_packet (env_net env) (env_engine env) (with_domains ctx domains)))"

inductive tun_task_step :: "'n route_env \<Rightarrow> tun_task \<Rightarrow> tun_task \<Rightarrow> bool"
  for env :: "'n route_env" where
  reads_tunnel: "tk_state t = Selecting \<Longrightarrow> routed env domains p = To_tunnel
    \<Longrightarrow> tun_task_step env t (t\<lparr>tk_state := Await_tunnel p\<rparr>)"
| reads_direct: "tk_state t = Selecting \<Longrightarrow> routed env domains p = To_direct
    \<Longrightarrow> tun_task_step env t (t\<lparr>tk_state := Await_direct p\<rparr>)"
| reads_rejected: "tk_state t = Selecting \<Longrightarrow> routed env domains p = Dropped \<Longrightarrow> tun_task_step env t t"
| sends_tunnel: "tk_state t = Await_tunnel p \<Longrightarrow> send_completes p (tk_tun_tx t)
    \<Longrightarrow> tun_task_step env t (t\<lparr>tk_state := Selecting, tk_tun_tx := snd (chan_send p (tk_tun_tx t))\<rparr>)"
| sends_direct: "tk_state t = Await_direct p \<Longrightarrow> send_completes p (tk_direct_tx t)
    \<Longrightarrow> tun_task_step env t (t\<lparr>tk_state := Selecting, tk_direct_tx := snd (chan_send p (tk_direct_tx t))\<rparr>)"
| writes_transport: "tk_state t = Selecting \<Longrightarrow> chan_recv (tk_transport_rx t) = (Some (Some p), ch)
    \<Longrightarrow> tun_task_step env t (t\<lparr>tk_transport_rx := ch\<rparr>)"
| writes_direct: "tk_state t = Selecting \<Longrightarrow> chan_recv (tk_direct_rx t) = (Some (Some p), ch)
    \<Longrightarrow> tun_task_step env t (t\<lparr>tk_direct_rx := ch\<rparr>)"

text \<open>The two closures that carry packets between the direct proxy and the TUN task.\<close>

inductive pump_step :: "tun_task \<Rightarrow> tun_task \<Rightarrow> bool" where
  pump_takes: "chan_recv (tk_direct_tx t) = (Some (Some p), ch) \<Longrightarrow> pump_step t (t\<lparr>tk_direct_tx := ch\<rparr>)"
| pump_answers: "send_completes p (tk_direct_rx t)
    \<Longrightarrow> pump_step t (t\<lparr>tk_direct_rx := snd (chan_send p (tk_direct_rx t))\<rparr>)"

abbreviation tun_moves :: "'n route_env \<Rightarrow> tun_task \<Rightarrow> tun_task \<Rightarrow> bool" where
  "tun_moves env t t' \<equiv> tun_task_step env t t' \<or> pump_step t t'"

inductive_cases tun_task_stepE: "tun_task_step env t t'"

inductive_cases pump_stepE: "pump_step t t'"

definition tun_task_ok :: "tun_task \<Rightarrow> bool" where
  "tun_task_ok t \<longleftrightarrow>
     chan_ok (tk_tun_tx t) \<and> chan_ok (tk_transport_rx t) \<and> chan_ok (tk_direct_tx t) \<and> chan_ok (tk_direct_rx t)"

text \<open>The task waits for room in the channel of the tunnel.\<close>

definition tun_blocked :: "tun_task \<Rightarrow> bool" where
  "tun_blocked t \<longleftrightarrow> (\<exists>p. tk_state t = Await_tunnel p) \<and> full (tk_tun_tx t)"

lemma tun_task_ok_start: "tun_task_ok tun_task_start"
  by (simp add: tun_task_ok_def tun_task_start_def chan_new_def chan_ok_def within_def)

lemma tun_task_ok_step:
  assumes "tun_moves env t t'" and "tun_task_ok t"
  shows "tun_task_ok t'"
  using assms
  by (auto elim!: tun_task_stepE pump_stepE simp: tun_task_ok_def intro: chan_ok_recv chan_ok_send)

lemma tun_blocked_step:
  assumes "tun_moves env t t'" and "tun_blocked t"
  shows "tun_blocked t' \<and> tk_tun_tx t' = tk_tun_tx t \<and> tk_transport_rx t' = tk_transport_rx t"
  using assms by (auto elim!: tun_task_stepE pump_stepE simp: tun_blocked_def full_not_complete)

lemma tun_task_ok_moves: "(tun_moves env)\<^sup>*\<^sup>* t t' \<Longrightarrow> tun_task_ok t \<Longrightarrow> tun_task_ok t'"
  by (induction rule: rtranclp_induct) (auto intro: tun_task_ok_step)

text \<open>A task that is not blocked gets back to its \<open>select!\<close>, and there makes room for the transport.\<close>

lemma tun_returns:
  assumes "tun_task_ok t" and "\<not> tun_blocked t"
  shows "\<exists>t'. (tun_moves env)\<^sup>*\<^sup>* t t' \<and> tk_state t' = Selecting \<and> tk_transport_rx t' = tk_transport_rx t"
proof (cases "tk_state t")
  case (Await_tunnel p)
  then have "tun_moves env t (t\<lparr>tk_state := Selecting, tk_tun_tx := snd (chan_send p (tk_tun_tx t))\<rparr>)"
    using assms by (intro disjI1 tun_task_step.sends_tunnel) (auto simp: tun_blocked_def tun_task_ok_def intro: chan_ok_room)
  from r_into_rtranclp [of "tun_moves env", OF this] show ?thesis
    by (rule reachI) simp
next
  case (Await_direct p)
  have send: "tun_moves env u (u\<lparr>tk_state := Selecting, tk_direct_tx := snd (chan_send p (tk_direct_tx u))\<rparr>)"
    if "tk_state u = Await_direct p" "send_completes p (tk_direct_tx u)" for u
    using that by (intro disjI1 tun_task_step.sends_direct)
  show ?thesis
  proof (cases "full (tk_direct_tx t)")
    case True
    then obtain x ch where ch: "chan_recv (tk_direct_tx t) = (Some (Some x), ch)" "send_completes p ch"
      by (blast elim: full_recv)
    let ?u = "t\<lparr>tk_direct_tx := ch\<rparr>"
    have "tun_moves env t ?u" using ch(1) by (intro disjI2 pump_step.pump_takes)
    moreover have "tun_moves env ?u (?u\<lparr>tk_state := Selecting, tk_direct_tx := snd (chan_send p (tk_direct_tx ?u))\<rparr>)"
      using Await_direct ch(2) by (intro send) simp_all
    ultimately have "(tun_moves env)\<^sup>*\<^sup>* t (?u\<lparr>tk_state := Selecting, tk_direct_tx := snd (chan_send p (tk_direct_tx ?u))\<rparr>)"
      by (rule rtranclp.rtrancl_into_rtrancl [OF r_into_rtranclp])
    then show ?thesis by (rule reachI) simp
  next
    case False
    with assms(1) have "send_completes p (tk_direct_tx t)" by (simp add: tun_task_ok_def chan_ok_room)
    from r_into_rtranclp [of "tun_moves env", OF send [OF Await_direct this]] show ?thesis
      by (rule reachI) simp
  qed
qed blast

lemma tun_makes_room:
  assumes "tun_task_ok t" and "\<not> tun_blocked t"
  shows "\<exists>t'. (tun_moves env)\<^sup>*\<^sup>* t t' \<and> tk_state t' = Selecting \<and> send_completes p (tk_transport_rx t')"
proof -
  obtain u where u: "(tun_moves env)\<^sup>*\<^sup>* t u" "tk_state u = Selecting" using tun_returns [OF assms] by blast
  have ok: "chan_ok (tk_transport_rx u)" using tun_task_ok_moves [OF u(1) assms(1)] by (simp add: tun_task_ok_def)
  show ?thesis
  proof (cases "full (tk_transport_rx u)")
    case True
    then obtain x ch where ch: "chan_recv (tk_transport_rx u) = (Some (Some x), ch)" "send_completes p ch"
      by (blast elim: full_recv)
    have "tun_moves env u (u\<lparr>tk_transport_rx := ch\<rparr>)"
      using u(2) ch(1) by (intro disjI1 tun_task_step.writes_transport)
    with u(1) have "(tun_moves env)\<^sup>*\<^sup>* t (u\<lparr>tk_transport_rx := ch\<rparr>)" by (rule rtranclp.rtrancl_into_rtrancl)
    then show ?thesis by (rule reachI) (simp add: u(2) ch(2))
  next
    case False
    with u ok show ?thesis by (blast intro: chan_ok_room)
  qed
qed

text \<open>Packets read for the tunnel fill its channel and then block the task.\<close>

lemma tun_reads_into:
  assumes "tk_state t = Selecting" and "routed env domains p = To_tunnel" and "send_completes p (tk_tun_tx t)"
  shows "(tun_moves env)\<^sup>*\<^sup>* t (t\<lparr>tk_tun_tx := snd (chan_send p (tk_tun_tx t))\<rparr>)"
proof -
  let ?u = "t\<lparr>tk_state := Await_tunnel p\<rparr>"
  have "tun_moves env t ?u" using assms(1,2) by (intro disjI1 tun_task_step.reads_tunnel)
  moreover have "tun_moves env ?u (?u\<lparr>tk_state := Selecting, tk_tun_tx := snd (chan_send p (tk_tun_tx ?u))\<rparr>)"
    using assms(3) by (intro disjI1 tun_task_step.sends_tunnel) simp_all
  ultimately have "(tun_moves env)\<^sup>*\<^sup>* t (?u\<lparr>tk_state := Selecting, tk_tun_tx := snd (chan_send p (tk_tun_tx ?u))\<rparr>)"
    by (rule rtranclp.rtrancl_into_rtrancl [OF r_into_rtranclp])
  moreover have "?u\<lparr>tk_state := Selecting, tk_tun_tx := snd (chan_send p (tk_tun_tx ?u))\<rparr>
      = t\<lparr>tk_tun_tx := snd (chan_send p (tk_tun_tx t))\<rparr>"
    using assms(1) by simp
  ultimately show ?thesis by (simp only:)
qed

definition queue_up :: "'a list \<Rightarrow> 'a chan \<Rightarrow> 'a chan" where
  "queue_up xs ch = ch\<lparr>ch_queue := ch_queue ch @ xs\<rparr>"

lemma queue_up_simps [simp]:
  "queue_up [] ch = ch"
  "ch_queue (queue_up xs ch) = ch_queue ch @ xs"
  "ch_receiver (queue_up xs ch) = ch_receiver ch"
  "ch_receiver ch \<Longrightarrow> snd (chan_send x (queue_up xs ch)) = queue_up (xs @ [x]) ch"
  by (simp_all add: queue_up_def chan_send_def)

lemma tun_fills:
  assumes "tk_state t = Selecting" and "routed env [] p = To_tunnel" and "ch_receiver (tk_tun_tx t)"
    and "length (ch_queue (tk_tun_tx t)) + n \<le> CHANNEL_CAPACITY"
  shows "(tun_moves env)\<^sup>*\<^sup>* t (t\<lparr>tk_tun_tx := queue_up (replicate n p) (tk_tun_tx t)\<rparr>)"
  using assms(4)
proof (induction n)
  case (Suc n)
  let ?u = "t\<lparr>tk_tun_tx := queue_up (replicate n p) (tk_tun_tx t)\<rparr>"
  have "(tun_moves env)\<^sup>*\<^sup>* ?u (?u\<lparr>tk_tun_tx := snd (chan_send p (tk_tun_tx ?u))\<rparr>)"
    using assms(1-3) Suc.prems by (intro tun_reads_into) (simp_all add: send_completes_def within_def)
  then show ?case using Suc assms(3) by (simp add: queue_up_def replicate_append_same)
qed simp

lemma tun_blocks:
  assumes "tk_state t = Selecting" and "routed env [] p = To_tunnel" and "chan_ok (tk_tun_tx t)"
  shows "\<exists>t'. (tun_moves env)\<^sup>*\<^sup>* t t' \<and> tun_blocked t' \<and> tk_transport_rx t' = tk_transport_rx t"
proof -
  let ?n = "CHANNEL_CAPACITY - length (ch_queue (tk_tun_tx t))"
  let ?u = "t\<lparr>tk_tun_tx := queue_up (replicate ?n p) (tk_tun_tx t)\<rparr>"
  have n: "length (ch_queue (tk_tun_tx t)) + ?n = CHANNEL_CAPACITY" using assms(3) by (simp add: chan_ok_def within_def)
  have "(tun_moves env)\<^sup>*\<^sup>* t ?u" using assms n by (intro tun_fills) (simp_all add: chan_ok_def)
  moreover have "tun_moves env ?u (?u\<lparr>tk_state := Await_tunnel p\<rparr>)"
    using assms(1,2) by (intro disjI1 tun_task_step.reads_tunnel) simp_all
  ultimately have "(tun_moves env)\<^sup>*\<^sup>* t (?u\<lparr>tk_state := Await_tunnel p\<rparr>)" by (rule rtranclp.rtrancl_into_rtrancl)
  moreover have "tun_blocked (?u\<lparr>tk_state := Await_tunnel p\<rparr>)"
    using n assms(3) by (simp add: tun_blocked_def full_def chan_ok_def)
  ultimately show ?thesis by (intro exI [of _ "?u\<lparr>tk_state := Await_tunnel p\<rparr>"]) simp
qed

text \<open>
  A round of the task that fails nowhere and keeps its channels within their capacity is a run
  of these steps: cutting the round at its awaits does not change what it does.
\<close>

definition tun_view :: "tun_io \<Rightarrow> bytes chan \<Rightarrow> bytes chan \<Rightarrow> tun_task" where
  "tun_view st transport_rx direct_rx =
     \<lparr>tk_state = Selecting, tk_tun_tx = io_tun_tx st, tk_transport_rx = transport_rx,
      tk_direct_tx = io_direct_tx st, tk_direct_rx = direct_rx\<rparr>"

lemma tun_write_simulated:
  assumes "chan_recv transport_rx = (Some (Some data), rx)"
    and "tun_io_step env (From_transport (Some data) clock werr) st = (None, st')"
  shows "tun_moves env (tun_view st transport_rx direct_rx) (tun_view st' rx direct_rx)"
proof -
  have "tun_view st' rx direct_rx = (tun_view st transport_rx direct_rx)\<lparr>tk_transport_rx := rx\<rparr>"
    using assms(2) by (auto simp: tun_view_def Let_def split: option.splits)
  then show ?thesis
    using tun_task_step.writes_transport [of "tun_view st transport_rx direct_rx" data rx env] assms(1)
    by (simp add: tun_view_def)
qed

lemma tun_write_direct_simulated:
  assumes "chan_recv direct_rx = (Some (Some data), rx)"
    and "tun_io_step env (From_direct (Some data) clock werr) st = (None, st')"
  shows "tun_moves env (tun_view st transport_rx direct_rx) (tun_view st' transport_rx rx)"
proof -
  have "tun_view st' transport_rx rx = (tun_view st transport_rx direct_rx)\<lparr>tk_direct_rx := rx\<rparr>"
    using assms(2) by (auto simp: tun_view_def Let_def split: option.splits)
  then show ?thesis
    using tun_task_step.writes_direct [of "tun_view st transport_rx direct_rx" data rx env] assms(1)
    by (simp add: tun_view_def)
qed

lemma tun_direct_into:
  assumes "tk_state t = Selecting" and "routed env domains p = To_direct" and "send_completes p (tk_direct_tx t)"
  shows "(tun_moves env)\<^sup>*\<^sup>* t (t\<lparr>tk_direct_tx := snd (chan_send p (tk_direct_tx t))\<rparr>)"
proof -
  let ?u = "t\<lparr>tk_state := Await_direct p\<rparr>"
  have "tun_moves env t ?u" using assms(1,2) by (intro disjI1 tun_task_step.reads_direct)
  moreover have "tun_moves env ?u (?u\<lparr>tk_state := Selecting, tk_direct_tx := snd (chan_send p (tk_direct_tx ?u))\<rparr>)"
    using assms(3) by (intro disjI1 tun_task_step.sends_direct) simp_all
  ultimately have "(tun_moves env)\<^sup>*\<^sup>* t (?u\<lparr>tk_state := Selecting, tk_direct_tx := snd (chan_send p (tk_direct_tx ?u))\<rparr>)"
    by (rule rtranclp.rtrancl_into_rtrancl [OF r_into_rtranclp])
  moreover have "?u\<lparr>tk_state := Selecting, tk_direct_tx := snd (chan_send p (tk_direct_tx ?u))\<rparr>
      = t\<lparr>tk_direct_tx := snd (chan_send p (tk_direct_tx t))\<rparr>"
    using assms(1) by simp
  ultimately show ?thesis by (simp only:)
qed

lemma route_of_packet:
  obtains domains where "snd (snd (handle_packet_route env now p c tt dt)) =
    (case routed env domains p of
       To_tunnel \<Rightarrow> (snd (chan_send p tt), dt)
     | To_direct \<Rightarrow> (tt, snd (chan_send p dt))
     | Dropped \<Rightarrow> (tt, dt))"
proof (cases "from_ip_packet (env_slice env) p")
  case None
  then show ?thesis by (intro that [of "[]"]) (simp add: handle_packet_route_def routed_def split: prod.split)
next
  case (Some ctx)
  show ?thesis
  proof (rule that [of "fst (cache_lookup now (pc_dst_ip ctx) c)"])
    show "snd (snd (handle_packet_route env now p c tt dt)) =
      (case routed env (fst (cache_lookup now (pc_dst_ip ctx) c)) p of
         To_tunnel \<Rightarrow> (snd (chan_send p tt), dt)
       | To_direct \<Rightarrow> (tt, snd (chan_send p dt))
       | Dropped \<Rightarrow> (tt, dt))"
      using Some by (auto simp: handle_packet_route_def routed_def split: prod.split rule_action.split)
  qed
qed

lemma tun_read_simulated:
  assumes "tun_io_step env (From_tun (Inr p) now) st = (None, st')"
    and "within (io_tun_tx st')" and "within (io_direct_tx st')"
  shows "(tun_moves env)\<^sup>*\<^sup>* (tun_view st transport_rx direct_rx) (tun_view st' transport_rx direct_rx)"
proof -
  let ?v = "tun_view st transport_rx direct_rx"
  have r: "snd (snd (handle_packet_route env now p (io_cache st) (io_tun_tx st) (io_direct_tx st)))
      = (io_tun_tx st', io_direct_tx st')"
    using assms(1) by (auto split: prod.splits sum.splits)
  obtain domains where d: "(io_tun_tx st', io_direct_tx st') =
    (case routed env domains p of
       To_tunnel \<Rightarrow> (snd (chan_send p (io_tun_tx st)), io_direct_tx st)
     | To_direct \<Rightarrow> (io_tun_tx st, snd (chan_send p (io_direct_tx st)))
     | Dropped \<Rightarrow> (io_tun_tx st, io_direct_tx st))"
    using r route_of_packet [of env now p "io_cache st" "io_tun_tx st" "io_direct_tx st"] by metis
  show ?thesis
  proof (cases "routed env domains p")
    case To_tunnel
    with d assms(2) have "send_completes p (tk_tun_tx ?v)"
      and v: "tun_view st' transport_rx direct_rx = ?v\<lparr>tk_tun_tx := snd (chan_send p (tk_tun_tx ?v))\<rparr>"
      by (simp_all add: tun_view_def send_completes_def)
    then show ?thesis unfolding v using To_tunnel by (intro tun_reads_into) (simp_all add: tun_view_def)
  next
    case To_direct
    with d assms(3) have "send_completes p (tk_direct_tx ?v)"
      and v: "tun_view st' transport_rx direct_rx = ?v\<lparr>tk_direct_tx := snd (chan_send p (tk_direct_tx ?v))\<rparr>"
      by (simp_all add: tun_view_def send_completes_def)
    then show ?thesis unfolding v using To_direct by (intro tun_direct_into) (simp_all add: tun_view_def)
  next
    case Dropped
    with d have "tun_view st' transport_rx direct_rx = ?v" by (simp add: tun_view_def)
    then show ?thesis by simp
  qed
qed

section \<open>The tasks of a client (mod.rs)\<close>

datatype transport_state = T_select | T_forward bytes

record client_tasks =
  ct_tun :: tun_task
  ct_transport :: transport_state

definition client_tasks_start :: client_tasks where
  "client_tasks_start = \<lparr>ct_tun = tun_task_start, ct_transport = T_select\<rparr>"

inductive transport_task_step :: "client_tasks \<Rightarrow> client_tasks \<Rightarrow> bool" where
  receives_data: "ct_transport s = T_select \<Longrightarrow> transport_task_step s (s\<lparr>ct_transport := T_forward p\<rparr>)"
| forwards: "ct_transport s = T_forward p \<Longrightarrow> send_completes p (tk_transport_rx (ct_tun s))
    \<Longrightarrow> transport_task_step s (s\<lparr>ct_transport := T_select,
          ct_tun := (ct_tun s)\<lparr>tk_transport_rx := snd (chan_send p (tk_transport_rx (ct_tun s)))\<rparr>\<rparr>)"
| sends_packet: "ct_transport s = T_select \<Longrightarrow> chan_recv (tk_tun_tx (ct_tun s)) = (Some (Some p), ch)
    \<Longrightarrow> transport_task_step s (s\<lparr>ct_tun := (ct_tun s)\<lparr>tk_tun_tx := ch\<rparr>\<rparr>)"

inductive client_task_step :: "'n route_env \<Rightarrow> client_tasks \<Rightarrow> client_tasks \<Rightarrow> bool"
  for env :: "'n route_env" where
  client_tun: "tun_moves env (ct_tun s) t \<Longrightarrow> client_task_step env s (s\<lparr>ct_tun := t\<rparr>)"
| client_transport: "transport_task_step s s' \<Longrightarrow> client_task_step env s s'"

inductive_cases transport_task_stepE: "transport_task_step s s'"

inductive_cases client_task_stepE: "client_task_step env s s'"

lemma client_tun_moves:
  "(tun_moves env)\<^sup>*\<^sup>* (ct_tun s) t \<Longrightarrow> (client_task_step env)\<^sup>*\<^sup>* s (s\<lparr>ct_tun := t\<rparr>)"
proof (induction rule: rtranclp_induct)
  case (step t t')
  have "client_task_step env (s\<lparr>ct_tun := t\<rparr>) ((s\<lparr>ct_tun := t\<rparr>)\<lparr>ct_tun := t'\<rparr>)"
    using step.hyps(2) by (intro client_task_step.client_tun) simp
  with step.IH show ?case by (simp add: rtranclp.rtrancl_into_rtrancl)
qed simp

lemma client_ok_reachable:
  "(client_task_step env)\<^sup>*\<^sup>* client_tasks_start s \<Longrightarrow> tun_task_ok (ct_tun s)"
proof (induction rule: rtranclp_induct)
  case base
  show ?case by (simp add: client_tasks_start_def tun_task_ok_start)
next
  case (step s s')
  from step.hyps(2) show ?case
  proof cases
    case (client_tun t)
    then show ?thesis using tun_task_ok_step [OF client_tun(2) step.IH] by simp
  next
    case client_transport
    then show ?thesis
      using step.IH by cases (auto simp: tun_task_ok_def intro: chan_ok_recv chan_ok_send)
  qed
qed

text \<open>The TUN task waits for the transport task and the transport task for the TUN task.\<close>

definition client_stuck :: "client_tasks \<Rightarrow> bool" where
  "client_stuck s \<longleftrightarrow>
     tun_blocked (ct_tun s) \<and> (\<exists>p. ct_transport s = T_forward p) \<and> full (tk_transport_rx (ct_tun s))"

definition client_idle :: "client_tasks \<Rightarrow> bool" where
  "client_idle s \<longleftrightarrow> tk_state (ct_tun s) = Selecting \<and> ct_transport s = T_select"

lemma client_stuck_step:
  assumes "client_task_step env s s'" and "client_stuck s"
  shows "client_stuck s'"
  using assms(1)
proof cases
  case (client_tun t)
  then show ?thesis using tun_blocked_step [OF client_tun(2)] assms(2) by (simp add: client_stuck_def)
next
  case client_transport
  then show ?thesis using assms(2) by cases (auto simp: client_stuck_def full_not_complete)
qed

lemma client_stuck_forever: "(client_task_step env)\<^sup>*\<^sup>* s s' \<Longrightarrow> client_stuck s \<Longrightarrow> client_stuck s'"
  by (induction rule: rtranclp_induct) (auto intro: client_stuck_step)

lemma client_stuck_not_idle: "client_stuck s \<Longrightarrow> \<not> client_idle s"
  by (auto simp: client_stuck_def client_idle_def)

lemma transport_frees_tun:
  assumes "ct_transport s = T_select" and "tun_blocked (ct_tun s)"
  shows "\<exists>ch. client_task_step env s (s\<lparr>ct_tun := (ct_tun s)\<lparr>tk_tun_tx := ch\<rparr>\<rparr>) \<and> ch_receiver ch \<and> within ch
    \<and> \<not> full ch"
proof -
  from assms(2) have f: "full (tk_tun_tx (ct_tun s))" by (simp add: tun_blocked_def)
  then obtain x ch where ch: "chan_recv (tk_tun_tx (ct_tun s)) = (Some (Some x), ch)" "ch_receiver ch" "\<not> full ch"
    by (blast elim: full_recv)
  have "within ch" using chan_recv_keeps [OF ch(1)] f by (simp add: full_def within_def)
  moreover have "client_task_step env s (s\<lparr>ct_tun := (ct_tun s)\<lparr>tk_tun_tx := ch\<rparr>\<rparr>)"
    using assms(1) ch(1) by (intro client_task_step.client_transport transport_task_step.sends_packet)
  ultimately show ?thesis using ch by blast
qed

text \<open>With the transport task in its \<open>select!\<close> both tasks get back to theirs.\<close>

lemma client_idle_from_select:
  assumes "ct_transport s = T_select" and "tun_task_ok (ct_tun s)"
  shows "\<exists>s'. (client_task_step env)\<^sup>*\<^sup>* s s' \<and> client_idle s'"
proof -
  have free: "\<exists>u'. (client_task_step env)\<^sup>*\<^sup>* u u' \<and> client_idle u'"
    if u: "ct_transport u = T_select" "tun_task_ok (ct_tun u)" "\<not> tun_blocked (ct_tun u)" for u
  proof -
    obtain t where t: "(tun_moves env)\<^sup>*\<^sup>* (ct_tun u) t" "tk_state t = Selecting" using tun_returns [OF u(2,3)] by blast
    from client_tun_moves [OF t(1)] show ?thesis by (rule reachI) (simp add: client_idle_def t(2) u(1))
  qed
  show ?thesis
  proof (cases "tun_blocked (ct_tun s)")
    case True
    then obtain ch where ch: "client_task_step env s (s\<lparr>ct_tun := (ct_tun s)\<lparr>tk_tun_tx := ch\<rparr>\<rparr>)" "ch_receiver ch" "within ch" "\<not> full ch"
      using transport_frees_tun [OF assms(1)] by blast
    let ?u = "s\<lparr>ct_tun := (ct_tun s)\<lparr>tk_tun_tx := ch\<rparr>\<rparr>"
    have "tun_task_ok (ct_tun ?u)" using assms(2) ch(2,3) by (simp add: tun_task_ok_def chan_ok_def)
    moreover have "\<not> tun_blocked (ct_tun ?u)" using ch(4) by (simp add: tun_blocked_def)
    ultimately have "\<exists>u'. (client_task_step env)\<^sup>*\<^sup>* ?u u' \<and> client_idle u'" using assms(1) by (intro free) simp_all
    with ch(1) show ?thesis by (rule reach_step)
  qed (rule free [OF assms])
qed

lemma client_forward:
  assumes "ct_transport s = T_forward p" and "send_completes p (tk_transport_rx (ct_tun s))" and "tun_task_ok (ct_tun s)"
  shows "\<exists>s'. client_task_step env s s' \<and> ct_transport s' = T_select \<and> tun_task_ok (ct_tun s')"
proof -
  let ?u = "s\<lparr>ct_transport := T_select,
    ct_tun := (ct_tun s)\<lparr>tk_transport_rx := snd (chan_send p (tk_transport_rx (ct_tun s)))\<rparr>\<rparr>"
  have "client_task_step env s ?u"
    using assms(1,2) by (intro client_task_step.client_transport transport_task_step.forwards)
  moreover have "tun_task_ok (ct_tun ?u)"
    using assms(2,3) chan_ok_send [OF assms(2)] by (simp add: tun_task_ok_def)
  ultimately show ?thesis by (intro exI [of _ ?u]) simp
qed

lemma client_idle_iff:
  assumes "tun_task_ok (ct_tun s)"
  shows "(\<exists>s'. (client_task_step env)\<^sup>*\<^sup>* s s' \<and> client_idle s') \<longleftrightarrow> \<not> client_stuck s"
proof
  assume "\<exists>s'. (client_task_step env)\<^sup>*\<^sup>* s s' \<and> client_idle s'"
  then show "\<not> client_stuck s" using client_stuck_forever client_stuck_not_idle by metis
next
  assume ns: "\<not> client_stuck s"
  show "\<exists>s'. (client_task_step env)\<^sup>*\<^sup>* s s' \<and> client_idle s'"
  proof (cases "ct_transport s")
    case T_select
    from client_idle_from_select [OF this assms] show ?thesis .
  next
    case (T_forward p)
    have "\<exists>u. (client_task_step env)\<^sup>*\<^sup>* s u \<and> ct_transport u = T_forward p
        \<and> send_completes p (tk_transport_rx (ct_tun u)) \<and> tun_task_ok (ct_tun u)"
    proof (cases "tun_blocked (ct_tun s)")
      case True
      with ns T_forward assms have "send_completes p (tk_transport_rx (ct_tun s))"
        by (auto simp: client_stuck_def tun_task_ok_def intro: chan_ok_room)
      with T_forward assms show ?thesis by blast
    next
      case False
      obtain t where t: "(tun_moves env)\<^sup>*\<^sup>* (ct_tun s) t" "send_completes p (tk_transport_rx t)"
        using tun_makes_room [OF assms False] by blast
      from client_tun_moves [OF t(1)] show ?thesis
        by (rule reachI) (simp add: T_forward t(2) tun_task_ok_moves [OF t(1) assms])
    qed
    then obtain u where u: "(client_task_step env)\<^sup>*\<^sup>* s u" "ct_transport u = T_forward p"
      "send_completes p (tk_transport_rx (ct_tun u))" "tun_task_ok (ct_tun u)" by blast
    from client_forward [OF u(2-4)] obtain v where v: "client_task_step env u v" "ct_transport v = T_select" "tun_task_ok (ct_tun v)"
      by blast
    from reach_trans [OF u(1) reach_step [OF v(1) client_idle_from_select [OF v(2,3)]]] show ?thesis .
  qed
qed

text \<open>Packets from the server fill the other channel.\<close>

lemma transport_fills:
  assumes "ct_transport s = T_select" and "ch_receiver (tk_transport_rx (ct_tun s))"
    and "length (ch_queue (tk_transport_rx (ct_tun s))) + n \<le> CHANNEL_CAPACITY"
  shows "(client_task_step env)\<^sup>*\<^sup>* s
    (s\<lparr>ct_tun := (ct_tun s)\<lparr>tk_transport_rx := queue_up (replicate n p) (tk_transport_rx (ct_tun s))\<rparr>\<rparr>)"
  using assms(3)
proof (induction n)
  case (Suc n)
  let ?u = "s\<lparr>ct_tun := (ct_tun s)\<lparr>tk_transport_rx := queue_up (replicate n p) (tk_transport_rx (ct_tun s))\<rparr>\<rparr>"
  let ?v = "?u\<lparr>ct_transport := T_forward p\<rparr>"
  have "(client_task_step env)\<^sup>*\<^sup>* s ?u" using Suc by simp
  also have "client_task_step env ?u ?v"
    using assms(1) by (intro client_task_step.client_transport transport_task_step.receives_data) simp
  also have "client_task_step env ?v (?v\<lparr>ct_transport := T_select,
      ct_tun := (ct_tun ?v)\<lparr>tk_transport_rx := snd (chan_send p (tk_transport_rx (ct_tun ?v)))\<rparr>\<rparr>)"
    using assms(2) Suc.prems by (intro client_task_step.client_transport transport_task_step.forwards)
      (simp_all add: send_completes_def within_def)
  finally show ?case using assms(1,2) by (cases s) (simp add: queue_up_def replicate_append_same)
qed simp

lemma client_stuck_reachable:
  assumes "routed env [] p = To_tunnel"
  shows "\<exists>s. (client_task_step env)\<^sup>*\<^sup>* client_tasks_start s \<and> client_stuck s"
proof -
  have "tk_state tun_task_start = Selecting" "chan_ok (tk_tun_tx tun_task_start)"
    using tun_task_ok_start by (simp_all add: tun_task_start_def tun_task_ok_def)
  from tun_blocks [OF this(1) assms this(2)] obtain t where
    t: "(tun_moves env)\<^sup>*\<^sup>* tun_task_start t" "tun_blocked t" "tk_transport_rx t = tk_transport_rx tun_task_start" by blast
  let ?u = "client_tasks_start\<lparr>ct_tun := t\<rparr>"
  let ?v = "?u\<lparr>ct_tun := t\<lparr>tk_transport_rx := queue_up (replicate CHANNEL_CAPACITY p) (tk_transport_rx t)\<rparr>\<rparr>"
  have "(client_task_step env)\<^sup>*\<^sup>* client_tasks_start ?u"
    using t(1) by (intro client_tun_moves) (simp add: client_tasks_start_def)
  also have "(client_task_step env)\<^sup>*\<^sup>* ?u ?v"
    using transport_fills [of ?u CHANNEL_CAPACITY env p] t(3)
    by (simp add: client_tasks_start_def tun_task_start_def chan_new_def)
  also have "client_task_step env ?v (?v\<lparr>ct_transport := T_forward p\<rparr>)"
    by (intro client_task_step.client_transport transport_task_step.receives_data) (simp add: client_tasks_start_def)
  finally have "(client_task_step env)\<^sup>*\<^sup>* client_tasks_start (?v\<lparr>ct_transport := T_forward p\<rparr>)" .
  then show ?thesis
    by (rule reachI) (use t(2,3) in \<open>simp add: client_stuck_def tun_blocked_def full_def tun_task_start_def chan_new_def\<close>)
qed

section \<open>The tasks of a server (server.rs, tcp.rs)\<close>

text \<open>
  \<open>handle_tun_packet\<close>: waiting for a packet, for the lock with a packet, or, holding the lock, for
  room in the channel of a client.
\<close>

datatype router = R_wait | R_lock bytes | R_send bytes nat

text \<open>
  A connection, named by the number of its channel: in its loop; writing to its socket (an error
  then ends the loop when it was a packet, not when it was the answer to a keepalive); in
  \<open>handle_data\<close>; before one of the critical sections of \<open>handle_handshake\<close> or that of
  \<open>handle_disconnect\<close>, after which it goes on or, when its loop was left, is done and drops its
  channel.
\<close>

datatype conn_phase =
  P_loop
| P_write bool
| P_data bytes
| P_lookup "string + server_config" string "string option" "string option"
| P_commit nat pending
| P_disconnect bool
| P_done

record server_tasks =
  st_server :: server_state
  st_tun :: tun_task
  st_router :: router
  st_phase :: "nat \<Rightarrow> conn_phase"

definition lock_free :: "server_tasks \<Rightarrow> bool" where
  "lock_free s \<longleftrightarrow> (case st_router s of R_send _ _ \<Rightarrow> False | _ \<Rightarrow> True)"

text \<open>A handshake takes the lock to look up a session id, and only when its token is accepted.\<close>

definition needs_lock :: "string + server_config \<Rightarrow> string option \<Rightarrow> string option \<Rightarrow> bool" where
  "needs_lock loaded sid tok \<longleftrightarrow>
     sid \<noteq> None
     \<and> (case loaded of
          Inl _ \<Rightarrow> False
        | Inr config \<Rightarrow> (case tok of None \<Rightarrow> True | Some token \<Rightarrow> validate_token token (sc_token config)))"

definition packet_target :: "bytes \<Rightarrow> server_state \<Rightarrow> nat option" where
  "packet_target p st =
     (case get_destination_ip p of None \<Rightarrow> None | Some ip \<Rightarrow> map_option cl_tx (find_virtual_ip ip st))"

inductive router_step :: "server_tasks \<Rightarrow> server_tasks \<Rightarrow> bool" where
  router_takes: "st_router s = R_wait \<Longrightarrow> chan_recv (tk_tun_tx (st_tun s)) = (Some (Some p), ch)
    \<Longrightarrow> router_step s (s\<lparr>st_router := R_lock p, st_tun := (st_tun s)\<lparr>tk_tun_tx := ch\<rparr>\<rparr>)"
| router_drops: "st_router s = R_lock p \<Longrightarrow> packet_target p (st_server s) = None
    \<Longrightarrow> router_step s (s\<lparr>st_router := R_wait\<rparr>)"
| router_locks: "st_router s = R_lock p \<Longrightarrow> packet_target p (st_server s) = Some tx
    \<Longrightarrow> router_step s (s\<lparr>st_router := R_send p tx\<rparr>)"
| router_sends: "st_router s = R_send p tx \<Longrightarrow> send_completes p (sv_chans (st_server s) tx)
    \<Longrightarrow> router_step s (s\<lparr>st_router := R_wait, st_server := deliver_tun_packet p (st_server s)\<rparr>)"

definition set_conn_phase :: "nat \<Rightarrow> conn_phase \<Rightarrow> server_tasks \<Rightarrow> server_tasks" where
  "set_conn_phase tx ph s = s\<lparr>st_phase := (st_phase s)(tx := ph)\<rparr>"

definition set_chan :: "nat \<Rightarrow> bytes chan \<Rightarrow> server_state \<Rightarrow> server_state" where
  "set_chan tx ch st = st\<lparr>sv_chans := (sv_chans st)(tx := ch)\<rparr>"

inductive conn_step :: "sockaddr \<Rightarrow> nat \<Rightarrow> server_tasks \<Rightarrow> server_tasks \<Rightarrow> bool"
  for peer_addr :: sockaddr and tx :: nat where
  conn_packet: "st_phase s tx = P_loop \<Longrightarrow> chan_recv (sv_chans (st_server s) tx) = (Some (Some p), ch)
    \<Longrightarrow> conn_step peer_addr tx s (set_conn_phase tx (P_write True) (s\<lparr>st_server := set_chan tx ch (st_server s)\<rparr>))"
| conn_keepalive: "st_phase s tx = P_loop \<Longrightarrow> conn_step peer_addr tx s (set_conn_phase tx (P_write False) s)"
| conn_written: "st_phase s tx = P_write leaves \<Longrightarrow> conn_step peer_addr tx s (set_conn_phase tx P_loop s)"
| conn_write_fails: "st_phase s tx = P_write True \<Longrightarrow> conn_step peer_addr tx s (set_conn_phase tx (P_disconnect False) s)"
| conn_data: "st_phase s tx = P_loop \<Longrightarrow> conn_step peer_addr tx s (set_conn_phase tx (P_data p) s)"
| conn_data_done: "st_phase s tx = P_data p \<Longrightarrow> send_completes p (tk_transport_rx (st_tun s))
    \<Longrightarrow> conn_step peer_addr tx s (set_conn_phase tx P_loop (s\<lparr>st_tun :=
          (st_tun s)\<lparr>tk_transport_rx := snd (chan_send p (tk_transport_rx (st_tun s)))\<rparr>\<rparr>))"
| conn_handshake: "st_phase s tx = P_loop
    \<Longrightarrow> conn_step peer_addr tx s (set_conn_phase tx (P_lookup loaded fresh_id sid tok) s)"
| conn_refuses: "st_phase s tx = P_lookup loaded fresh_id sid tok \<Longrightarrow> \<not> needs_lock loaded sid tok \<or> lock_free s
    \<Longrightarrow> handshake_lookup loaded fresh_id peer_addr tx sid tok (st_server s) = (out, st)
    \<Longrightarrow> conn_step peer_addr tx s (set_conn_phase tx P_loop (s\<lparr>st_server := st\<rparr>))"
| conn_admits: "st_phase s tx = P_lookup loaded fresh_id sid tok \<Longrightarrow> \<not> needs_lock loaded sid tok \<or> lock_free s
    \<Longrightarrow> handshake_lookup loaded fresh_id peer_addr tx sid tok (st_server s) = (Hs_accept pd msg, st)
    \<Longrightarrow> conn_step peer_addr tx s (set_conn_phase tx (P_commit now pd) (s\<lparr>st_server := st\<rparr>))"
| conn_commits: "st_phase s tx = P_commit now pd \<Longrightarrow> lock_free s
    \<Longrightarrow> conn_step peer_addr tx s (set_conn_phase tx P_loop (s\<lparr>st_server := handshake_commit now pd (st_server s)\<rparr>))"
| conn_leaves: "st_phase s tx = P_loop \<Longrightarrow> conn_step peer_addr tx s (set_conn_phase tx (P_disconnect goes_on) s)"
| conn_disconnects: "st_phase s tx = P_disconnect True \<Longrightarrow> lock_free s
    \<Longrightarrow> conn_step peer_addr tx s (set_conn_phase tx P_loop (s\<lparr>st_server := handle_disconnect peer_addr (st_server s)\<rparr>))"
| conn_done: "st_phase s tx = P_disconnect False \<Longrightarrow> lock_free s
    \<Longrightarrow> conn_step peer_addr tx s (set_conn_phase tx P_done (s\<lparr>st_server :=
          set_chan tx ((sv_chans (st_server s) tx)\<lparr>ch_receiver := False\<rparr>) (handle_disconnect peer_addr (st_server s))\<rparr>))"

inductive server_task_step :: "'n route_env \<Rightarrow> (nat \<Rightarrow> sockaddr) \<Rightarrow> server_tasks \<Rightarrow> server_tasks \<Rightarrow> bool"
  for env :: "'n route_env" and peer :: "nat \<Rightarrow> sockaddr" where
  server_tun: "tun_moves env (st_tun s) t \<Longrightarrow> server_task_step env peer s (s\<lparr>st_tun := t\<rparr>)"
| server_router: "router_step s s' \<Longrightarrow> server_task_step env peer s s'"
| server_conn: "conn_step (peer tx) tx s s' \<Longrightarrow> server_task_step env peer s s'"
| server_cleanup: "lock_free s
    \<Longrightarrow> server_task_step env peer s (s\<lparr>st_server := cleanup_expired_sessions now (st_server s)\<rparr>)"

lemma server_tun_moves:
  "(tun_moves env)\<^sup>*\<^sup>* (st_tun s) t \<Longrightarrow> (server_task_step env peer)\<^sup>*\<^sup>* s (s\<lparr>st_tun := t\<rparr>)"
proof (induction rule: rtranclp_induct)
  case (step t t')
  have "server_task_step env peer (s\<lparr>st_tun := t\<rparr>) ((s\<lparr>st_tun := t\<rparr>)\<lparr>st_tun := t'\<rparr>)"
    using step.hyps(2) by (intro server_task_step.server_tun) simp
  with step.IH show ?case by (simp add: rtranclp.rtrancl_into_rtrancl)
qed simp

text \<open>
  The router holds the lock for a connection that waits for it, or for one that waits for the TUN
  task, which waits for the router.
\<close>

definition waits_for_lock :: "conn_phase \<Rightarrow> bool" where
  "waits_for_lock ph \<longleftrightarrow>
     (case ph of
        P_lookup loaded _ sid tok \<Rightarrow> needs_lock loaded sid tok
      | P_commit _ _ \<Rightarrow> True
      | P_disconnect _ \<Rightarrow> True
      | _ \<Rightarrow> False)"

definition waits_for_tun :: "tun_task \<Rightarrow> conn_phase \<Rightarrow> bool" where
  "waits_for_tun t ph \<longleftrightarrow> (\<exists>p. ph = P_data p) \<and> full (tk_transport_rx t) \<and> tun_blocked t"

definition server_stuck :: "bytes \<Rightarrow> nat \<Rightarrow> server_tasks \<Rightarrow> bool" where
  "server_stuck p tx s \<longleftrightarrow>
     st_router s = R_send p tx \<and> full (sv_chans (st_server s) tx)
     \<and> (waits_for_lock (st_phase s tx) \<or> waits_for_tun (st_tun s) (st_phase s tx))"

lemma lookup_server:
  assumes "handshake_lookup loaded fresh_id addr tx sid tok st = (out, st')"
  shows "sv_sessions st' = sv_sessions st \<and> sv_chans st' = sv_chans st"
  using assms
  by (auto simp: handshake_lookup_def new_session_def allocate_virtual_ip_def Let_def
      split: sum.splits if_splits option.splits)

text \<open>No step frees the lock again, and meanwhile the sessions stay as they are.\<close>

lemma conn_step_stuck:
  assumes "conn_step addr tx' s s'" and "server_stuck p tx s"
  shows "server_stuck p tx s' \<and> sv_sessions (st_server s') = sv_sessions (st_server s)"
  using assms(1)
proof cases
  case (conn_refuses loaded fresh_id sid tok out st)
  with assms(2) lookup_server [OF conn_refuses(4)] show ?thesis
    by (auto simp: server_stuck_def waits_for_lock_def waits_for_tun_def set_conn_phase_def lock_free_def)
next
  case (conn_admits loaded fresh_id sid tok pd msg st now)
  with assms(2) lookup_server [OF conn_admits(4)] show ?thesis
    by (auto simp: server_stuck_def waits_for_lock_def waits_for_tun_def set_conn_phase_def lock_free_def)
next
  case (conn_data_done q)
  with assms(2) have "tx' \<noteq> tx" "\<not> waits_for_tun (st_tun s) (st_phase s tx)"
    by (auto simp: server_stuck_def waits_for_lock_def waits_for_tun_def full_not_complete)
  with conn_data_done assms(2) show ?thesis by (simp add: server_stuck_def set_conn_phase_def)
qed (use assms(2) in \<open>auto simp: server_stuck_def waits_for_lock_def waits_for_tun_def set_conn_phase_def set_chan_def lock_free_def\<close>)

lemma server_stuck_step:
  assumes "server_task_step env peer s s'" and "server_stuck p tx s"
  shows "server_stuck p tx s' \<and> sv_sessions (st_server s') = sv_sessions (st_server s)"
  using assms(1)
proof cases
  case (server_tun t)
  then show ?thesis
    using assms(2) tun_blocked_step [OF server_tun(2)] by (auto simp: server_stuck_def waits_for_tun_def)
next
  case server_router
  then show ?thesis using assms(2) by cases (auto simp: server_stuck_def full_not_complete)
next
  case (server_conn tx')
  then show ?thesis using conn_step_stuck assms(2) by blast
next
  case (server_cleanup now)
  then show ?thesis using assms(2) by (simp add: server_stuck_def lock_free_def)
qed

lemma server_stuck_locked: "server_stuck p tx s \<Longrightarrow> \<not> lock_free s"
  by (simp add: server_stuck_def lock_free_def)

lemma server_stuck_forever:
  assumes "server_stuck p tx s" and "(server_task_step env peer)\<^sup>*\<^sup>* s s'"
  shows "server_stuck p tx s' \<and> sv_sessions (st_server s') = sv_sessions (st_server s)"
  using assms(2,1) by (induction rule: rtranclp_induct) (auto dest: server_stuck_step)

text \<open>Otherwise the router gets rid of its packet and lets go.\<close>

definition server_tasks_ok :: "server_tasks \<Rightarrow> bool" where
  "server_tasks_ok s \<longleftrightarrow>
     tun_task_ok (st_tun s)
     \<and> (\<forall>tx. within (sv_chans (st_server s) tx)
          \<and> (ch_receiver (sv_chans (st_server s) tx) \<longleftrightarrow> st_phase s tx \<noteq> P_done))
     \<and> (\<forall>p tx. st_router s = R_send p tx \<longrightarrow> packet_target p (st_server s) = Some tx)"

lemma packet_target_sessions:
  "sv_sessions st' = sv_sessions st \<Longrightarrow> packet_target p st' = packet_target p st"
  by (simp add: packet_target_def find_virtual_ip_def split: option.split)

lemma packet_target_chans: "packet_target p (st\<lparr>sv_chans := chans\<rparr>) = packet_target p st"
  by (rule packet_target_sessions) simp

lemma deliver_chans:
  assumes "packet_target p st = Some tx"
  shows "sv_chans (deliver_tun_packet p st) = (sv_chans st)(tx := snd (chan_send p (sv_chans st tx)))"
    and "sv_sessions (deliver_tun_packet p st) = sv_sessions st"
  using assms by (auto simp: packet_target_def deliver_tun_packet_def split: option.splits)

lemma handle_disconnect_chans [simp]: "sv_chans (handle_disconnect addr st) = sv_chans st"
  by (simp add: handle_disconnect_def split: option.split)

lemma router_step_ok:
  assumes "router_step s s'" and "server_tasks_ok s"
  shows "server_tasks_ok s'"
  using assms(1)
proof cases
  case (router_takes p ch)
  with assms(2) show ?thesis by (auto simp: server_tasks_ok_def tun_task_ok_def intro: chan_ok_recv)
next
  case (router_sends p tx)
  then have "packet_target p (st_server s) = Some tx" using assms(2) by (simp add: server_tasks_ok_def)
  with router_sends assms(2) show ?thesis by (auto simp: server_tasks_ok_def deliver_chans send_completes_def)
qed (use assms(2) in \<open>auto simp: server_tasks_ok_def\<close>)

lemma conn_step_ok:
  assumes "conn_step addr tx s s'" and "server_tasks_ok s"
  shows "server_tasks_ok s'"
  using assms(1)
proof cases
  case (conn_packet p ch)
  with assms(2) chan_recv_keeps [OF conn_packet(3)] show ?thesis
    by (auto simp: server_tasks_ok_def set_conn_phase_def set_chan_def packet_target_chans)
next
  case (conn_data_done p)
  with assms(2) show ?thesis
    by (auto simp: server_tasks_ok_def tun_task_ok_def set_conn_phase_def intro: chan_ok_send)
next
  case (conn_refuses loaded fresh_id sid tok out st)
  with assms(2) lookup_server [OF conn_refuses(4)] packet_target_sessions [of st "st_server s"] show ?thesis
    by (auto simp: server_tasks_ok_def set_conn_phase_def)
next
  case (conn_admits loaded fresh_id sid tok pd msg st now)
  with assms(2) lookup_server [OF conn_admits(4)] packet_target_sessions [of st "st_server s"] show ?thesis
    by (auto simp: server_tasks_ok_def set_conn_phase_def)
next
  case conn_done
  with assms(2) show ?thesis
    by (auto simp: server_tasks_ok_def set_conn_phase_def set_chan_def lock_free_def within_def)
qed (use assms(2) in \<open>auto simp: server_tasks_ok_def set_conn_phase_def lock_free_def handshake_commit_def\<close>)

lemma server_tasks_ok_step:
  assumes "server_task_step env peer s s'" and "server_tasks_ok s"
  shows "server_tasks_ok s'"
  using assms(1)
proof cases
  case (server_tun t)
  then show ?thesis using assms(2) tun_task_ok_step [OF server_tun(2)] by (simp add: server_tasks_ok_def)
next
  case (server_cleanup now)
  with assms(2) show ?thesis
    by (auto simp: server_tasks_ok_def lock_free_def cleanup_expired_sessions_def)
qed (use assms(2) router_step_ok conn_step_ok in blast)+

lemma server_tasks_ok_run: "(server_task_step env peer)\<^sup>*\<^sup>* s s' \<Longrightarrow> server_tasks_ok s \<Longrightarrow> server_tasks_ok s'"
  by (induction rule: rtranclp_induct) (auto intro: server_tasks_ok_step)

lemma release_now:
  assumes "st_router s = R_send p tx" and "send_completes p (sv_chans (st_server s) tx)"
  shows "\<exists>s'. (server_task_step env peer)\<^sup>*\<^sup>* s s' \<and> lock_free s'"
proof -
  have "server_task_step env peer s (s\<lparr>st_router := R_wait, st_server := deliver_tun_packet p (st_server s)\<rparr>)"
    using assms by (intro server_task_step.server_router router_step.router_sends)
  from r_into_rtranclp [of "server_task_step env peer", OF this] show ?thesis by (rule reachI) (simp add: lock_free_def)
qed

lemma release_from_loop:
  assumes "st_router s = R_send p tx" and "within (sv_chans (st_server s) tx)" and "st_phase s tx = P_loop"
  shows "\<exists>s'. (server_task_step env peer)\<^sup>*\<^sup>* s s' \<and> lock_free s'"
proof (cases "full (sv_chans (st_server s) tx)")
  case False
  from release_now [OF assms(1) send_completes_room [OF assms(2) False]] show ?thesis .
next
  case True
  then obtain x ch where ch: "chan_recv (sv_chans (st_server s) tx) = (Some (Some x), ch)" "send_completes p ch"
    by (blast elim: full_recv)
  let ?s = "set_conn_phase tx (P_write True) (s\<lparr>st_server := set_chan tx ch (st_server s)\<rparr>)"
  have "server_task_step env peer s ?s"
    using assms(3) ch(1) by (intro server_task_step.server_conn [of peer tx] conn_step.conn_packet)
  then show ?thesis
    by (rule reach_step)
      (rule release_now [of _ p tx], simp_all add: set_conn_phase_def set_chan_def assms(1) ch(2))
qed

text \<open>A connection that goes back to its loop without the lock helps the router.\<close>

lemma release_via_loop:
  assumes "server_task_step env peer s s'" and "st_router s' = R_send p tx" and "st_phase s' tx = P_loop"
    and "server_tasks_ok s"
  shows "\<exists>s'. (server_task_step env peer)\<^sup>*\<^sup>* s s' \<and> lock_free s'"
  using reach_step [OF assms(1) release_from_loop [OF assms(2) _ assms(3)]]
    server_tasks_ok_step [OF assms(1,4)] by (simp add: server_tasks_ok_def)

lemma release_from_data:
  assumes "st_router s = R_send p tx" and "st_phase s tx = P_data d" and "server_tasks_ok s"
    and "\<not> waits_for_tun (st_tun s) (st_phase s tx)"
  shows "\<exists>s'. (server_task_step env peer)\<^sup>*\<^sup>* s s' \<and> lock_free s'"
proof -
  have ok: "tun_task_ok (st_tun s)" using assms(3) by (simp add: server_tasks_ok_def)
  have "\<exists>t. (tun_moves env)\<^sup>*\<^sup>* (st_tun s) t \<and> send_completes d (tk_transport_rx t)"
  proof (cases "tun_blocked (st_tun s)")
    case True
    with assms(2,4) have "\<not> full (tk_transport_rx (st_tun s))" by (simp add: waits_for_tun_def)
    with ok have "send_completes d (tk_transport_rx (st_tun s))" by (simp add: tun_task_ok_def chan_ok_room)
    then show ?thesis by blast
  next
    case False
    with tun_makes_room [OF ok] show ?thesis by blast
  qed
  then obtain t where t: "(tun_moves env)\<^sup>*\<^sup>* (st_tun s) t" "send_completes d (tk_transport_rx t)" by blast
  let ?s = "s\<lparr>st_tun := t\<rparr>"
  have s: "(server_task_step env peer)\<^sup>*\<^sup>* s ?s" by (rule server_tun_moves [OF t(1)])
  have "server_task_step env peer ?s (set_conn_phase tx P_loop (?s\<lparr>st_tun :=
      (st_tun ?s)\<lparr>tk_transport_rx := snd (chan_send d (tk_transport_rx (st_tun ?s)))\<rparr>\<rparr>))"
    using assms(2) t(2) by (intro server_task_step.server_conn [of peer tx] conn_step.conn_data_done) simp_all
  from release_via_loop [OF this, of p tx] server_tasks_ok_run [OF s assms(3)] assms(1)
  have "\<exists>s'. (server_task_step env peer)\<^sup>*\<^sup>* ?s s' \<and> lock_free s'" by (simp add: set_conn_phase_def)
  with s show ?thesis by (rule reach_trans)
qed

lemma release_not_stuck:
  assumes "server_tasks_ok s" and "st_router s = R_send p tx" and "\<not> server_stuck p tx s"
  shows "\<exists>s'. (server_task_step env peer)\<^sup>*\<^sup>* s s' \<and> lock_free s'"
proof (cases "full (sv_chans (st_server s) tx)")
  case False
  with assms(1) have "send_completes p (sv_chans (st_server s) tx)" by (simp add: server_tasks_ok_def send_completes_room)
  from release_now [OF assms(2) this] show ?thesis .
next
  case True
  with assms have nw: "\<not> waits_for_lock (st_phase s tx)" "\<not> waits_for_tun (st_tun s) (st_phase s tx)"
    by (simp_all add: server_stuck_def)
  have w: "within (sv_chans (st_server s) tx)" using assms(1) by (simp add: server_tasks_ok_def)
  show ?thesis
  proof (cases "st_phase s tx")
    case P_loop
    with release_from_loop [OF assms(2) w] show ?thesis by blast
  next
    case (P_write leaves)
    then have "server_task_step env peer s (set_conn_phase tx P_loop s)"
      by (intro server_task_step.server_conn [of peer tx] conn_step.conn_written)
    from release_via_loop [OF this _ _ assms(1), of p tx] assms(2) show ?thesis by (simp add: set_conn_phase_def)
  next
    case (P_data d)
    with release_from_data [OF assms(2) _ assms(1) nw(2)] show ?thesis by blast
  next
    case (P_lookup loaded fresh_id sid tok)
    obtain out st where l: "handshake_lookup loaded fresh_id (peer tx) tx sid tok (st_server s) = (out, st)"
      by (cases "handshake_lookup loaded fresh_id (peer tx) tx sid tok (st_server s)")
    have "\<not> needs_lock loaded sid tok" using nw(1) P_lookup by (simp add: waits_for_lock_def)
    with P_lookup l have "server_task_step env peer s (set_conn_phase tx P_loop (s\<lparr>st_server := st\<rparr>))"
      by (intro server_task_step.server_conn [of peer tx] conn_step.conn_refuses) auto
    from release_via_loop [OF this _ _ assms(1), of p tx] assms(2) show ?thesis by (simp add: set_conn_phase_def)
  next
    case P_done
    with True assms(1) show ?thesis by (simp add: full_def server_tasks_ok_def)
  qed (use nw(1) in \<open>simp_all add: waits_for_lock_def\<close>)
qed

lemma lock_released_iff:
  assumes "server_tasks_ok s"
  shows "(\<exists>s'. (server_task_step env peer)\<^sup>*\<^sup>* s s' \<and> lock_free s') \<longleftrightarrow> \<not> (\<exists>p tx. server_stuck p tx s)"
proof
  assume "\<exists>s'. (server_task_step env peer)\<^sup>*\<^sup>* s s' \<and> lock_free s'"
  then show "\<not> (\<exists>p tx. server_stuck p tx s)"
    by (metis (no_types, lifting) server_stuck_forever server_stuck_locked)
next
  assume ns: "\<not> (\<exists>p tx. server_stuck p tx s)"
  show "\<exists>s'. (server_task_step env peer)\<^sup>*\<^sup>* s s' \<and> lock_free s'"
  proof (cases "lock_free s")
    case False
    then obtain p tx where "st_router s = R_send p tx" by (auto simp: lock_free_def split: router.splits)
    with release_not_stuck [OF assms] ns show ?thesis by blast
  qed blast
qed

text \<open>
  Both ways of getting stuck start with a client that takes no packets: from a state in which the
  TUN task and the router are idle, packets for the client fill its channel, and the router waits
  with the lock held.
\<close>

definition quiet :: "server_tasks \<Rightarrow> bool" where
  "quiet s \<longleftrightarrow>
     server_tasks_ok s \<and> st_router s = R_wait \<and> tk_state (st_tun s) = Selecting \<and> ch_queue (tk_tun_tx (st_tun s)) = []"

lemma recv_after_send:
  "ch_queue ch = [] \<Longrightarrow> ch_receiver ch \<Longrightarrow> chan_recv (snd (chan_send p ch)) = (Some (Some p), ch)"
  by (cases ch) (simp add: chan_recv_def)

lemma router_holds:
  assumes "quiet s" and "routed env [] p = To_tunnel" and "packet_target p (st_server s) = Some tx"
  shows "(server_task_step env peer)\<^sup>*\<^sup>* s (s\<lparr>st_router := R_send p tx\<rparr>)"
proof -
  let ?t = "st_tun s"
  have ch: "ch_receiver (tk_tun_tx ?t)" "send_completes p (tk_tun_tx ?t)"
    using assms(1) by (simp_all add: quiet_def server_tasks_ok_def tun_task_ok_def chan_ok_def
        send_completes_def within_def CHANNEL_CAPACITY_def)
  let ?u = "s\<lparr>st_tun := ?t\<lparr>tk_tun_tx := snd (chan_send p (tk_tun_tx ?t))\<rparr>\<rparr>"
  let ?v = "?u\<lparr>st_router := R_lock p, st_tun := (st_tun ?u)\<lparr>tk_tun_tx := tk_tun_tx ?t\<rparr>\<rparr>"
  have "(server_task_step env peer)\<^sup>*\<^sup>* s ?u"
    using assms(1,2) ch(2) by (intro server_tun_moves tun_reads_into) (simp_all add: quiet_def)
  also have "server_task_step env peer ?u ?v"
    using assms(1) recv_after_send [OF _ ch(1), of p]
    by (intro server_task_step.server_router router_step.router_takes [of _ p]) (simp_all add: quiet_def)
  also have "server_task_step env peer ?v (?v\<lparr>st_router := R_send p tx\<rparr>)"
    using assms(3) by (intro server_task_step.server_router router_step.router_locks) simp_all
  finally show ?thesis by simp
qed

lemma router_round:
  assumes "quiet s" and "routed env [] p = To_tunnel" and "packet_target p (st_server s) = Some tx"
    and "send_completes p (sv_chans (st_server s) tx)"
  shows "(server_task_step env peer)\<^sup>*\<^sup>* s (s\<lparr>st_server := deliver_tun_packet p (st_server s)\<rparr>)"
proof -
  let ?u = "s\<lparr>st_router := R_send p tx\<rparr>"
  let ?v = "?u\<lparr>st_router := R_wait, st_server := deliver_tun_packet p (st_server ?u)\<rparr>"
  have "server_task_step env peer ?u ?v"
    using assms(4) by (intro server_task_step.server_router router_step.router_sends) simp_all
  then have "(server_task_step env peer)\<^sup>*\<^sup>* s ?v"
    by (rule rtranclp.rtrancl_into_rtrancl [OF router_holds [OF assms(1-3)]])
  moreover have "?v = s\<lparr>st_server := deliver_tun_packet p (st_server s)\<rparr>"
    using assms(1) by (cases s) (simp add: quiet_def)
  ultimately show ?thesis by (simp only:)
qed

lemma fill_client_channel:
  assumes "quiet s" and "routed env [] p = To_tunnel" and "packet_target p (st_server s) = Some tx"
    and "ch_receiver (sv_chans (st_server s) tx)"
    and "length (ch_queue (sv_chans (st_server s) tx)) + n \<le> CHANNEL_CAPACITY"
  shows "\<exists>st. (server_task_step env peer)\<^sup>*\<^sup>* s (s\<lparr>st_server := st\<rparr>) \<and> sv_sessions st = sv_sessions (st_server s)
    \<and> sv_chans st tx = queue_up (replicate n p) (sv_chans (st_server s) tx)"
  using assms(5)
proof (induction n)
  case 0
  show ?case by (intro exI [of _ "st_server s"]) simp
next
  case (Suc n)
  then obtain st where st: "(server_task_step env peer)\<^sup>*\<^sup>* s (s\<lparr>st_server := st\<rparr>)"
    "sv_sessions st = sv_sessions (st_server s)" "sv_chans st tx = queue_up (replicate n p) (sv_chans (st_server s) tx)"
    by auto
  let ?s = "s\<lparr>st_server := st\<rparr>"
  have target: "packet_target p (st_server ?s) = Some tx" using assms(3) packet_target_sessions [OF st(2)] by simp
  have "quiet ?s" using server_tasks_ok_run [OF st(1)] assms(1) by (simp add: quiet_def)
  moreover have "send_completes p (sv_chans (st_server ?s) tx)"
    using st(3) assms(4) Suc.prems by (simp add: send_completes_def within_def)
  ultimately have "(server_task_step env peer)\<^sup>*\<^sup>* ?s (?s\<lparr>st_server := deliver_tun_packet p (st_server ?s)\<rparr>)"
    using router_round [OF _ assms(2) target] by blast
  from rtranclp_trans [OF st(1) this] show ?case
    using deliver_chans [OF target] st(2,3) assms(4)
    by (intro exI [of _ "deliver_tun_packet p st"]) (simp add: queue_up_def replicate_append_same)
qed

lemma router_waits:
  assumes "quiet s" and "routed env [] p = To_tunnel" and "packet_target p (st_server s) = Some tx"
    and "st_phase s tx = P_loop"
  shows "\<exists>st. (server_task_step env peer)\<^sup>*\<^sup>* s (s\<lparr>st_server := st, st_router := R_send p tx\<rparr>) \<and> full (sv_chans st tx)"
proof -
  let ?ch = "sv_chans (st_server s) tx"
  let ?n = "CHANNEL_CAPACITY - length (ch_queue ?ch)"
  have ch: "ch_receiver ?ch" "length (ch_queue ?ch) + ?n = CHANNEL_CAPACITY"
    using assms(1,4) by (auto simp: quiet_def server_tasks_ok_def within_def)
  obtain st where st: "(server_task_step env peer)\<^sup>*\<^sup>* s (s\<lparr>st_server := st\<rparr>)"
    "sv_sessions st = sv_sessions (st_server s)" "sv_chans st tx = queue_up (replicate ?n p) ?ch"
    using fill_client_channel [OF assms(1-3) ch(1)] ch(2) by (metis order_refl)
  have "quiet (s\<lparr>st_server := st\<rparr>)" using server_tasks_ok_run [OF st(1)] assms(1) by (simp add: quiet_def)
  moreover have "packet_target p (st_server (s\<lparr>st_server := st\<rparr>)) = Some tx"
    using assms(3) packet_target_sessions [OF st(2)] by simp
  ultimately have "(server_task_step env peer)\<^sup>*\<^sup>* s (s\<lparr>st_server := st, st_router := R_send p tx\<rparr>)"
    using router_holds [OF _ assms(2)] rtranclp_trans [OF st(1)] by blast
  moreover have "full (sv_chans st tx)" using st(3) ch by (simp add: full_def)
  ultimately show ?thesis by blast
qed


text \<open>Or the client keeps sending: its connection waits for the TUN task, which waits for the router.\<close>

lemma conn_fills:
  assumes "st_phase s tx = P_loop" and "ch_receiver (tk_transport_rx (st_tun s))"
    and "length (ch_queue (tk_transport_rx (st_tun s))) + n \<le> CHANNEL_CAPACITY"
  shows "(server_task_step env peer)\<^sup>*\<^sup>* s
    (s\<lparr>st_tun := (st_tun s)\<lparr>tk_transport_rx := queue_up (replicate n d) (tk_transport_rx (st_tun s))\<rparr>\<rparr>)"
  using assms(3)
proof (induction n)
  case (Suc n)
  let ?u = "s\<lparr>st_tun := (st_tun s)\<lparr>tk_transport_rx := queue_up (replicate n d) (tk_transport_rx (st_tun s))\<rparr>\<rparr>"
  let ?v = "set_conn_phase tx (P_data d) ?u"
  have "(server_task_step env peer)\<^sup>*\<^sup>* s ?u" using Suc by simp
  also have "server_task_step env peer ?u ?v"
    using assms(1) by (intro server_task_step.server_conn [of peer tx] conn_step.conn_data) simp
  also have "server_task_step env peer ?v (set_conn_phase tx P_loop (?v\<lparr>st_tun :=
      (st_tun ?v)\<lparr>tk_transport_rx := snd (chan_send d (tk_transport_rx (st_tun ?v)))\<rparr>\<rparr>))"
    using assms(2) Suc.prems by (intro server_task_step.server_conn [of peer tx] conn_step.conn_data_done)
      (simp_all add: set_conn_phase_def send_completes_def within_def)
  finally show ?case
    using assms(1,2) by (cases s) (simp add: set_conn_phase_def queue_up_def replicate_append_same fun_upd_idem)
qed simp

lemma cycle_stuck_reachable:
  assumes "quiet s" and "routed env [] p = To_tunnel" and "packet_target p (st_server s) = Some tx"
    and "st_phase s tx = P_loop"
  shows "\<exists>s'. (server_task_step env peer)\<^sup>*\<^sup>* s s' \<and> server_stuck p tx s' \<and> waits_for_tun (st_tun s') (st_phase s' tx)"
proof -
  obtain st where st: "(server_task_step env peer)\<^sup>*\<^sup>* s (s\<lparr>st_server := st, st_router := R_send p tx\<rparr>)" "full (sv_chans st tx)"
    using router_waits [OF assms] by blast
  let ?s = "s\<lparr>st_server := st, st_router := R_send p tx\<rparr>"
  have tun: "tk_state (st_tun s) = Selecting" "chan_ok (tk_tun_tx (st_tun s))" "chan_ok (tk_transport_rx (st_tun s))"
    using assms(1) by (simp_all add: quiet_def server_tasks_ok_def tun_task_ok_def)
  obtain t where t: "(tun_moves env)\<^sup>*\<^sup>* (st_tun s) t" "tun_blocked t" "tk_transport_rx t = tk_transport_rx (st_tun s)"
    using tun_blocks [OF tun(1) assms(2) tun(2)] by blast
  let ?ch = "tk_transport_rx t"
  let ?n = "CHANNEL_CAPACITY - length (ch_queue ?ch)"
  let ?u = "?s\<lparr>st_tun := t\<rparr>"
  let ?v = "?u\<lparr>st_tun := (st_tun ?u)\<lparr>tk_transport_rx := queue_up (replicate ?n p) (tk_transport_rx (st_tun ?u))\<rparr>\<rparr>"
  have ch: "ch_receiver ?ch" "length (ch_queue ?ch) + ?n = CHANNEL_CAPACITY"
    using tun(3) t(3) by (simp_all add: chan_ok_def within_def)
  note st(1)
  also have "(server_task_step env peer)\<^sup>*\<^sup>* ?s ?u" using t(1) by (intro server_tun_moves) simp
  also have "(server_task_step env peer)\<^sup>*\<^sup>* ?u ?v"
    using assms(4) ch by (intro conn_fills [of _ tx]) simp_all
  also have "server_task_step env peer ?v (set_conn_phase tx (P_data p) ?v)"
    using assms(4) by (intro server_task_step.server_conn [of peer tx] conn_step.conn_data) simp
  finally have "(server_task_step env peer)\<^sup>*\<^sup>* s (set_conn_phase tx (P_data p) ?v)" .
  then show ?thesis
    by (rule reachI) (use st(2) t(2) ch in \<open>simp add: server_stuck_def set_conn_phase_def waits_for_tun_def tun_blocked_def full_def\<close>)
qed

text \<open>In such a cycle none of the three tasks moves again.\<close>

definition cycle_stuck :: "bytes \<Rightarrow> nat \<Rightarrow> server_tasks \<Rightarrow> bool" where
  "cycle_stuck p tx s \<longleftrightarrow> server_stuck p tx s \<and> waits_for_tun (st_tun s) (st_phase s tx)"

lemma cycle_conn_step:
  assumes "conn_step addr tx' s s'" and "cycle_stuck p tx s"
  shows "st_phase s' tx = st_phase s tx \<and> st_tun s' = st_tun s"
  using assms(1)
proof cases
  case (conn_data_done d)
  with assms(2) show ?thesis by (auto simp: cycle_stuck_def waits_for_tun_def full_not_complete)
qed (use assms(2) in \<open>auto simp: cycle_stuck_def server_stuck_def waits_for_tun_def set_conn_phase_def lock_free_def\<close>)

lemma cycle_step:
  assumes "server_task_step env peer s s'" and "cycle_stuck p tx s"
  shows "cycle_stuck p tx s' \<and> st_phase s' tx = st_phase s tx \<and> tk_state (st_tun s') = tk_state (st_tun s)"
proof -
  have stuck: "server_stuck p tx s'" using server_stuck_step [OF assms(1)] assms(2) by (simp add: cycle_stuck_def)
  have w: "tun_blocked (st_tun s)" "full (tk_transport_rx (st_tun s))" "st_router s = R_send p tx"
    using assms(2) by (simp_all add: cycle_stuck_def server_stuck_def waits_for_tun_def)
  have "st_phase s' tx = st_phase s tx \<and> tk_state (st_tun s') = tk_state (st_tun s)
      \<and> tun_blocked (st_tun s') \<and> full (tk_transport_rx (st_tun s'))"
    using assms(1)
  proof cases
    case (server_tun t)
    then show ?thesis
      using w tun_blocked_step [OF server_tun(2) w(1)]
      by (auto elim!: tun_task_stepE pump_stepE simp: tun_blocked_def full_not_complete)
  next
    case server_router
    then show ?thesis
      using assms(2) by cases (auto simp: cycle_stuck_def server_stuck_def full_not_complete)
  next
    case (server_conn tx')
    then show ?thesis using cycle_conn_step [OF server_conn assms(2)] w by simp
  next
    case (server_cleanup now)
    then show ?thesis using w(3) by (simp add: lock_free_def)
  qed
  with stuck assms(2) show ?thesis by (simp add: cycle_stuck_def waits_for_tun_def)
qed

lemma cycle_forever:
  assumes "(server_task_step env peer)\<^sup>*\<^sup>* s s'" and "cycle_stuck p tx s"
  shows "cycle_stuck p tx s' \<and> st_phase s' tx = st_phase s tx \<and> tk_state (st_tun s') = tk_state (st_tun s)"
  using assms by (induction rule: rtranclp_induct) (auto dest: cycle_step)

section \<open>Properties\<close>

text \<open>C12: The TUN task and the transport task of a client can block each other for good.  When both
  channels between them are full, the TUN task waits to hand a packet to the transport task and
  the transport task to hand one to the TUN task, and neither gets back to its select loop any more;
  such a state is reached as soon as the rules send any packet to the tunnel.  It is the only
  obstacle: from every other state the tasks reach, both can get back to their loops.\<close>

theorem client_tasks_block:
  assumes "routed env [] p = To_tunnel"
  shows "(\<exists>s. (client_task_step env)\<^sup>*\<^sup>* client_tasks_start s \<and> client_stuck s)
    \<and> (\<forall>s. (client_task_step env)\<^sup>*\<^sup>* client_tasks_start s
        \<longrightarrow> ((\<exists>s'. (client_task_step env)\<^sup>*\<^sup>* s s' \<and> client_idle s') \<longleftrightarrow> \<not> client_stuck s))"
  using client_stuck_reachable [OF assms] client_idle_iff [OF client_ok_reachable] by blast

lemma example_routed: "routed example_env [] [3] = To_tunnel"
  by (simp add: routed_def example_env_simps)

theorem client_tasks_block_witness:
  "\<exists>s. (client_task_step example_env)\<^sup>*\<^sup>* client_tasks_start s
    \<and> \<not> (\<exists>s'. (client_task_step example_env)\<^sup>*\<^sup>* s s' \<and> client_idle s')"
  using client_tasks_block [OF example_routed] by blast

text \<open>C11: The lock of the server's session map is released again in exactly the states in which the
  router does not hold it while waiting for room in the channel of a connection that itself
  waits for the lock (its loop was left, the peer asked to disconnect, or a handshake is under
  way), or that waits to hand a packet to the TUN task, which waits for the router.\<close>

theorem session_lock_released:
  assumes "server_tasks_ok s" and "(server_task_step env peer)\<^sup>*\<^sup>* s s1"
  shows "(\<exists>s2. (server_task_step env peer)\<^sup>*\<^sup>* s1 s2 \<and> lock_free s2) \<longleftrightarrow> \<not> (\<exists>p tx. server_stuck p tx s1)"
  using lock_released_iff [OF server_tasks_ok_run [OF assms(2,1)]] .

definition example_tasks :: server_tasks where
  "example_tasks =
     \<lparr>st_server = sy_server example_system, st_tun = tun_task_start, st_router = R_wait, st_phase = (\<lambda>_. P_loop)\<rparr>"

lemma example_tasks_target: "packet_target (example_ip_packet 2) (st_server example_tasks) = Some 7"
  by (simp add: packet_target_def example_ip_packet_destination example_tasks_def example_system_def
      find_virtual_ip_def example_client_def)

lemma example_tasks_quiet: "quiet example_tasks"
  using tun_task_ok_start
  by (simp add: quiet_def server_tasks_ok_def example_tasks_def example_system_def chan_new_def within_def
      tun_task_start_def)

lemma example_tasks_routed: "routed example_env [] (example_ip_packet 2) = To_tunnel"
  by (simp add: routed_def example_env_def from_ip_packet_def example_ip_packet_def)

theorem session_lock_released_witness:
  "\<exists>s2. (server_task_step example_env (\<lambda>_. example_addr 4000))\<^sup>*\<^sup>*
      (example_tasks\<lparr>st_router := R_send (example_ip_packet 2) 7\<rparr>) s2 \<and> lock_free s2"
proof -
  let ?s = "example_tasks\<lparr>st_router := R_send (example_ip_packet 2) 7\<rparr>"
  have "server_tasks_ok ?s"
    using example_tasks_target example_tasks_quiet by (simp add: quiet_def server_tasks_ok_def)
  moreover have "\<not> server_stuck p tx ?s" for p tx
    by (simp add: server_stuck_def example_tasks_def waits_for_lock_def waits_for_tun_def)
  ultimately show ?thesis using session_lock_released [of ?s example_env _ ?s] by blast
qed



text \<open>C28: A client that keeps sending without reading can stop the server too, even while it stays
  connected.  From every state in which a client is connected and the TUN task and the router
  have nothing to do, a run leads to a state after which, in every continuation, the router waits
  for room in the client's channel, the client's connection waits to hand a packet to the TUN
  task, and the TUN task waits to hand a packet to the router; the lock is never free again.  The
  rules only have to send some packet for the client to the tunnel.\<close>

theorem packet_cycle_stops_server:
  assumes "quiet s" and "routed env [] p = To_tunnel" and "packet_target p (st_server s) = Some tx"
    and "st_phase s tx = P_loop"
  shows "\<exists>s1 d q. (server_task_step env peer)\<^sup>*\<^sup>* s s1
    \<and> (\<forall>s2. (server_task_step env peer)\<^sup>*\<^sup>* s1 s2
        \<longrightarrow> st_router s2 = R_send p tx \<and> st_phase s2 tx = P_data d \<and> tk_state (st_tun s2) = Await_tunnel q
          \<and> \<not> lock_free s2)"
proof -
  obtain s1 where s1: "(server_task_step env peer)\<^sup>*\<^sup>* s s1" "cycle_stuck p tx s1"
    using cycle_stuck_reachable [OF assms] unfolding cycle_stuck_def by blast
  then obtain d q where "st_phase s1 tx = P_data d" "tk_state (st_tun s1) = Await_tunnel q"
    by (auto simp: cycle_stuck_def waits_for_tun_def tun_blocked_def)
  then have "st_router s2 = R_send p tx \<and> st_phase s2 tx = P_data d \<and> tk_state (st_tun s2) = Await_tunnel q
      \<and> \<not> lock_free s2" if "(server_task_step env peer)\<^sup>*\<^sup>* s1 s2" for s2
    using cycle_forever [OF that s1(2)] by (auto simp: cycle_stuck_def server_stuck_def lock_free_def)
  with s1(1) show ?thesis by blast
qed

theorem packet_cycle_stops_server_witness:
  "\<exists>s1 d q. (server_task_step example_env (\<lambda>_. example_addr 4000))\<^sup>*\<^sup>* example_tasks s1
    \<and> (\<forall>s2. (server_task_step example_env (\<lambda>_. example_addr 4000))\<^sup>*\<^sup>* s1 s2
        \<longrightarrow> st_router s2 = R_send (example_ip_packet 2) 7 \<and> st_phase s2 7 = P_data d
          \<and> tk_state (st_tun s2) = Await_tunnel q \<and> \<not> lock_free s2)"
  by (rule packet_cycle_stops_server [OF example_tasks_quiet example_tasks_routed example_tasks_target])
    (simp add: example_tasks_def)

end
