(* ===== verification/Unit_Tests.thy ===== *)
theory Unit_Tests
  imports Rules_Engine Domain_Cache
begin

text \<open>
  The unit tests of the rules crate, run on the model: \<open>rules/engine.rs\<close>, \<open>rules/matcher.rs\<close>,
  \<open>rules/domain_cache.rs\<close>, \<open>rules/geoip.rs\<close> and \<open>config.rs\<close>.  A test is the conjunction of its
  assertions; an \<open>unwrap\<close> that would panic makes it false.  What a test takes from a library is an
  argument, and the lemma that the test passes says what it expects of that library.
\<close>

section \<open>The engine (engine.rs)\<close>

text \<open>The text of a block sequence, as the tests write it.\<close>

definition yaml_text :: "string list \<Rightarrow> string" where
  "yaml_text items = CHR 0x0A # concat (map (\<lambda>item. ''  - '' @ item @ [CHR 0x0A]) items)"

record 'n engine_libs =
  el_yaml :: "string \<Rightarrow> string + (string + string) list"
  el_net :: "'n ipnet"
  el_open :: "string \<Rightarrow> string + geo_reader"

definition with_geoip :: "geoip_matcher \<Rightarrow> rules_engine \<Rightarrow> rules_engine" where
  "with_geoip geoip engine = engine\<lparr>re_geoip := geoip\<rparr>"

definition engine_of :: "'n engine_libs \<Rightarrow> string list \<Rightarrow> rules_engine option" where
  "engine_of libs items =
     (case from_yaml (el_yaml libs) (ipn_parse (el_net libs)) (yaml_text items) of
        Inl e \<Rightarrow> None
      | Inr config \<Rightarrow> ok (from_config (el_net libs) (el_open libs) config))"

definition create_test_engine :: "'n engine_libs \<Rightarrow> rules_engine option" where
  "create_test_engine libs =
     engine_of libs [''DST-PORT,22,reject'', ''DST-IP-CIDR,10.0.0.0/8,proxy'', ''DST-PORT,443,proxy'', ''MATCH,direct'']"

text \<open>\<open>PacketContext::new\<close> with the addresses parsed from text.\<close>

definition parsed_context :: "string \<Rightarrow> string \<Rightarrow> u16 \<Rightarrow> u16 \<Rightarrow> packet_context option" where
  "parsed_context src dst sp dp =
     (case (parse_ipv4 src, parse_ipv4 dst) of
        (Some src, Some dst) \<Rightarrow> Some (context_new src dst (Some sp) (Some dp) Tcp)
      | _ \<Rightarrow> None)"

definition decides :: "'n engine_libs \<Rightarrow> rules_engine option \<Rightarrow> packet_context option \<Rightarrow> rule_action \<Rightarrow> bool" where
  "decides libs engine packet action =
     (case (engine, packet) of
        (Some engine, Some packet) \<Rightarrow> match_packet (el_net libs) engine packet = action
      | _ \<Rightarrow> False)"

definition test_matches_first_matching_rule :: "'n engine_libs \<Rightarrow> bool" where
  "test_matches_first_matching_rule libs =
     decides libs (create_test_engine libs) (parsed_context ''192.168.1.1'' ''10.0.1.5'' 12345 22) Reject"

definition test_uses_match_rule_as_catch_all :: "'n engine_libs \<Rightarrow> bool" where
  "test_uses_match_rule_as_catch_all libs =
     decides libs (create_test_engine libs) (parsed_context ''192.168.1.1'' ''8.8.8.8'' 12345 80) Direct"

definition test_matches_port_rule :: "'n engine_libs \<Rightarrow> bool" where
  "test_matches_port_rule libs =
     decides libs (create_test_engine libs) (parsed_context ''192.168.1.1'' ''8.8.8.8'' 12345 443) Proxy"

definition test_matches_domain_rule :: "'n engine_libs \<Rightarrow> bool" where
  "test_matches_domain_rule libs =
     decides libs (engine_of libs [''DOMAIN-SUFFIX,example.com,proxy'', ''MATCH,direct''])
       (map_option (\<lambda>ctx. with_domains ctx [''www.example.com''])
          (parsed_context ''192.168.1.1'' ''93.184.216.34'' 12345 443)) Proxy"

definition test_matches_geoip_private_rule :: "'n engine_libs \<Rightarrow> bool" where
  "test_matches_geoip_private_rule libs =
     decides libs
       (map_option (with_geoip without_database) (engine_of libs [''GEOIP,PRIVATE,direct'', ''MATCH,proxy'']))
       (parsed_context ''192.168.1.1'' ''10.0.0.8'' 12345 443) Direct"

definition test_geoip_country_without_database_falls_through :: "'n engine_libs \<Rightarrow> bool" where
  "test_geoip_country_without_database_falls_through libs =
     decides libs
       (map_option (with_geoip without_database) (engine_of libs [''GEOIP,CN,direct'', ''MATCH,proxy'']))
       (parsed_context ''192.168.1.1'' ''8.8.8.8'' 12345 443) Proxy"

text \<open>
  What the tests expect: block sequences of plain scalars are read as lists of strings, and
  \<open>10.0.0.0/8\<close> is a network that contains \<open>10.0.1.5\<close> and not \<open>8.8.8.8\<close>.
\<close>

definition test_items :: "string list list" where
  "test_items =
     [[''DST-PORT,22,reject'', ''DST-IP-CIDR,10.0.0.0/8,proxy'', ''DST-PORT,443,proxy'', ''MATCH,direct''],
      [''DOMAIN-SUFFIX,example.com,proxy'', ''MATCH,direct''],
      [''GEOIP,PRIVATE,direct'', ''MATCH,proxy''],
      [''GEOIP,CN,direct'', ''MATCH,proxy'']]"

definition libs_ok :: "'n engine_libs \<Rightarrow> bool" where
  "libs_ok libs \<longleftrightarrow>
     (\<forall>items \<in> set test_items. el_yaml libs (yaml_text items) = Inr (map Inr items))
     \<and> (\<exists>n. ipn_parse (el_net libs) ''10.0.0.0/8'' = Inr n
          \<and> ipn_contains (el_net libs) n (Ipv4Addr 10 0 1 5) \<and> \<not> ipn_contains (el_net libs) n (Ipv4Addr 8 8 8 8))"

lemma engine_of_rules:
  assumes "el_yaml libs (yaml_text items) = Inr (map Inr items)"
    and "visit_rules (map Inr items) = Inr rules" and "list_all (rule_ok (ipn_parse (el_net libs))) rules"
  shows "engine_of libs items = Some \<lparr>re_rules = rules, re_geoip = without_database\<rparr>"
proof -
  let ?c = "\<lparr>rc_default_action = Reject, rc_rules = rules, rc_geoip_path = None\<rparr>"
  have "validate (ipn_parse (el_net libs)) ?c = Inr ()" using assms(3) by (simp add: validate_Inr)
  moreover have "from_config (el_net libs) (el_open libs) ?c = Inr \<lparr>re_rules = rules, re_geoip = without_database\<rparr>"
    using assms(3) by (simp add: from_config_Inr geoip_load_def without_database_def)
  ultimately show ?thesis
    using assms(1,2) by (simp add: engine_of_def from_yaml_def visit_rules_config_def)
qed

lemmas rule_text_defs = parse_compact_def parse_field_rule_parts_def parse_domain_rule_parts_def
  parse_geoip_rule_parts_def normalize_domain_rule_value_def normalize_geoip_rule_value_def bad_value_char_def
  parse_action_def with_value_def str_eval rule_of_def match_rule_def rule_new_def

lemma test_rules_parsed:
  "visit_rules (map Inr [''DST-PORT,22,reject'', ''DST-IP-CIDR,10.0.0.0/8,proxy'', ''DST-PORT,443,proxy'', ''MATCH,direct''])
     = Inr [rule_of K_dst_port ''22'' Reject, rule_of K_dst_ip_cidr ''10.0.0.0/8'' Proxy,
            rule_of K_dst_port ''443'' Proxy, match_rule Direct]"
  "visit_rules (map Inr [''DOMAIN-SUFFIX,example.com,proxy'', ''MATCH,direct''])
     = Inr [rule_of K_domain_suffix ''example.com'' Proxy, match_rule Direct]"
  "visit_rules (map Inr [''GEOIP,PRIVATE,direct'', ''MATCH,proxy'']) = Inr [rule_of K_geoip ''PRIVATE'' Direct, match_rule Proxy]"
  "visit_rules (map Inr [''GEOIP,CN,direct'', ''MATCH,proxy'']) = Inr [rule_of K_geoip ''CN'' Direct, match_rule Proxy]"
  by (simp_all add: rule_text_defs)

lemma test_engines:
  assumes "libs_ok libs"
  shows "create_test_engine libs = Some \<lparr>re_rules = [rule_of K_dst_port ''22'' Reject,
      rule_of K_dst_ip_cidr ''10.0.0.0/8'' Proxy, rule_of K_dst_port ''443'' Proxy, match_rule Direct],
      re_geoip = without_database\<rparr>"
    "engine_of libs [''DOMAIN-SUFFIX,example.com,proxy'', ''MATCH,direct''] =
      Some \<lparr>re_rules = [rule_of K_domain_suffix ''example.com'' Proxy, match_rule Direct], re_geoip = without_database\<rparr>"
    "engine_of libs [''GEOIP,PRIVATE,direct'', ''MATCH,proxy''] =
      Some \<lparr>re_rules = [rule_of K_geoip ''PRIVATE'' Direct, match_rule Proxy], re_geoip = without_database\<rparr>"
    "engine_of libs [''GEOIP,CN,direct'', ''MATCH,proxy''] =
      Some \<lparr>re_rules = [rule_of K_geoip ''CN'' Direct, match_rule Proxy], re_geoip = without_database\<rparr>"
proof -
  note ok = rule_ok_def formats_ok_def value_ok_def bad_value_char_def has_conditions_def opt_all_def rule_of_def
    match_rule_def rule_new_def parse_port_range_def parse_u16_def parse_uint_def str_eval is_ok_iff
  have yaml: "items \<in> set test_items \<Longrightarrow> el_yaml libs (yaml_text items) = Inr (map Inr items)" for items
    using assms by (simp add: libs_ok_def)
  have net: "\<exists>n. ipn_parse (el_net libs) ''10.0.0.0/8'' = Inr n" using assms by (auto simp: libs_ok_def)
  show "create_test_engine libs = Some \<lparr>re_rules = [rule_of K_dst_port ''22'' Reject,
      rule_of K_dst_ip_cidr ''10.0.0.0/8'' Proxy, rule_of K_dst_port ''443'' Proxy, match_rule Direct],
      re_geoip = without_database\<rparr>"
    unfolding create_test_engine_def
    by (rule engine_of_rules [OF yaml test_rules_parsed(1)]) (use net in \<open>simp_all add: test_items_def ok\<close>)
  show "engine_of libs [''DOMAIN-SUFFIX,example.com,proxy'', ''MATCH,direct''] =
      Some \<lparr>re_rules = [rule_of K_domain_suffix ''example.com'' Proxy, match_rule Direct], re_geoip = without_database\<rparr>"
    by (rule engine_of_rules [OF yaml test_rules_parsed(2)]) (simp_all add: test_items_def ok)
  show "engine_of libs [''GEOIP,PRIVATE,direct'', ''MATCH,proxy''] =
      Some \<lparr>re_rules = [rule_of K_geoip ''PRIVATE'' Direct, match_rule Proxy], re_geoip = without_database\<rparr>"
    by (rule engine_of_rules [OF yaml test_rules_parsed(3)]) (simp_all add: test_items_def ok)
  show "engine_of libs [''GEOIP,CN,direct'', ''MATCH,proxy''] =
      Some \<lparr>re_rules = [rule_of K_geoip ''CN'' Direct, match_rule Proxy], re_geoip = without_database\<rparr>"
    by (rule engine_of_rules [OF yaml test_rules_parsed(4)]) (simp_all add: test_items_def ok)
qed

lemma test_contexts:
  "parsed_context ''192.168.1.1'' ''10.0.1.5'' sp dp = Some (context_new (Ipv4Addr 192 168 1 1) (Ipv4Addr 10 0 1 5) (Some sp) (Some dp) Tcp)"
  "parsed_context ''192.168.1.1'' ''8.8.8.8'' sp dp = Some (context_new (Ipv4Addr 192 168 1 1) (Ipv4Addr 8 8 8 8) (Some sp) (Some dp) Tcp)"
  "parsed_context ''192.168.1.1'' ''10.0.0.8'' sp dp = Some (context_new (Ipv4Addr 192 168 1 1) (Ipv4Addr 10 0 0 8) (Some sp) (Some dp) Tcp)"
  "parsed_context ''192.168.1.1'' ''93.184.216.34'' sp dp =
     Some (context_new (Ipv4Addr 192 168 1 1) (Ipv4Addr 93 184 216 34) (Some sp) (Some dp) Tcp)"
  by (simp_all add: parsed_context_def parse_ipv4_def read_ipv4_addr_def numeral_eq_Suc read_number_def to_digit_def
      read_given_char_def Let_def str_eval)

lemma engine_tests_pass:
  assumes "libs_ok libs"
  shows "test_matches_first_matching_rule libs" "test_uses_match_rule_as_catch_all libs" "test_matches_port_rule libs"
    "test_matches_domain_rule libs" "test_matches_geoip_private_rule libs"
    "test_geoip_country_without_database_falls_through libs"
proof -
  obtain n where n: "ipn_parse (el_net libs) ''10.0.0.0/8'' = Inr n"
    "ipn_contains (el_net libs) n (Ipv4Addr 10 0 1 5)" "\<not> ipn_contains (el_net libs) n (Ipv4Addr 8 8 8 8)"
    using assms by (auto simp: libs_ok_def)
  note eval = decides_def test_engines [OF assms] test_contexts match_packet_def matches_iff rule_of_def rule_new_def
    match_rule_def opt_all_def context_new_def with_domains_def matches_port_def parse_port_range_def parse_u16_def
    parse_uint_def matches_ip_def n matches_domain_suffix_def suffix_def geoip_matches_def without_database_def
    with_geoip_def eq_ignore_ascii_case_def is_private_ip_def str_eval
  show "test_matches_first_matching_rule libs" by (simp add: test_matches_first_matching_rule_def eval)
  show "test_uses_match_rule_as_catch_all libs" by (simp add: test_uses_match_rule_as_catch_all_def eval)
  show "test_matches_port_rule libs" by (simp add: test_matches_port_rule_def eval)
  show "test_matches_domain_rule libs" by (simp add: test_matches_domain_rule_def eval)
  show "test_matches_geoip_private_rule libs" by (simp add: test_matches_geoip_private_rule_def eval)
  show "test_geoip_country_without_database_falls_through libs"
    by (simp add: test_geoip_country_without_database_falls_through_def eval)
qed

section \<open>The matcher (matcher.rs)\<close>

definition matches_exact_domain_only :: bool where
  "matches_exact_domain_only =
     (let domains = [''example.com'', ''www.example.org'']
      in matches_domain ''example.com'' domains \<and> \<not> matches_domain ''www.example.com'' domains)"

definition matches_domain_suffix_with_root_and_subdomain :: bool where
  "matches_domain_suffix_with_root_and_subdomain =
     (let domains = [''example.com'', ''www.example.com'']
      in matches_domain_suffix ''example.com'' domains \<and> matches_domain_suffix ''www.example.com'' domains
         \<and> \<not> matches_domain_suffix ''ample.com'' domains)"

definition test_matches_domain_keyword :: bool where
  "test_matches_domain_keyword =
     (let domains = [''www.youtube.com'']
      in matches_domain_keyword ''youtube'' domains \<and> \<not> matches_domain_keyword ''google'' domains)"

definition domain_rules_do_not_match_without_domains :: bool where
  "domain_rules_do_not_match_without_domains =
     (let domains = []
      in \<not> matches_domain ''example.com'' domains \<and> \<not> matches_domain_suffix ''example.com'' domains
         \<and> \<not> matches_domain_keyword ''example'' domains)"

lemma matcher_tests_pass:
  "matches_exact_domain_only" "matches_domain_suffix_with_root_and_subdomain" "test_matches_domain_keyword"
  "domain_rules_do_not_match_without_domains"
  by (simp_all add: matches_exact_domain_only_def matches_domain_suffix_with_root_and_subdomain_def
      test_matches_domain_keyword_def domain_rules_do_not_match_without_domains_def matches_domain_def
      matches_domain_suffix_def matches_domain_keyword_def suffix_def sublist_Cons_right prefix_Cons)

section \<open>The domain cache (domain_cache.rs)\<close>

text \<open>The packet the tests build: an IPv4 header, a UDP header and the payload.\<close>

definition u16_be :: "nat \<Rightarrow> bytes" where
  "u16_be n = (let w = (of_nat n :: u16) in [ucast (drop_bit 8 w), ucast w])"

definition udp_packet :: "bytes \<Rightarrow> bytes" where
  "udp_packet payload =
     (let udp_len = 8 + length payload; total_len = 20 + udp_len
      in [0x45, 0] @ u16_be total_len @ u16_be 0 @ u16_be 0 @ [64, 17] @ u16_be 0
         @ octets (Ipv4Addr 8 8 8 8) @ octets (Ipv4Addr 10 0 0 2)
         @ u16_be 53 @ u16_be 53000 @ u16_be udp_len @ u16_be 0 @ payload)"

text \<open>\<open>to_vec\<close> of a DNS message is the library's; a response with one address record.\<close>

definition dns_response_packet :: "(dns_message \<Rightarrow> bytes) \<Rightarrow> string \<Rightarrow> ipv4addr \<Rightarrow> u32 \<Rightarrow> bytes" where
  "dns_response_packet to_vec domain addr ttl =
     udp_packet (to_vec \<lparr>dm_type = DnsResponse,
       dm_answers = [\<lparr>da_name = domain, da_ttl = ttl, da_data = RData_A addr\<rparr>]\<rparr>)"

text \<open>The instants read by the insertion and by the lookup.\<close>

definition caches_a_records_from_dns_response ::
  "slicer \<Rightarrow> dns_parser \<Rightarrow> (dns_message \<Rightarrow> bytes) \<Rightarrow> nat \<Rightarrow> nat \<Rightarrow> bool" where
  "caches_a_records_from_dns_response slice_ip dns to_vec inserted looked_up =
     (let packet = dns_response_packet to_vec ''Example.COM.'' (Ipv4Addr 1 2 3 4) 60;
          cache = observe_packet slice_ip dns (\<lambda>_. inserted) packet cache_new
      in fst (cache_lookup looked_up (Ipv4Addr 1 2 3 4) cache) = [''example.com''])"

definition millis :: "nat \<Rightarrow> nat" where
  "millis n = n * 1000000"

definition drops_expired_entries :: "nat \<Rightarrow> nat \<Rightarrow> bool" where
  "drops_expired_entries inserted looked_up =
     (let cache = cache_insert inserted (Ipv4Addr 1 2 3 4) ''example.com'' (millis 1) cache_new
      in fst (cache_lookup looked_up (Ipv4Addr 1 2 3 4) cache) = [])"

text \<open>
  The libraries read back what the test wrote: the parts of the packet, and the message.  The
  lookup comes before the minute is over; in the second test, after a sleep of five milliseconds.
\<close>

lemma cache_tests_pass:
  fixes slice_ip dns to_vec
  defines "message \<equiv> \<lparr>dm_type = DnsResponse,
    dm_answers = [\<lparr>da_name = ''Example.COM.'', da_ttl = 60, da_data = RData_A (Ipv4Addr 1 2 3 4)\<rparr>]\<rparr>"
  assumes "slice_ip (udp_packet (to_vec message)) =
      Inr \<lparr>sl_net = Some (Ipv4Slice (Ipv4Addr 8 8 8 8) (Ipv4Addr 10 0 0 2)),
           sl_transport = Some (UdpSlice 53 53000 (to_vec message))\<rparr>"
    and "dns (to_vec message) = Inr message"
  shows "inserted \<le> looked_up \<Longrightarrow> looked_up < inserted + secs 60
      \<Longrightarrow> caches_a_records_from_dns_response slice_ip dns to_vec inserted looked_up"
    "inserted + millis 5 \<le> looked_up \<Longrightarrow> drops_expired_entries inserted looked_up"
  using assms
  by (simp_all add: caches_a_records_from_dns_response_def drops_expired_entries_def dns_response_packet_def
      observe_packet_def dns_response_payload_def cache_insert_def cache_lookup_def cache_new_def normalize_domain_def
      secs_def millis_def str_eval Let_def)

section \<open>Countries (geoip.rs)\<close>

definition DB_PATH :: string where
  "DB_PATH = ''rules/geoip/GeoLite2-Country.mmdb''"

definition load_db :: "(string \<Rightarrow> string + geo_reader) \<Rightarrow> geoip_matcher" where
  "load_db open_readfile = geoip_load open_readfile (Some DB_PATH)"

definition test_is_private_ip :: bool where
  "test_is_private_ip \<longleftrightarrow>
     is_private_ip (Ipv4Addr 10 0 0 1) \<and> is_private_ip (Ipv4Addr 172 16 0 1) \<and> is_private_ip (Ipv4Addr 192 168 0 1)
     \<and> is_private_ip (Ipv4Addr 127 0 0 1) \<and> is_private_ip (Ipv4Addr 169 254 1 1) \<and> is_private_ip (Ipv4Addr 0 0 0 0)
     \<and> is_private_ip (Ipv4Addr 255 255 255 255) \<and> is_private_ip (Ipv4Addr 224 0 0 1)
     \<and> is_private_ip (Ipv4Addr 100 64 0 1) \<and> is_private_ip (Ipv4Addr 100 127 255 255)
     \<and> \<not> is_private_ip (Ipv4Addr 8 8 8 8) \<and> \<not> is_private_ip (Ipv4Addr 1 1 1 1)
     \<and> \<not> is_private_ip (Ipv4Addr 100 63 255 255) \<and> \<not> is_private_ip (Ipv4Addr 100 128 0 0)"

definition test_matches_private_without_database :: bool where
  "test_matches_private_without_database =
     (let matcher = without_database
      in geoip_matches matcher (Ipv4Addr 10 0 0 1) ''PRIVATE'' \<and> geoip_matches matcher (Ipv4Addr 192 168 1 1) ''private''
         \<and> geoip_matches matcher (Ipv4Addr 127 0 0 1) ''Private'' \<and> \<not> geoip_matches matcher (Ipv4Addr 8 8 8 8) ''PRIVATE'')"

definition test_matches_private_with_database :: "(string \<Rightarrow> string + geo_reader) \<Rightarrow> bool" where
  "test_matches_private_with_database open_readfile =
     (let matcher = load_db open_readfile
      in geoip_matches matcher (Ipv4Addr 10 0 0 1) ''PRIVATE'' \<and> \<not> geoip_matches matcher (Ipv4Addr 8 8 8 8) ''PRIVATE'')"

definition test_database_country_code_matches_us :: "(string \<Rightarrow> string + geo_reader) \<Rightarrow> bool" where
  "test_database_country_code_matches_us open_readfile =
     (let matcher = load_db open_readfile in geoip_matches matcher (Ipv4Addr 8 8 8 8) ''US'')"

definition test_database_country_code_matches_cn :: "(string \<Rightarrow> string + geo_reader) \<Rightarrow> bool" where
  "test_database_country_code_matches_cn open_readfile =
     (let matcher = load_db open_readfile in geoip_matches matcher (Ipv4Addr 223 5 5 5) ''CN'')"

definition test_database_country_code_does_not_match_wrong_country :: "(string \<Rightarrow> string + geo_reader) \<Rightarrow> bool" where
  "test_database_country_code_does_not_match_wrong_country open_readfile =
     (let matcher = load_db open_readfile
      in \<not> geoip_matches matcher (Ipv4Addr 8 8 8 8) ''CN'' \<and> \<not> geoip_matches matcher (Ipv4Addr 8 8 8 8) ''DE'')"

definition test_database_country_code_case_insensitive :: "(string \<Rightarrow> string + geo_reader) \<Rightarrow> bool" where
  "test_database_country_code_case_insensitive open_readfile =
     (let matcher = load_db open_readfile
      in geoip_matches matcher (Ipv4Addr 8 8 8 8) ''us'' \<and> geoip_matches matcher (Ipv4Addr 8 8 8 8) ''Us''
         \<and> geoip_matches matcher (Ipv4Addr 223 5 5 5) ''cn'')"

definition test_database_unknown_code_returns_false :: "(string \<Rightarrow> string + geo_reader) \<Rightarrow> bool" where
  "test_database_unknown_code_returns_false open_readfile =
     (let matcher = load_db open_readfile in \<not> geoip_matches matcher (Ipv4Addr 8 8 8 8) ''XX'')"

definition test_without_database_country_code_always_false :: bool where
  "test_without_database_country_code_always_false =
     (let matcher = without_database
      in \<not> geoip_matches matcher (Ipv4Addr 8 8 8 8) ''US'' \<and> \<not> geoip_matches matcher (Ipv4Addr 1 1 1 1) ''CN''
         \<and> \<not> geoip_matches matcher (Ipv4Addr 223 5 5 5) ''CN'')"

lemmas geoip_test_defs = test_is_private_ip_def test_matches_private_without_database_def
  test_matches_private_with_database_def test_database_country_code_matches_us_def
  test_database_country_code_matches_cn_def test_database_country_code_does_not_match_wrong_country_def
  test_database_country_code_case_insensitive_def test_database_unknown_code_returns_false_def
  test_without_database_country_code_always_false_def

lemmas geoip_eval = geoip_matches_def is_private_ip_def is_cgnat_def
  without_database_def
  eq_ignore_ascii_case_def str_eval Let_def

lemma private_tests_pass:
  "test_is_private_ip" "test_matches_private_without_database" "test_matches_private_with_database open_readfile"
  "test_without_database_country_code_always_false"
  by (simp_all add: geoip_test_defs geoip_eval word_le_nat_alt)

text \<open>The database of the tests: it has 8.8.8.8 in the United States and 223.5.5.5 in China.\<close>

lemma database_tests_pass:
  assumes "open_readfile DB_PATH = Inr reader"
    and "reader (V4 (Ipv4Addr 8 8 8 8)) = Inr (Inr (Some \<lparr>co_country = Some ''US'', co_registered = Some ''US'', co_represented = None\<rparr>))"
    and "reader (V4 (Ipv4Addr 223 5 5 5)) = Inr (Inr (Some \<lparr>co_country = Some ''CN'', co_registered = Some ''CN'', co_represented = None\<rparr>))"
  shows "test_database_country_code_matches_us open_readfile" "test_database_country_code_matches_cn open_readfile"
    "test_database_country_code_does_not_match_wrong_country open_readfile"
    "test_database_country_code_case_insensitive open_readfile" "test_database_unknown_code_returns_false open_readfile"
proof -
  have db: "load_db open_readfile = \<lparr>gm_reader = Some reader\<rparr>"
    using assms(1) by (simp add: load_db_def geoip_load_def DB_PATH_def str_eval)
  show "test_database_country_code_matches_us open_readfile" "test_database_country_code_matches_cn open_readfile"
    "test_database_country_code_does_not_match_wrong_country open_readfile"
    "test_database_country_code_case_insensitive open_readfile" "test_database_unknown_code_returns_false open_readfile"
    by (simp_all add: geoip_test_defs db geoip_eval assms(2,3))
qed

section \<open>Configuration (config.rs)\<close>

definition app_config_text :: string where
  "app_config_text =
     concat (map (\<lambda>l. l @ [CHR 0x0A])
       [[], ''rules:'', ''  - GEOIP,CN,direct'', ''rule_sets:'', ''  geoip_path: rules/geoip/GeoLite2-Country.mmdb''])"

definition app_config_applies_rule_set_geoip_path :: "(string \<Rightarrow> string + app_config) \<Rightarrow> bool" where
  "app_config_applies_rule_set_geoip_path of_yaml =
     (case of_yaml app_config_text of
        Inl e \<Rightarrow> False
      | Inr config \<Rightarrow>
          rc_geoip_path (ac_rules (apply_rule_set_paths config)) = Some ''rules/geoip/GeoLite2-Country.mmdb'')"

lemma config_test_passes:
  assumes "of_yaml app_config_text = Inr config"
    and "rs_geoip_path (ac_rule_sets config) = Some ''rules/geoip/GeoLite2-Country.mmdb''"
  shows "app_config_applies_rule_set_geoip_path of_yaml"
  using assms by (simp add: app_config_applies_rule_set_geoip_path_def apply_rule_set_paths_def)

section \<open>Libraries the tests pass with\<close>

text \<open>A reader of the block sequences in the tests, and the networks of \<open>cidr_net\<close>.\<close>

definition read_items :: "string \<Rightarrow> string + (string + string) list" where
  "read_items s = Inr (map (\<lambda>l. Inr (drop 4 l)) (filter (\<lambda>l. l \<noteq> []) (split_on (CHR 0x0A) s)))"

definition example_libs :: "(ipv4addr \<times> nat) engine_libs" where
  "example_libs = \<lparr>el_yaml = read_items, el_net = cidr_net, el_open = (\<lambda>_. Inl ''no file'')\<rparr>"

lemma example_libs_ok: "libs_ok example_libs"
proof -
  have "\<forall>items \<in> set test_items. read_items (yaml_text items) = Inr (map Inr items)"
    by (simp add: test_items_def read_items_def yaml_text_def str_eval)
  moreover have "cidr_parse ''10.0.0.0/8'' = Inr (Ipv4Addr 10 0 0 0, 8)"
    by (simp add: cidr_parse_def parse_ipv4_def read_ipv4_addr_def numeral_eq_Suc read_number_def to_digit_def
        read_given_char_def parse_uint_def Let_def str_eval)
  ultimately show ?thesis by (simp add: libs_ok_def example_libs_def cidr_net_def in_cidr_def)
qed

lemma engine_tests_run:
  "test_matches_first_matching_rule example_libs" "test_matches_domain_rule example_libs"
  "test_matches_geoip_private_rule example_libs" "test_geoip_country_without_database_falls_through example_libs"
  using engine_tests_pass [OF example_libs_ok] by simp_all

end
