(* ===== verification/Ip_Text.thy ===== *)
theory Ip_Text
  imports Net_Addr
begin

text \<open>
  Addresses survive being printed and read back, IPv6 with its compressed zeros included.  The
  server sends addresses to its clients as text, so the network both ends agree on rests on
  this.
\<close>

section \<open>Groups in hexadecimal\<close>

lemma hex_digit_props:
  assumes "d < 16"
  shows "to_digit 16 (hex_digit d) = Some d" and "hex_digit d \<noteq> CHR ''.''"
proof -
  have "code_point (hex_digit d) = (if d < 10 then 48 + d else 87 + d)"
    using assms by (simp add: hex_digit_def code_point_char_of)
  then show "to_digit 16 (hex_digit d) = Some d"
    using assms
    by (auto simp: to_digit_def is_digit_def digit_val_def is_ascii_lower_def is_ascii_upper_def Let_def)
  have "code_point CHR ''.'' = 46" by (simp add: code_point_def)
  with \<open>code_point (hex_digit d) = _\<close> show "hex_digit d \<noteq> CHR ''.''" by (auto split: if_splits)
qed

definition hex_char :: "char \<Rightarrow> bool" where
  "hex_char c \<longleftrightarrow> (\<exists>d < 16. to_digit 16 c = Some d) \<and> c \<noteq> CHR ''.''"

lemma hex_of_nat_chars: "c \<in> set (hex_of_nat n) \<Longrightarrow> hex_char c"
proof (induction n arbitrary: c rule: hex_of_nat.induct)
  case (1 n)
  then show ?case
    by (subst (asm) (2) hex_of_nat.simps)
      (auto simp: hex_char_def hex_digit_props split: if_splits)
qed

lemma hex_of_nat_not_Nil [simp]: "hex_of_nat n \<noteq> []"
  by (subst hex_of_nat.simps) simp

lemma length_hex_of_nat: "n < 16 ^ k \<Longrightarrow> 0 < k \<Longrightarrow> length (hex_of_nat n) \<le> k"
proof (induction k arbitrary: n)
  case (Suc k)
  show ?case
  proof (cases "n < 16")
    case True
    then show ?thesis by (simp add: hex_of_nat.simps)
  next
    case False
    with Suc.prems have "n div 16 < 16 ^ k" and "0 < k" by (auto intro: gr0I)
    with Suc.IH [of "n div 16"] False show ?thesis by (subst hex_of_nat.simps) simp
  qed
qed simp

definition hex_val :: "nat \<Rightarrow> string \<Rightarrow> nat" where
  "hex_val = foldl (\<lambda>r c. r * 16 + the (to_digit 16 c))"

lemma hex_val_hex_of_nat: "hex_val 0 (hex_of_nat n) = n"
proof (induction n rule: hex_of_nat.induct)
  case (1 n)
  then show ?case
    by (subst hex_of_nat.simps) (simp add: hex_val_def hex_digit_props)
qed

text \<open>What may follow a group.\<close>

definition no_digit :: "string \<Rightarrow> bool" where
  "no_digit rest \<longleftrightarrow> rest = [] \<or> to_digit 16 (hd rest) = None"

lemma no_digit_simps [simp]: "no_digit []" "no_digit (CHR '':'' # s)"
  by (simp_all add: no_digit_def to_digit_def is_digit_def is_ascii_lower_def is_ascii_upper_def
      code_point_def)

lemma read_digits_16:
  assumes "\<forall>c \<in> set ds. hex_char c" and "no_digit rest" and "cnt + length ds \<le> maxd"
  shows "read_digits 16 maxd res cnt (ds @ rest) = Some (hex_val res ds, cnt + length ds, rest)"
  using assms
proof (induction ds arbitrary: res cnt)
  case Nil
  then show ?case by (cases rest) (auto simp: no_digit_def hex_val_def)
qed (auto simp: hex_char_def hex_val_def)

lemma read_number_hex:
  assumes "no_digit rest"
  shows "read_number 16 4 True 65535 (hex_of_nat (unat (g :: u16)) @ rest) = Some (unat g, rest)"
proof -
  have g: "unat g < 65536" by (rule unat_u16_less)
  then have "length (hex_of_nat (unat g)) \<le> 4" by (intro length_hex_of_nat) auto
  then have "read_digits 16 4 0 0 (hex_of_nat (unat g) @ rest) =
      Some (unat g, length (hex_of_nat (unat g)), rest)"
    using read_digits_16 [of "hex_of_nat (unat g)" rest 0 4 0] assms hex_of_nat_chars
    by (simp add: hex_val_hex_of_nat)
  with g show ?thesis by (simp add: read_number_def)
qed

section \<open>A text without dots is no IPv4 address\<close>

lemma read_digits_suffix: "read_digits radix maxd res cnt s = Some (v, n, rest) \<Longrightarrow> set rest \<subseteq> set s"
  by (induction radix maxd res cnt s rule: read_digits.induct) (auto split: option.splits if_splits)

lemma read_number_suffix: "read_number radix maxd z limit s = Some (v, rest) \<Longrightarrow> set rest \<subseteq> set s"
  by (auto simp: read_number_def dest!: read_digits_suffix split: option.splits prod.splits if_splits)

lemma read_octets_no_dot: "0 < n \<Longrightarrow> CHR ''.'' \<notin> set s \<Longrightarrow> read_octets n False s = None"
  by (cases n) (auto simp: read_given_char_def split: list.split)

lemma read_ipv4_no_dot:
  assumes "CHR ''.'' \<notin> set s"
  shows "read_ipv4_addr s = None"
proof -
  have "read_octets (Suc 3) True s = None"
  proof (cases "read_number 10 3 False 255 s")
    case (Some p)
    obtain v rest where p: "p = (v, rest)" by (cases p)
    with Some assms have "CHR ''.'' \<notin> set rest" by (auto dest!: read_number_suffix)
    then have "read_octets 3 False rest = None" by (intro read_octets_no_dot) simp_all
    with Some p show ?thesis by (simp only: read_octets.simps if_True option.case prod.case)
  qed (simp only: read_octets.simps if_True option.case)
  moreover have "Suc 3 = 4" by simp
  ultimately show ?thesis by (simp only: read_ipv4_addr_def option.case)
qed

lemma read_ipv4_no_start:
  assumes "\<not> is_digit c"
  shows "read_ipv4_addr (c # s) = None"
proof -
  have "read_number 10 3 False 255 (c # s) = None"
    using assms by (simp add: read_number_def to_digit_10)
  then have "read_octets (Suc 3) True (c # s) = None"
    by (simp only: read_octets.simps if_True option.case)
  moreover have "Suc 3 = 4" by simp
  ultimately show ?thesis by (simp only: read_ipv4_addr_def option.case)
qed

lemma colon_f_no_digit [simp]: "\<not> is_digit CHR '':''" "\<not> is_digit CHR ''f''"
  by (simp_all add: is_digit_def code_point_def)

section \<open>Reading groups back\<close>

lemma fmt_subslice_Cons:
  "fmt_subslice (g # gs) =
     hex_of_nat (unat g) @ (if gs = [] then [] else CHR '':'' # fmt_subslice gs)"
  by (cases gs) (simp_all add: fmt_subslice_def)

lemma fmt_subslice_no_dot: "CHR ''.'' \<notin> set (fmt_subslice gs)"
proof (induction gs)
  case (Cons g gs)
  have "CHR ''.'' \<notin> set (hex_of_nat (unat g))" using hex_of_nat_chars by (auto simp: hex_char_def)
  with Cons show ?case by (simp add: fmt_subslice_Cons)
qed (simp add: fmt_subslice_def)

text \<open>The groups end because all \<open>k\<close> are read, the text ends, or two colons follow.\<close>

definition groups_end :: "string \<Rightarrow> bool" where
  "groups_end rest \<longleftrightarrow> rest = [] \<or> (\<exists>s. rest = ''::'' @ s \<and> CHR ''.'' \<notin> set s)"

lemma read_number_end: "no_digit rest \<Longrightarrow> read_number 16 4 True 65535 rest = None"
  by (cases rest) (auto simp: no_digit_def read_number_def)

lemma read_groups_end:
  assumes "CHR ''.'' \<notin> set s"
    and "case (if first then Some s else read_given_char CHR '':'' s) of
           None \<Rightarrow> True | Some s' \<Rightarrow> no_digit s' \<and> CHR ''.'' \<notin> set s'"
  shows "read_groups k first s = ([], False, s)"
  using assms
  by (cases k; cases "if first then Some s else read_given_char CHR '':'' s")
    (simp_all add: Let_def read_ipv4_no_dot read_number_end)

lemma groups_end_props:
  assumes "groups_end rest"
  shows "no_digit rest" "CHR ''.'' \<notin> set rest" "read_groups k first rest = ([], False, rest)"
proof -
  show nd: "no_digit rest" and "CHR ''.'' \<notin> set rest"
    using assms by (auto simp: groups_end_def)
  then show "read_groups k first rest = ([], False, rest)"
    using assms by (intro read_groups_end) (auto simp: groups_end_def read_given_char_def)
qed

text \<open>One group is read; \<open>first\<close> says that no colon precedes it.\<close>

lemma read_groups_one:
  assumes "no_digit rest" and "read_ipv4_addr (hex_of_nat (unat g) @ rest) = None"
  shows "read_groups (Suc k) first
      ((if first then [] else '':'') @ hex_of_nat (unat (g :: u16)) @ rest) =
    (case read_groups k False rest of (gs, quad, s) \<Rightarrow> (g # gs, quad, s))"
  using assms(2) read_number_hex [OF assms(1), of g]
  by (simp add: Let_def read_given_char_def split: prod.split)

lemma read_groups_step:
  assumes "no_digit rest" and "CHR ''.'' \<notin> set rest"
  shows "read_groups (Suc k) first
      ((if first then [] else '':'') @ hex_of_nat (unat (g :: u16)) @ rest) =
    (case read_groups k False rest of (gs, quad, s) \<Rightarrow> (g # gs, quad, s))"
proof -
  have "CHR ''.'' \<notin> set (hex_of_nat (unat g) @ rest)"
    using assms(2) hex_of_nat_chars by (auto simp: hex_char_def)
  from read_groups_one [OF assms(1) read_ipv4_no_dot [OF this]] show ?thesis .
qed

lemma read_groups_tail:
  assumes "length gs \<le> k" and "groups_end rest"
  shows "read_groups k False (concat (map (\<lambda>g. CHR '':'' # hex_of_nat (unat g)) gs) @ rest) =
    (gs, False, rest)"
  using assms
proof (induction gs arbitrary: k)
  case Nil
  then show ?case by (simp add: groups_end_props)
next
  case (Cons g gs)
  then obtain k' where k: "k = Suc k'" by (cases k) auto
  let ?r = "concat (map (\<lambda>g. CHR '':'' # hex_of_nat (unat g)) gs) @ rest"
  have "no_digit ?r" using groups_end_props(1) [OF Cons.prems(2)] by (cases gs) simp_all
  moreover have "CHR ''.'' \<notin> set ?r"
    using groups_end_props(2) [OF Cons.prems(2)] hex_of_nat_chars by (auto simp: hex_char_def)
  ultimately show ?case
    using read_groups_step [of ?r k' False g] Cons k by simp
qed

lemma fmt_subslice_concat:
  "fmt_subslice (g # gs) = hex_of_nat (unat g) @ concat (map (\<lambda>g. CHR '':'' # hex_of_nat (unat g)) gs)"
  by (induction gs arbitrary: g) (simp_all add: fmt_subslice_Cons [of _ "_ # _"], simp add: fmt_subslice_def)

lemma read_groups_fmt:
  assumes "length gs \<le> k" and "groups_end rest"
  shows "read_groups k True (fmt_subslice gs @ rest) = (gs, False, rest)"
proof (cases gs)
  case Nil
  then show ?thesis using assms(2) by (simp add: fmt_subslice_def groups_end_props)
next
  case (Cons g gs')
  with assms(1) obtain k' where k: "k = Suc k'" and len: "length gs' \<le> k'" by (cases k) auto
  let ?r = "concat (map (\<lambda>g. CHR '':'' # hex_of_nat (unat g)) gs') @ rest"
  have "no_digit ?r" using groups_end_props(1) [OF assms(2)] by (cases gs') simp_all
  moreover have "CHR ''.'' \<notin> set ?r"
    using groups_end_props(2) [OF assms(2)] hex_of_nat_chars by (auto simp: hex_char_def)
  ultimately show ?thesis
    using read_groups_step [of ?r k' True g] read_groups_tail [OF len assms(2)] Cons k
    by (simp add: fmt_subslice_concat)
qed

section \<open>The compressed zeros\<close>

text \<open>
  Both the current and the longest run are runs of zeros in the groups seen so far; the current
  one ends where the scan stands.
\<close>

definition zero_run :: "u16 list \<Rightarrow> nat \<times> nat \<Rightarrow> bool" where
  "zero_run gs r \<longleftrightarrow> fst r + snd r \<le> length gs \<and> take (snd r) (drop (fst r) gs) = replicate (snd r) 0"

lemma zero_run_append: "zero_run gs r \<Longrightarrow> zero_run (gs @ hs) r"
  by (simp add: zero_run_def)

lemma zero_run_extend:
  "zero_run gs (i, n) \<Longrightarrow> i + n = length gs \<Longrightarrow> zero_run (gs @ [0]) (i, Suc n)"
  by (simp add: zero_run_def replicate_append_same)

lemma zero_span_run:
  assumes "zero_run seen longest" and "snd cur = 0 \<or> zero_run seen cur \<and> fst cur + snd cur = length seen"
  shows "zero_run (seen @ xs) (zero_span (length seen) cur longest xs)"
  using assms
proof (induction xs arbitrary: seen cur longest)
  case (Cons x xs)
  show ?case
  proof (cases "x = 0")
    case True
    let ?cur = "if snd cur = 0 then (length seen, 1) else (fst cur, snd cur + 1)"
    have cur: "zero_run (seen @ [0]) ?cur \<and> fst ?cur + snd ?cur = length (seen @ [0])"
      using Cons.prems(2) zero_run_extend [of seen "fst cur" "snd cur"]
      by (auto simp: zero_run_def)
    have "zero_run (seen @ [0]) (if snd longest < snd ?cur then ?cur else longest)"
      using cur Cons.prems(1) by (simp add: zero_run_append)
    from Cons.IH [OF this, of ?cur] cur True show ?thesis by (simp add: Let_def)
  next
    case False
    with Cons.IH [of "seen @ [x]" longest "(0, 0)"] Cons.prems(1) show ?thesis
      by (simp add: zero_run_append)
  qed
qed simp

section \<open>The round trip\<close>

lemma ipv6_of_segments_segments: "ipv6_of_segments (segments a) = Some a"
  by (cases a) simp

lemma zero_span_segments:
  assumes "zero_span 0 (0, 0) (0, 0) gs = (st, n)"
  shows "st + n \<le> length gs" and "take st gs @ replicate n 0 @ drop (st + n) gs = gs"
proof -
  have run: "zero_run gs (st, n)"
    using zero_span_run [of "[]" "(0, 0)" "(0, 0)" gs] assms by (simp add: zero_run_def)
  then show "st + n \<le> length gs" by (simp add: zero_run_def)
  have "gs = take st gs @ take n (drop st gs) @ drop n (drop st gs)"
    by (simp only: append_take_drop_id)
  with run show "take st gs @ replicate n 0 @ drop (st + n) gs = gs"
    by (simp add: zero_run_def add.commute)
qed

text \<open>Compressed: the groups before and after the elided zeros.\<close>

lemma read_ipv6_compressed:
  assumes "length gs = 8" and "st + n \<le> 8" and "1 < n"
    and "take st gs @ replicate n 0 @ drop (st + n) gs = gs"
  shows "read_ipv6_addr (fmt_subslice (take st gs) @ ''::'' @ fmt_subslice (drop (st + n) gs)) =
    map_option (\<lambda>a. (a, [])) (ipv6_of_segments gs)"
proof -
  let ?head = "take st gs" and ?tail = "drop (st + n) gs"
  have len: "length ?head = st" "length ?tail = 8 - (st + n)" "st \<noteq> 8" using assms by auto
  have "groups_end (''::'' @ fmt_subslice ?tail)"
    using fmt_subslice_no_dot by (auto simp: groups_end_def)
  then have head: "read_groups 8 True (fmt_subslice ?head @ ''::'' @ fmt_subslice ?tail) =
      (?head, False, ''::'' @ fmt_subslice ?tail)"
    using assms(1,2) by (intro read_groups_fmt) simp_all
  have tail: "read_groups (8 - (st + 1)) True (fmt_subslice ?tail) = (?tail, False, [])"
    using read_groups_fmt [of ?tail "8 - (st + 1)" "[]"] len assms(3) by (simp add: groups_end_def)
  have zeros: "8 - st - (8 - (st + n)) = n" using assms(2) by simp
  show ?thesis
    unfolding read_ipv6_addr_def head prod.case len(1)
    using len tail zeros assms(4) by (simp add: read_given_char_def)
qed

lemma read_groups_colon: "read_groups (Suc k) True (CHR '':'' # s) = ([], False, CHR '':'' # s)"
  by (simp add: Let_def read_ipv4_no_start read_number_end)

lemma read_groups_quad:
  "read_groups (Suc 5) False (CHR '':'' # ipv4_to_string (Ipv4Addr a b c d)) =
     ([of_nat (unat a * 256 + unat b), of_nat (unat c * 256 + unat d)], True, [])"
  using read_ipv4_to_string [of "[]" "Ipv4Addr a b c d"]
  by (simp only: read_groups.simps Let_def) (simp add: read_given_char_def)

lemma replicate_5: "replicate 5 x = [x, x, x, x, x]"
  by (simp add: numeral_eq_Suc)

lemma read_ipv6_mapped:
  "read_ipv6_addr (''::ffff:'' @ ipv4_to_string (Ipv4Addr a b c d)) =
     Some (Ipv6Addr 0 0 0 0 0 0xffff (of_nat (unat a * 256 + unat b)) (of_nat (unat c * 256 + unat d)), [])"
proof -
  let ?v4 = "ipv4_to_string (Ipv4Addr a b c d)"
  let ?gs = "[of_nat (unat a * 256 + unat b), of_nat (unat c * 256 + unat d)] :: u16 list"
  have ffff: "hex_of_nat (unat (0xffff :: u16)) = ''ffff''"
    by (simp add: hex_of_nat.simps hex_digit_def str_eval)
  have nums: "8 = Suc 7" "7 = Suc 6" "6 = Suc 5" by simp_all
  have head: "read_groups 8 True (CHR '':'' # s) = ([], False, CHR '':'' # s)" for s
    by (simp only: nums(1) read_groups_colon)
  have quad: "read_groups 6 False (CHR '':'' # ?v4) = (?gs, True, [])"
    by (simp only: nums(3) read_groups_quad)
  have "read_ipv4_addr (hex_of_nat (unat (0xffff :: u16)) @ '':'' @ ?v4) = None"
    unfolding ffff by (simp add: read_ipv4_no_start)
  from read_groups_one [OF _ this, where k = 6 and first = True] ffff quad
  have "read_groups (Suc 6) True (''ffff:'' @ ?v4) = (0xffff # ?gs, True, [])"
    by (simp del: read_groups.simps)
  then have tail: "read_groups 7 True (''ffff:'' @ ?v4) = (0xffff # ?gs, True, [])"
    by (simp only: nums(2))
  have "(''::ffff:'' @ ?v4) = CHR '':'' # CHR '':'' # ''ffff:'' @ ?v4" by simp
  then show ?thesis
    unfolding read_ipv6_addr_def using head tail
    by (simp only:) (simp add: read_given_char_def replicate_5)
qed

lemma u16_bytes:
  "(of_nat (unat (of_nat (unat g div 256) :: u8) * 256 + unat (of_nat (unat g) :: u8)) :: u16) = g"
proof -
  have "unat g div 256 < 256" using unat_u16_less [of g] by simp
  then have "unat (of_nat (unat g div 256) :: u8) = unat g div 256"
    and "unat (of_nat (unat g) :: u8) = unat g mod 256"
    by (simp_all add: unsigned_of_nat take_bit_eq_mod del: of_nat_unat)
  then show ?thesis by simp
qed

lemma parse_ipv6_to_string: "parse_ip (ipv6_to_string ip) = Some (V6 ip)"
proof (cases ip)
  case (Ipv6Addr a b c d e f g h)
  let ?gs = "[a, b, c, d, e, f, g, h]"
  show ?thesis
  proof (cases "[a, b, c, d, e, f] = [0, 0, 0, 0, 0, 0xffff]")
    case True
    let ?v4 = "ipv4_to_string (Ipv4Addr (of_nat (unat g div 256)) (of_nat (unat g))
      (of_nat (unat h div 256)) (of_nat (unat h)))"
    have shown: "ipv6_to_string ip = ''::ffff:'' @ ?v4"
      unfolding Ipv6Addr ipv6_to_string.simps if_P [OF True] ..
    have "read_ipv6_addr (ipv6_to_string ip) = Some (ip, [])"
      unfolding shown read_ipv6_mapped u16_bytes using True Ipv6Addr by simp
    moreover have "read_ipv4_addr (ipv6_to_string ip) = None"
      unfolding shown by (simp add: read_ipv4_no_start)
    ultimately show ?thesis by (simp add: parse_ip_def)
  next
    case False
    obtain st n where span: "zero_span 0 (0, 0) (0, 0) ?gs = (st, n)"
      by (cases "zero_span 0 (0, 0) (0, 0) ?gs")
    note zeros = zero_span_segments [OF span]
    have shown: "ipv6_to_string ip = (if 1 < n
        then fmt_subslice (take st ?gs) @ ''::'' @ fmt_subslice (drop (st + n) ?gs)
        else fmt_subslice ?gs)"
      unfolding Ipv6Addr ipv6_to_string.simps if_not_P [OF False] Let_def span prod.case ..
    have "read_ipv6_addr (ipv6_to_string ip) = Some (ip, [])"
    proof (cases "1 < n")
      case True
      then have "ipv6_to_string ip = fmt_subslice (take st ?gs) @ ''::'' @ fmt_subslice (drop (st + n) ?gs)"
        using shown by (simp only: if_True)
      then show ?thesis
        using read_ipv6_compressed [OF _ _ True zeros(2)] zeros(1) by (simp only:) (simp add: Ipv6Addr)
    next
      case False
      have "read_groups 8 True (fmt_subslice ?gs @ []) = (?gs, False, [])"
        by (rule read_groups_fmt) (simp_all add: groups_end_def)
      with False shown show ?thesis by (simp only: if_False) (simp add: read_ipv6_addr_def Ipv6Addr)
    qed
    moreover have "read_ipv4_addr (ipv6_to_string ip) = None"
    proof (rule read_ipv4_no_dot)
      show "CHR ''.'' \<notin> set (ipv6_to_string ip)"
        unfolding shown using fmt_subslice_no_dot by (simp del: drop_Suc_Cons take_Suc_Cons)
    qed
    ultimately show ?thesis by (simp add: parse_ip_def)
  qed
qed

lemma parse_ip_to_string [simp]: "parse_ip (ip_to_string ip) = Some ip"
  by (cases ip) (simp_all add: parse_ipv6_to_string)

end
