(* ===== verification/Client.thy ===== *)
theory Client
  imports Transport Rules_Engine Ip_Text
begin

text \<open>
  The client: \<open>client.rs\<close>, the assembly of its tasks in \<open>transport/mod.rs\<close>, the servers'
  in \<open>tcp.rs\<close>, \<open>udp.rs\<close> and \<open>ws.rs\<close>, and \<open>main.rs\<close>.  Connecting, creating the TUN device and the YAML
  coding of the client state are parameters; which branch of a \<open>select!\<close> completes first comes
  with the call.
\<close>

section \<open>The handshake (client.rs)\<close>

record state_yaml =
  sy_read :: "string \<Rightarrow> string + client_state"
  sy_write :: "client_state \<Rightarrow> string + string"

text \<open>Remembering a session id that changed.\<close>

definition remember_session ::
  "state_yaml \<Rightarrow> string \<Rightarrow> file_system \<Rightarrow> (string + unit) \<times> file_system" where
  "remember_session yaml session_id fs =
     (case load_client_state (sy_read yaml) fs of
        Inl e \<Rightarrow> (Inl e, fs)
      | Inr state \<Rightarrow> save_client_state (sy_write yaml) (state\<lparr>cs_session_id := session_id\<rparr>) fs)"

definition handshake_async ::
  "'t transport_trait \<Rightarrow> state_yaml \<Rightarrow> bool \<Rightarrow> sockaddr \<Rightarrow> client_config \<times> file_system \<times> 't
     \<Rightarrow> (string + tun_config) \<times> client_config \<times> file_system \<times> 't" where
  "handshake_async tr yaml timed_out server_addr = (\<lambda>(config, fs, t).
     case tr_send tr (message_handshake \<lparr>hs_token = cc_token config,
             hs_session_id = cc_session_id config, hs_tun_config = None\<rparr>) server_addr t of
       (Inl e, t) \<Rightarrow> (Inl (io_error_to_string e), config, fs, t)
     | (Inr _, t) \<Rightarrow>
         if timed_out then (Inl ''Handshake timed out'', config, fs, t)
         else case tr_next tr t of
             (Some (Inr (Some (Handshake handshake), _)), t) \<Rightarrow>
               if hs_token handshake \<noteq> cc_token config
               then (Inl ''Invalid token in handshake response'', config, fs, t)
               else (case hs_tun_config handshake of
                   None \<Rightarrow> (Inl ''No TUN config in handshake response'', config, fs, t)
                 | Some tun_config \<Rightarrow>
                     if hs_session_id handshake \<noteq> cc_session_id config
                     then (let config = config\<lparr>cc_session_id := hs_session_id handshake\<rparr> in
                       case remember_session yaml (cc_session_id config) fs of
                         (Inl e, fs) \<Rightarrow> (Inl e, config, fs, t)
                       | (Inr _, fs) \<Rightarrow> (Inr tun_config, config, fs, t))
                     else (Inr tun_config, config, fs, t))
           | (Some (Inr _), t) \<Rightarrow>
               (Inl ''Invalid handshake response: unexpected message type'', config, fs, t)
           | (Some (Inl e), t) \<Rightarrow>
               (Inl (''Error during handshake: '' @ io_error_to_string e), config, fs, t)
           | (None, t) \<Rightarrow> (Inl ''Transport closed during handshake'', config, fs, t))"

section \<open>Connecting (client.rs)\<close>

text \<open>What the arms of the match on the transport type connect to.\<close>

datatype dial = Dial_tcp string | Dial_udp string | Dial_ws string string

definition dial_of :: "client_config \<Rightarrow> dial option" where
  "dial_of config =
     (let t = to_lowercase (cc_transport_type config);
          addr = sockaddr_to_string (cc_server_addr config)
      in if t = ''tcp'' then Some (Dial_tcp addr)
         else if t = ''udp'' then Some (Dial_udp ''0.0.0.0:0'')
         else if t = ''ws'' then Some (Dial_ws (''ws://'' @ addr) (cc_ca_cert_path config))
         else if t = ''wss'' then Some (Dial_ws (''wss://'' @ addr) (cc_ca_cert_path config))
         else None)"

definition parse_addr :: "string \<Rightarrow> string + ipaddr" where
  "parse_addr s = (case parse_ip s of None \<Rightarrow> Inl ''invalid IP address syntax'' | Some ip \<Rightarrow> Inr ip)"

text \<open>The TUN device the server's answer asks for.\<close>

definition client_tun_config :: "tun_config \<Rightarrow> string + tun_device_config" where
  "client_tun_config tc =
     (case parse_addr (tcf_address tc) of
        Inl e \<Rightarrow> Inl e
      | Inr address \<Rightarrow>
          (case parse_addr (tcf_netmask tc) of
             Inl e \<Rightarrow> Inl e
           | Inr netmask \<Rightarrow>
               (case parse_addr (tcf_destination tc) of
                  Inl e \<Rightarrow> Inl e
                | Inr destination \<Rightarrow>
                    (case collect_results (map parse_addr (tcf_dns tc)) of
                       Inl e \<Rightarrow> Inl e
                     | Inr dns \<Rightarrow>
                         Inr \<lparr>td_name = tcf_name tc, td_mtu = ucast (tcf_mtu tc),
                              td_address = address, td_netmask = netmask,
                              td_destination = destination, td_dns = dns\<rparr>))))"

text \<open>
  One attempt: \<open>run\<close> stands for the call of \<open>run_tcp_client\<close>, \<open>run_udp_client\<close> or
  \<open>run_ws_client\<close>, which all are \<open>run_connected_client\<close>.
\<close>

record ('t, 'dev) client_env =
  ce_trait :: "'t transport_trait"
  ce_yaml :: state_yaml
  ce_connect :: "dial \<Rightarrow> string + 't"
  ce_ws_addr :: "'t \<Rightarrow> sockaddr"
  ce_create_tun :: "tun_device_config \<Rightarrow> string + 'dev"
  ce_run :: "client_config \<Rightarrow> rules_config \<Rightarrow> transparent_proxy_config \<Rightarrow> 'dev \<Rightarrow> 't \<Rightarrow> string + unit"

definition run_client_from_config ::
  "('t, 'dev) client_env \<Rightarrow> bool \<Rightarrow> app_config \<Rightarrow> file_system \<Rightarrow> (string + unit) \<times> file_system" where
  "run_client_from_config env timed_out app_config fs =
     (let config = ac_client app_config in
      case dial_of config of
        None \<Rightarrow> (Inl (''Unknown transport type: '' @ cc_transport_type config), fs)
      | Some dial \<Rightarrow>
          (case ce_connect env dial of
             Inl e \<Rightarrow> (Inl e, fs)
           | Inr t \<Rightarrow>
               (let handshake_addr = (case dial of Dial_ws _ _ \<Rightarrow> ce_ws_addr env t
                                                 | _ \<Rightarrow> cc_server_addr config)
                in case handshake_async (ce_trait env) (ce_yaml env) timed_out handshake_addr (config, fs, t) of
                  (Inl e, config, fs, t) \<Rightarrow> (Inl e, fs)
                | (Inr tun_config, config, fs, t) \<Rightarrow>
                    (case client_tun_config tun_config of
                       Inl e \<Rightarrow> (Inl e, fs)
                     | Inr td \<Rightarrow>
                         (case ce_create_tun env td of
                            Inl e \<Rightarrow> (Inl e, fs)
                          | Inr dev \<Rightarrow>
                              (ce_run env config (ac_rules app_config)
                                 (ac_transparent_proxy app_config) dev t, fs))))))"

section \<open>Retrying (client.rs)\<close>

text \<open>
  The loop of \<open>run_client_with_retry\<close> over a world the attempts change; the result is the
  delays slept, and \<open>None\<close> when no attempt ever succeeds.
\<close>

definition max_retry_delay :: nat where
  "max_retry_delay = secs 300"

partial_function (option) retry_from ::
  "('c \<Rightarrow> 'w \<Rightarrow> (string + unit) \<times> 'w) \<Rightarrow> 'c \<Rightarrow> nat \<Rightarrow> 'w \<Rightarrow> (nat list \<times> 'w) option" where
  "retry_from attempt config retry_delay w =
     (case attempt config w of
        (Inr _, w) \<Rightarrow> Some ([], w)
      | (Inl e, w) \<Rightarrow>
          Option.bind (retry_from attempt config (min (retry_delay * 2) max_retry_delay) w)
            (\<lambda>(delays, w). Some (retry_delay # delays, w)))"

definition run_client_with_retry ::
  "('c \<Rightarrow> 'w \<Rightarrow> (string + unit) \<times> 'w) \<Rightarrow> 'c \<Rightarrow> 'w \<Rightarrow> (nat list \<times> 'w) option" where
  "run_client_with_retry attempt config w = retry_from attempt config (secs 1) w"

section \<open>Running the tasks (mod.rs, tcp.rs, udp.rs, ws.rs)\<close>

text \<open>How a spawned task ended, and which of the three tasks did first.\<close>

datatype task_end = Task_ok | Task_err string | Task_panic string

datatype first_end = Proxy_ended | Tun_ended task_end | Transport_ended task_end

definition run_connected_client ::
  "'n ipnet \<Rightarrow> (string \<Rightarrow> string + geo_reader) \<Rightarrow> rules_config \<Rightarrow> (rules_engine \<Rightarrow> first_end)
     \<Rightarrow> string + unit" where
  "run_connected_client net open_readfile rules_config tasks =
     (case from_config net open_readfile rules_config of
        Inl e \<Rightarrow> Inl (''Failed to load rules: '' @ config_error_to_string e)
      | Inr rules_engine \<Rightarrow>
          (case tasks rules_engine of
             Proxy_ended \<Rightarrow> Inr ()
           | Tun_ended Task_ok \<Rightarrow> Inr ()
           | Tun_ended (Task_err e) \<Rightarrow> Inl (''TUN task failed: '' @ e)
           | Tun_ended (Task_panic e) \<Rightarrow> Inl (''TUN task panicked: '' @ e)
           | Transport_ended Task_ok \<Rightarrow> Inr ()
           | Transport_ended (Task_err e) \<Rightarrow> Inl (''Transport task failed: '' @ e)
           | Transport_ended (Task_panic e) \<Rightarrow> Inl (''Transport task panicked: '' @ e)))"

text \<open>The servers end without an error whichever task ends first and however it ended.\<close>

fun select_first :: "first_end \<Rightarrow> string + unit" where
  "select_first Proxy_ended = Inr ()"
| "select_first (Tun_ended _) = Inr ()"
| "select_first (Transport_ended _) = Inr ()"

definition run_tcp_server ::
  "'n ipnet \<Rightarrow> (string \<Rightarrow> string + geo_reader) \<Rightarrow> rules_config \<Rightarrow> (rules_engine \<Rightarrow> first_end)
     \<Rightarrow> string + unit" where
  "run_tcp_server net open_readfile rules_config tasks =
     (case from_config net open_readfile rules_config of
        Inl e \<Rightarrow> Inl (''Failed to load rules: '' @ config_error_to_string e)
      | Inr rules_engine \<Rightarrow> select_first (tasks rules_engine))"

definition run_udp_server ::
  "'n ipnet \<Rightarrow> (string \<Rightarrow> string + geo_reader) \<Rightarrow> (string \<Rightarrow> string + 't) \<Rightarrow> server_config
     \<Rightarrow> rules_config \<Rightarrow> ('t \<Rightarrow> rules_engine \<Rightarrow> first_end) \<Rightarrow> string + unit" where
  "run_udp_server net open_readfile bind_udp config rules_config tasks =
     (case bind_udp (sockaddr_to_string (sc_bind_addr config)) of
        Inl e \<Rightarrow> Inl e
      | Inr udp \<Rightarrow>
          (case from_config net open_readfile rules_config of
             Inl e \<Rightarrow> Inl (''Failed to load rules: '' @ config_error_to_string e)
           | Inr rules_engine \<Rightarrow> select_first (tasks udp rules_engine)))"

text \<open>The TLS acceptor of the WebSocket server is unwrapped: without it the server panics.\<close>

datatype 'a exit = Exit 'a | Panic io_error

definition run_ws_server ::
  "'n ipnet \<Rightarrow> (string \<Rightarrow> string + geo_reader) \<Rightarrow> (string \<Rightarrow> string \<Rightarrow> io_error + 'a) \<Rightarrow> server_config
     \<Rightarrow> rules_config \<Rightarrow> ('a option \<Rightarrow> rules_engine \<Rightarrow> first_end) \<Rightarrow> (string + unit) exit" where
  "run_ws_server net open_readfile create_acceptor config rules_config tasks =
     (case from_config net open_readfile rules_config of
        Inl e \<Rightarrow> Exit (Inl (''Failed to load rules: '' @ config_error_to_string e))
      | Inr rules_engine \<Rightarrow>
          if ws_server_tls config
          then (case create_acceptor (sc_cert_path config) (sc_key_path config) of
                  Inl e \<Rightarrow> Panic e
                | Inr acceptor \<Rightarrow> Exit (select_first (tasks (Some acceptor) rules_engine)))
          else Exit (select_first (tasks None rules_engine)))"

section \<open>The program (main.rs)\<close>

definition quoted :: "string \<Rightarrow> string" where
  "quoted s = [CHR 0x27] @ s @ [CHR 0x27]"

datatype program_mode = Mode_server | Mode_client

definition program_mode_of :: "app_config \<Rightarrow> string + program_mode" where
  "program_mode_of app_config =
     (let mode = to_lowercase (rt_mode (ac_runtime app_config)) in
      if mode = ''server'' then Inr Mode_server
      else if mode = ''client'' then Inr Mode_client
      else Inl (''Invalid runtime.mode '' @ quoted mode @ '', expected '' @ quoted ''client''
                @ '' or '' @ quoted ''server''))"

text \<open>Both modes load the configuration again; the attempts of a client see one environment each.\<close>

record yaml =
  ya_write :: "app_config \<Rightarrow> string + string"
  ya_read :: "string \<Rightarrow> string + app_config"
  ya_state :: state_yaml

definition yaml_load :: "yaml \<Rightarrow> file_system \<Rightarrow> (string + app_config) \<times> file_system" where
  "yaml_load yaml fs = load (ya_write yaml) (ya_read yaml) (sy_read (ya_state yaml)) fs"

definition client_attempt ::
  "(nat \<Rightarrow> ('t, 'dev) client_env \<times> bool) \<Rightarrow> app_config \<Rightarrow> file_system \<times> nat
     \<Rightarrow> (string + unit) \<times> file_system \<times> nat" where
  "client_attempt envs config = (\<lambda>(fs, n).
     case run_client_from_config (fst (envs n)) (snd (envs n)) config fs of (r, fs) \<Rightarrow> (r, fs, Suc n))"

definition run_client ::
  "yaml \<Rightarrow> (nat \<Rightarrow> ('t, 'dev) client_env \<times> bool) \<Rightarrow> file_system
     \<Rightarrow> (string + nat list \<times> file_system \<times> nat) option" where
  "run_client yaml envs fs =
     (case yaml_load yaml fs of
        (Inl e, fs) \<Rightarrow> Some (Inl e)
      | (Inr config, fs) \<Rightarrow> map_option Inr (run_client_with_retry (client_attempt envs) config (fs, 0)))"

definition run_server ::
  "yaml \<Rightarrow> (tun_device_config \<Rightarrow> string + 'dev) \<Rightarrow> file_system
     \<Rightarrow> string + transport_kind \<times> server_config \<times> rules_config \<times> transparent_proxy_config \<times> 'dev" where
  "run_server yaml create_tun_device fs =
     (case yaml_load yaml fs of
        (Inl e, fs) \<Rightarrow> Inl e
      | (Inr config, fs) \<Rightarrow> run_server_from_config create_tun_device config)"

section \<open>The retry loop\<close>

text \<open>The world before the \<open>i\<close>-th attempt, and whether that attempt succeeds.\<close>

definition world_at :: "('c \<Rightarrow> 'w \<Rightarrow> (string + unit) \<times> 'w) \<Rightarrow> 'c \<Rightarrow> 'w \<Rightarrow> nat \<Rightarrow> 'w" where
  "world_at attempt config w i = ((\<lambda>w. snd (attempt config w)) ^^ i) w"

definition succeeds :: "('c \<Rightarrow> 'w \<Rightarrow> (string + unit) \<times> 'w) \<Rightarrow> 'c \<Rightarrow> 'w \<Rightarrow> nat \<Rightarrow> bool" where
  "succeeds attempt config w i = is_ok (fst (attempt config (world_at attempt config w i)))"

definition backoff :: "nat \<Rightarrow> nat" where
  "backoff i = secs (min (2 ^ i) 300)"

lemma backoff_fun: "backoff = (\<lambda>i. secs (min (2 ^ i) 300))"
  by (rule ext) (simp only: backoff_def)

lemma backoff_Suc: "backoff (Suc i) = min (backoff i * 2) max_retry_delay"
  by (simp add: backoff_def max_retry_delay_def secs_def min_def)

lemma world_at_Suc: "world_at attempt config (snd (attempt config w)) i = world_at attempt config w (Suc i)"
  by (induction i) (simp_all add: world_at_def)

lemma succeeds_Suc: "succeeds attempt config (snd (attempt config w)) i = succeeds attempt config w (Suc i)"
  by (simp add: succeeds_def world_at_Suc)

lemma retry_from_step:
  "retry_from attempt config d w =
     (if succeeds attempt config w 0 then Some ([], world_at attempt config w 1)
      else Option.bind (retry_from attempt config (min (d * 2) max_retry_delay) (world_at attempt config w 1))
        (\<lambda>(delays, w). Some (d # delays, w)))"
  by (subst retry_from.simps) (auto simp: succeeds_def world_at_def split: prod.split sum.split)

lemma retry_from_success:
  assumes "succeeds attempt config w k" and "\<forall>i < k. \<not> succeeds attempt config w i"
  shows "retry_from attempt config (backoff j) w =
    Some (map backoff [j..<j + k], world_at attempt config w (Suc k))"
  using assms
proof (induction k arbitrary: j w)
  case 0
  then show ?case by (simp add: retry_from_step)
next
  case (Suc k)
  let ?w = "snd (attempt config w)"
  have "retry_from attempt config (backoff (Suc j)) ?w =
      Some (map backoff [Suc j..<Suc j + k], world_at attempt config ?w (Suc k))"
    using Suc.prems by (intro Suc.IH) (auto simp: succeeds_Suc)
  moreover have "\<not> succeeds attempt config w 0" and "world_at attempt config w 1 = ?w"
    using Suc.prems(2) by (auto simp: world_at_def)
  moreover have "[j..<j + Suc k] = j # [Suc j..<Suc j + k]" by (simp add: upt_conv_Cons del: upt_Suc)
  ultimately show ?case
    by (subst retry_from_step) (simp add: backoff_Suc world_at_Suc del: upt_Suc)
qed

lemma retry_from_result:
  fixes attempt :: "'c \<Rightarrow> 'w \<Rightarrow> (string + unit) \<times> 'w"
  assumes "retry_from attempt config d w = Some r"
  shows "\<exists>k. succeeds attempt config w k"
proof (rule retry_from.raw_induct [of "\<lambda>attempt config d w r. \<exists>k. succeeds attempt config w k", OF _ assms])
  fix loop :: "('c \<Rightarrow> 'w \<Rightarrow> (string + unit) \<times> 'w) \<Rightarrow> 'c \<Rightarrow> nat \<Rightarrow> 'w \<Rightarrow> (nat list \<times> 'w) option"
    and attempt config d w r
  assume IH: "\<And>attempt config d w r. loop attempt config d w = Some r \<Longrightarrow> \<exists>k. succeeds attempt config w k"
    and step: "(case attempt config w of
        (Inl e, w) \<Rightarrow>
          Option.bind (loop attempt config (min (d * 2) max_retry_delay) w)
            (\<lambda>(delays, w). Some (d # delays, w))
      | (Inr _, w) \<Rightarrow> Some ([], w)) = Some r"
  obtain res w' where at: "attempt config w = (res, w')" by (cases "attempt config w") auto
  show "\<exists>k. succeeds attempt config w k"
  proof (cases res)
    case (Inl e)
    with step at obtain r' where "loop attempt config (min (d * 2) max_retry_delay) w' = Some r'"
      by (auto simp: bind_eq_Some_conv)
    from IH [OF this] obtain k where "succeeds attempt config w' k" ..
    then have "succeeds attempt config w (Suc k)" using at succeeds_Suc [of attempt config w k] by simp
    then show ?thesis ..
  next
    case (Inr u)
    with at have "succeeds attempt config w 0" by (simp add: succeeds_def world_at_def)
    then show ?thesis ..
  qed
qed

section \<open>Facts on the handshake\<close>

lemma parse_addr_to_string [simp]: "parse_addr (ip_to_string ip) = Inr ip"
  by (simp add: parse_addr_def)

lemma parse_addr_ipv4 [simp]: "parse_addr (ipv4_to_string ip) = Inr (V4 ip)"
  using parse_addr_to_string [of "V4 ip"] by simp

lemma collect_parse_addr: "collect_results (map parse_addr (map ip_to_string ips)) = Inr ips"
  by (induction ips) simp_all

lemma ucast_u32_u16: "ucast (of_nat n :: u32) = (of_nat n :: u16)"
  by (simp add: word_unat_eq_iff unsigned_of_nat)

lemma tun_config_read:
  "client_tun_config (build_tun_config config virtual_ip) =
     Inr ((server_tun_config config)\<lparr>td_address := V4 virtual_ip\<rparr>)"
  by (simp add: client_tun_config_def build_tun_config_def server_tun_config_def
      collect_parse_addr ucast_u32_u16 del: map_map)

section \<open>Properties\<close>

text \<open>C20: The retry loop ends exactly when some attempt succeeds, with the first one that does, and
  runs forever otherwise.  Before its \<open>i\<close>-th repetition (from 0) it sleeps \<open>2 ^ i\<close> seconds, at most
  five minutes.  Every attempt is made with the configuration the loop was started with.\<close>

theorem retry_until_first_success:
  "run_client_with_retry attempt config w =
     (if \<exists>k. succeeds attempt config w k
      then (let k = (LEAST k. succeeds attempt config w k)
            in Some (map (\<lambda>i. secs (min (2 ^ i) 300)) [0..<k], world_at attempt config w (Suc k)))
      else None)"
proof (cases "\<exists>k. succeeds attempt config w k")
  case True
  let ?k = "LEAST k. succeeds attempt config w k"
  have first: "succeeds attempt config w ?k" using True by (rule LeastI_ex)
  have before: "\<forall>i < ?k. \<not> succeeds attempt config w i" by (intro allI impI not_less_Least)
  have "retry_from attempt config (secs 1) w =
      Some (map backoff [0..<?k], world_at attempt config w (Suc ?k))"
    using retry_from_success [OF first before, of 0] by (simp only: backoff_def add_0 power_0) simp
  then show ?thesis
    unfolding run_client_with_retry_def Let_def if_P [OF True] by (simp only: backoff_fun)
next
  case False
  then have "retry_from attempt config (secs 1) w = None"
    using retry_from_result [of attempt config "secs 1" w] by (cases "retry_from attempt config (secs 1) w") auto
  with False show ?thesis by (simp add: run_client_with_retry_def)
qed

text \<open>C21: The configuration a client reads from the server's answer is the server's own with the
  client's virtual address in it: addresses, IPv6 included, survive being sent as text, and the
  MTU is cut to 16 bits on both sides alike.\<close>

theorem tun_config_understood:
  "client_tun_config (build_tun_config config virtual_ip) =
     Inr ((server_tun_config config)\<lparr>td_address := V4 virtual_ip\<rparr>)"
  by (rule tun_config_read)

text \<open>A handshake succeeds only with an answer that arrived in time and carries the client's own
  token and a configuration.  The session id of the answer is then the client's, and either it
  is the one it had and nothing is written, or it has been stored in the state file.\<close>

lemma handshake_success:
  assumes "handshake_async tr yaml timed_out server_addr (config, fs, t) = (Inr tc, config', fs', t')"
  shows "\<not> timed_out
    \<and> (\<exists>h src. fst (tr_next tr (snd (tr_send tr (message_handshake \<lparr>hs_token = cc_token config,
             hs_session_id = cc_session_id config, hs_tun_config = None\<rparr>) server_addr t)))
             = Some (Inr (Some (Handshake h), src))
        \<and> hs_token h = cc_token config \<and> hs_tun_config h = Some tc
        \<and> config' = config\<lparr>cc_session_id := hs_session_id h\<rparr>
        \<and> (if hs_session_id h = cc_session_id config then fs' = fs
           else remember_session yaml (hs_session_id h) fs = (Inr (), fs')))"
  using assms
  by (auto simp: handshake_async_def Let_def
      split: prod.splits sum.splits if_splits option.splits msg.splits)

definition example_client_config :: client_config where
  "example_client_config = default_client_config\<lparr>cc_token := ''admin'', cc_session_id := ''abc''\<rparr>"

end
