(* ===== verification/Tun_Device.thy ===== *)
theory Tun_Device
  imports Client
begin

text \<open>
  The TUN device and the program's entry: \<open>tun_device.rs\<close>, the three \<open>run_\<close> functions of a client in
  \<open>transport/\<close>, and \<open>main.rs\<close>.  The \<open>tun2\<close> library is a parameter: it is given a configuration and
  creates a device or fails.
\<close>

section \<open>Creating the device (tun\_device.rs)\<close>

datatype tun_layer = L2 | L3

text \<open>What the builder calls put into the configuration; \<open>None\<close> when DNS servers are not set.\<close>

record tun2_configuration =
  t2_name :: string
  t2_layer :: tun_layer
  t2_mtu :: u16
  t2_address :: ipaddr
  t2_netmask :: ipaddr
  t2_destination :: ipaddr
  t2_up :: bool
  t2_dns :: "ipaddr list option"

definition tun2_config :: "bool \<Rightarrow> tun_device_config \<Rightarrow> tun2_configuration" where
  "tun2_config windows td =
     \<lparr>t2_name = td_name td, t2_layer = L3, t2_mtu = td_mtu td, t2_address = td_address td,
      t2_netmask = td_netmask td, t2_destination = td_destination td, t2_up = True,
      t2_dns = (if windows \<and> td_dns td \<noteq> [] then Some (td_dns td) else None)\<rparr>"

definition create_tun_device ::
  "(tun2_configuration \<Rightarrow> string + 'dev) \<Rightarrow> bool \<Rightarrow> tun_device_config \<Rightarrow> string + 'dev" where
  "create_tun_device create_as_async windows td =
     (case create_as_async (tun2_config windows td) of Inl e \<Rightarrow> Inl e | Inr device \<Rightarrow> Inr device)"

section \<open>The clients of the three transports (tcp.rs, udp.rs, ws.rs)\<close>

definition run_tcp_client ::
  "'n ipnet \<Rightarrow> (string \<Rightarrow> string + geo_reader) \<Rightarrow> rules_config \<Rightarrow> (rules_engine \<Rightarrow> first_end) \<Rightarrow> string + unit" where
  "run_tcp_client net open_readfile rules_config tasks = run_connected_client net open_readfile rules_config tasks"

definition run_udp_client ::
  "'n ipnet \<Rightarrow> (string \<Rightarrow> string + geo_reader) \<Rightarrow> rules_config \<Rightarrow> (rules_engine \<Rightarrow> first_end) \<Rightarrow> string + unit" where
  "run_udp_client net open_readfile rules_config tasks = run_connected_client net open_readfile rules_config tasks"

definition run_ws_client ::
  "'n ipnet \<Rightarrow> (string \<Rightarrow> string + geo_reader) \<Rightarrow> rules_config \<Rightarrow> (rules_engine \<Rightarrow> first_end) \<Rightarrow> string + unit" where
  "run_ws_client net open_readfile rules_config tasks = run_connected_client net open_readfile rules_config tasks"

section \<open>The program (main.rs)\<close>

text \<open>
  \<open>main\<close> loads the configuration, sets up logging and runs a server or a client; both load the
  configuration again.  How a program ended: with the result of a server, or of a client that may
  retry for ever.
\<close>

datatype ('s, 'c) program_end = Not_started string | Server_end 's | Client_end 'c

definition program_main ::
  "yaml \<Rightarrow> (tun2_configuration \<Rightarrow> string + 'd) \<Rightarrow> bool \<Rightarrow> (nat \<Rightarrow> ('t, 'dev) client_env \<times> bool) \<Rightarrow> file_system
     \<Rightarrow> (string + transport_kind \<times> server_config \<times> rules_config \<times> transparent_proxy_config \<times> 'd,
         (string + nat list \<times> file_system \<times> nat) option) program_end" where
  "program_main yaml create_as_async windows envs fs =
     (case yaml_load yaml fs of
        (Inl e, fs) \<Rightarrow> Not_started e
      | (Inr app_config, fs) \<Rightarrow>
          (case program_mode_of app_config of
             Inl e \<Rightarrow> Not_started e
           | Inr Mode_server \<Rightarrow> Server_end (run_server yaml (create_tun_device create_as_async windows) fs)
           | Inr Mode_client \<Rightarrow> Client_end (run_client yaml envs fs)))"

section \<open>What the device is created with\<close>

text \<open>
  The device of a client differs from the server's in its address only: what the server sends in
  its handshake reply, printed and parsed again, gives back the server's own settings.
\<close>

lemma client_device_config:
  "\<exists>td. client_tun_config (build_tun_config config virtual_ip) = Inr td
    \<and> tun2_config windows td = (tun2_config windows (server_tun_config config))\<lparr>t2_address := V4 virtual_ip\<rparr>"
  by (simp add: tun_config_read tun2_config_def server_tun_config_def)

text \<open>Anywhere but on Windows the configured DNS servers make no difference to the device.\<close>

lemma dns_only_on_windows:
  "create_tun_device create_as_async False (td\<lparr>td_dns := dns\<rparr>) = create_tun_device create_as_async False td"
  by (simp add: create_tun_device_def tun2_config_def)

lemma program_main_server:
  assumes "yaml_load yaml fs = (Inr config, fs')" and "to_lowercase (rt_mode (ac_runtime config)) = ''server''"
    and "yaml_load yaml fs' = (Inr config', fs'')" and "transport_kind_of (sc_transport_type (ac_server config')) = Some kind"
    and "create_as_async (tun2_config windows (server_tun_config (ac_server config'))) = Inr dev"
  shows "program_main yaml create_as_async windows envs fs =
    Server_end (Inr (kind, ac_server config', ac_rules config', ac_transparent_proxy config', dev))"
  using assms
  by (simp add: program_main_def program_mode_of_def run_server_def run_server_from_config_def create_tun_device_def
      Let_def)

end
