(* ===== verification/Connect.thy ===== *)
theory Connect
  imports Client
begin

text \<open>
  How transports come to be: \<open>TcpTransport\<close>, \<open>UdpTransport\<close> and \<open>WsTransport\<close> are made by connecting
  or accepting (\<open>transport/tcp.rs\<close>, \<open>udp.rs\<close>, \<open>ws.rs\<close>), and the servers' accept loops.  Sockets, the
  \<open>url\<close> crate, native-tls and tungstenite are parameters: a call of theirs is a function that
  gives its result.
\<close>

section \<open>Socket addresses as text\<close>

definition read_port :: "string \<Rightarrow> (u16 \<times> string) option" where
  "read_port s =
     Option.bind (read_given_char CHR '':'' s)
       (\<lambda>s. map_option (\<lambda>(n, rest). (of_nat n, rest)) (read_number 10 5 True 65535 s))"

definition read_socket_v4 :: "string \<Rightarrow> (sockaddr \<times> string) option" where
  "read_socket_v4 s =
     Option.bind (read_ipv4_addr s)
       (\<lambda>(ip, s). map_option (\<lambda>(port, rest). (\<lparr>sa_ip = V4 ip, sa_port = port\<rparr>, rest)) (read_port s))"

definition read_socket_v6 :: "string \<Rightarrow> (sockaddr \<times> string) option" where
  "read_socket_v6 s =
     Option.bind (read_given_char CHR ''['' s) (\<lambda>s.
     Option.bind (read_ipv6_addr s) (\<lambda>(ip, s).
     Option.bind (read_given_char CHR '']'' s)
       (\<lambda>s. map_option (\<lambda>(port, rest). (\<lparr>sa_ip = V6 ip, sa_port = port\<rparr>, rest)) (read_port s))))"

text \<open>Reading a whole address; scope ids, which a URL cannot carry, are left out.\<close>

definition parse_sockaddr :: "string \<Rightarrow> sockaddr option" where
  "parse_sockaddr s =
     (case read_socket_v4 s of
        Some (a, rest) \<Rightarrow> if rest = [] then Some a else None
      | None \<Rightarrow>
          (case read_socket_v6 s of
             Some (a, rest) \<Rightarrow> if rest = [] then Some a else None
           | None \<Rightarrow> None))"

section \<open>TCP and UDP (tcp.rs, udp.rs)\<close>

definition BUFFER_SIZE :: nat where
  "BUFFER_SIZE = 8 * 1024 * 1024"

text \<open>
  A connected stream: its peer, the calls that turn it into a plain socket, set its two buffer
  sizes and turn it back, and what it will deliver and refuse.
\<close>

record tcp_stream =
  ts_peer_addr :: "string + sockaddr"
  ts_into_std :: "string + unit"
  ts_set_send_buffer_size :: "nat \<Rightarrow> string + unit"
  ts_set_recv_buffer_size :: "nat \<Rightarrow> string + unit"
  ts_from_std :: "string + unit"
  ts_results :: "(io_error + message) list"
  ts_failing :: "message \<Rightarrow> io_error option"

definition tcp_new :: "tcp_stream \<Rightarrow> string + tcp_transport" where
  "tcp_new stream =
     (case ts_peer_addr stream of
        Inl e \<Rightarrow> Inl e
      | Inr peer_addr \<Rightarrow>
          (case check_all [ts_into_std stream, ts_set_send_buffer_size stream BUFFER_SIZE,
                           ts_set_recv_buffer_size stream BUFFER_SIZE, ts_from_std stream] of
             Inl e \<Rightarrow> Inl e
           | Inr _ \<Rightarrow>
               Inr \<lparr>tt_peer_addr = peer_addr, tt_results = ts_results stream,
                    tt_failing = ts_failing stream, tt_sent = []\<rparr>))"

definition tcp_connect :: "(string \<Rightarrow> string + tcp_stream) \<Rightarrow> string \<Rightarrow> string + tcp_transport" where
  "tcp_connect connect_stream addr =
     (case connect_stream addr of Inl e \<Rightarrow> Inl e | Inr stream \<Rightarrow> tcp_new stream)"

definition tcp_accept :: "string + tcp_stream \<Rightarrow> string + tcp_transport" where
  "tcp_accept accepted = (case accepted of Inl e \<Rightarrow> Inl e | Inr stream \<Rightarrow> tcp_new stream)"

text \<open>
  The accept loop: it goes on after a failed accept and spawns a connection for each other.  The
  result is the connections spawned; a server that cannot bind panics.
\<close>

fun accept_loop :: "(string + 't) list \<Rightarrow> 't list" where
  "accept_loop [] = []"
| "accept_loop (Inr t # rs) = t # accept_loop rs"
| "accept_loop (Inl e # rs) = accept_loop rs"

definition tcp_transport_io_task ::
  "(string \<Rightarrow> string + unit) \<Rightarrow> server_config \<Rightarrow> (string + tcp_stream) list \<Rightarrow> tcp_transport list exit" where
  "tcp_transport_io_task bind config accepted =
     (case bind (sockaddr_to_string (sc_bind_addr config)) of
        Inl e \<Rightarrow> Panic (IoFailure (''Failed to bind to address: '' @ e))
      | Inr _ \<Rightarrow> Exit (accept_loop (map tcp_accept accepted)))"

text \<open>Whether the buffers of a UDP socket can be set is ignored; converting a bound socket does not fail.\<close>

record udp_socket =
  us_results :: "(io_error + message \<times> sockaddr) list"
  us_failing :: "message \<times> sockaddr \<Rightarrow> io_error option"

definition udp_new :: "udp_socket \<Rightarrow> udp_transport" where
  "udp_new socket = \<lparr>ut_results = us_results socket, ut_failing = us_failing socket, ut_sent = []\<rparr>"

definition udp_bind :: "(string \<Rightarrow> string + udp_socket) \<Rightarrow> string \<Rightarrow> string + udp_transport" where
  "udp_bind bind addr = (case bind addr of Inl e \<Rightarrow> Inl e | Inr socket \<Rightarrow> Inr (udp_new socket))"

section \<open>WebSocket (ws.rs)\<close>

record parsed_url =
  pu_host :: "string option"
  pu_port :: "u16 option"
  pu_scheme :: string

definition parse_url :: "(string \<Rightarrow> string + parsed_url) \<Rightarrow> string \<Rightarrow> string + string \<times> u16 \<times> bool" where
  "parse_url url_parse url =
     (case url_parse url of
        Inl e \<Rightarrow> Inl (''Failed to parse URL: '' @ e)
      | Inr parsed \<Rightarrow>
          (case pu_host parsed of
             None \<Rightarrow> Inl ''Missing host in URL''
           | Some host \<Rightarrow>
               (case pu_port parsed of
                  None \<Rightarrow> Inl ''Missing port in URL''
                | Some port \<Rightarrow> Inr (host, port, pu_scheme parsed = ''wss''))))"

text \<open>What a TLS connector is built from.\<close>

record 'cert tls_builder =
  tb_roots :: "'cert list"
  tb_accept_invalid_certs :: bool
  tb_accept_invalid_hostnames :: bool

record ('cert, 'conn, 's, 'tls) tls_env =
  te_exists :: "string \<Rightarrow> bool"
  te_read :: "string \<Rightarrow> string + string"
  te_from_pem :: "string \<Rightarrow> string + 'cert"
  te_build :: "'cert tls_builder \<Rightarrow> string + 'conn"
  te_connect :: "'conn \<Rightarrow> string \<Rightarrow> 's \<Rightarrow> string + 'tls"

datatype ('tls, 's) maybe_tls_stream = NativeTls 'tls | Plain 's

definition tls_roots :: "('cert, 'conn, 's, 'tls) tls_env \<Rightarrow> string \<Rightarrow> string + 'cert list" where
  "tls_roots env ca_cert_path =
     (if te_exists env ca_cert_path
      then (case te_read env ca_cert_path of
              Inl e \<Rightarrow> Inl (''Failed to read CA certificate: '' @ e)
            | Inr cert_pem \<Rightarrow>
                (case te_from_pem env cert_pem of
                   Inl e \<Rightarrow> Inl (''Failed to parse CA certificate: '' @ e)
                 | Inr certificate \<Rightarrow> Inr [certificate]))
      else Inr [])"

definition wrap_with_tls ::
  "('cert, 'conn, 's, 'tls) tls_env \<Rightarrow> 's \<Rightarrow> string \<Rightarrow> string \<Rightarrow> string + ('tls, 's) maybe_tls_stream" where
  "wrap_with_tls env tcp_stream host ca_cert_path =
     (case tls_roots env ca_cert_path of
        Inl e \<Rightarrow> Inl e
      | Inr roots \<Rightarrow>
          (case te_build env \<lparr>tb_roots = roots, tb_accept_invalid_certs = True,
                              tb_accept_invalid_hostnames = True\<rparr> of
             Inl e \<Rightarrow> Inl (''Failed to build TLS connector: '' @ e)
           | Inr tls_connector \<Rightarrow>
               (case te_connect env tls_connector host tcp_stream of
                  Inl e \<Rightarrow> Inl (''TLS handshake failed: '' @ e)
                | Inr tls_stream \<Rightarrow> Inr (NativeTls tls_stream))))"

text \<open>
  A WebSocket over a stream, once its handshake is done; \<open>connect_tcp\<close> is the TCP connection,
  \<open>client_handshake\<close> the handshake of tungstenite.
\<close>

record ws_stream =
  ws_results :: "(string + ws_message) list"
  ws_failing :: "ws_message \<Rightarrow> string option"

definition ws_transport_of :: "sockaddr \<Rightarrow> ws_stream \<Rightarrow> ws_transport" where
  "ws_transport_of peer_addr s =
     \<lparr>wt_peer_addr = peer_addr, wt_results = ws_results s, wt_failing = ws_failing s, wt_sent = []\<rparr>"

definition ws_fallback_addr :: sockaddr where
  "ws_fallback_addr = \<lparr>sa_ip = V4 (Ipv4Addr 127 0 0 1), sa_port = 80\<rparr>"

definition ws_server_addr :: "string \<Rightarrow> u16 \<Rightarrow> sockaddr" where
  "ws_server_addr host port =
     (case parse_sockaddr (host @ '':'' @ dec_of_nat (unat port)) of
        Some addr \<Rightarrow> addr
      | None \<Rightarrow> ws_fallback_addr)"

definition ws_connect ::
  "(string \<Rightarrow> string + parsed_url) \<Rightarrow> (string \<Rightarrow> u16 \<Rightarrow> string + 's) \<Rightarrow> ('cert, 'conn, 's, 'tls) tls_env
     \<Rightarrow> (string \<Rightarrow> ('tls, 's) maybe_tls_stream \<Rightarrow> string + ws_stream) \<Rightarrow> string \<Rightarrow> string \<Rightarrow> string + ws_transport" where
  "ws_connect url_parse connect_tcp env client_handshake url ca_cert_path =
     (case parse_url url_parse url of
        Inl e \<Rightarrow> Inl e
      | Inr (host, port, use_tls) \<Rightarrow>
          (case connect_tcp host port of
             Inl e \<Rightarrow> Inl (''Failed to connect to '' @ host @ '':'' @ e)
           | Inr tcp_stream \<Rightarrow>
               (case (if use_tls then wrap_with_tls env tcp_stream host ca_cert_path else Inr (Plain tcp_stream)) of
                  Inl e \<Rightarrow> Inl e
                | Inr stream \<Rightarrow>
                    (case client_handshake url stream of
                       Inl e \<Rightarrow> Inl (''WebSocket handshake failed: '' @ e)
                     | Inr s \<Rightarrow> Inr (ws_transport_of (ws_server_addr host port) s)))))"

definition ws_accept ::
  "('acc \<Rightarrow> 's \<Rightarrow> string + 'tls) \<Rightarrow> (('tls, 's) maybe_tls_stream \<Rightarrow> string + ws_stream) \<Rightarrow> 'acc option
     \<Rightarrow> string + 's \<times> sockaddr \<Rightarrow> string + ws_transport" where
  "ws_accept tls_accept server_handshake tls_acceptor accepted =
     (case accepted of
        Inl e \<Rightarrow> Inl e
      | Inr (stream, addr) \<Rightarrow>
          (case (case tls_acceptor of
                   Some acceptor \<Rightarrow> map_sum (\<lambda>e. e) NativeTls (tls_accept acceptor stream)
                 | None \<Rightarrow> Inr (Plain stream)) of
             Inl e \<Rightarrow> Inl e
           | Inr tls_stream \<Rightarrow>
               (case server_handshake tls_stream of
                  Inl e \<Rightarrow> Inl e
                | Inr s \<Rightarrow> Inr (ws_transport_of addr s))))"

definition ws_transport_io_task ::
  "(string \<Rightarrow> string + unit) \<Rightarrow> ('acc \<Rightarrow> 's \<Rightarrow> string + 'tls) \<Rightarrow> (('tls, 's) maybe_tls_stream \<Rightarrow> string + ws_stream)
     \<Rightarrow> server_config \<Rightarrow> 'acc option \<Rightarrow> (string + 's \<times> sockaddr) list \<Rightarrow> ws_transport list exit" where
  "ws_transport_io_task bind tls_accept server_handshake config tls_acceptor accepted =
     (case bind (sockaddr_to_string (sc_bind_addr config)) of
        Inl e \<Rightarrow> Panic (IoFailure (''Failed to bind to address: '' @ e))
      | Inr _ \<Rightarrow> Exit (accept_loop (map (ws_accept tls_accept server_handshake tls_acceptor) accepted)))"

text \<open>The client's three ways to connect, as \<open>run_client_from_config\<close> uses them.\<close>

datatype client_transport = Over_tcp tcp_transport | Over_udp udp_transport | Over_ws ws_transport

fun connect_dial ::
  "(string \<Rightarrow> string + tcp_stream) \<Rightarrow> (string \<Rightarrow> string + udp_socket) \<Rightarrow> (string \<Rightarrow> string \<Rightarrow> string + ws_transport)
     \<Rightarrow> dial \<Rightarrow> string + client_transport" where
  "connect_dial connect_stream bind ws (Dial_tcp addr) = map_sum (\<lambda>e. e) Over_tcp (tcp_connect connect_stream addr)"
| "connect_dial connect_stream bind ws (Dial_udp addr) = map_sum (\<lambda>e. e) Over_udp (udp_bind bind addr)"
| "connect_dial connect_stream bind ws (Dial_ws url ca) = map_sum (\<lambda>e. e) Over_ws (ws url ca)"

section \<open>Lemmas\<close>

lemma read_number_port:
  "read_number 10 5 True 65535 (dec_of_nat (unat (port :: u16))) = Some (unat port, [])"
proof -
  have port: "unat port < 65536" by (rule unat_u16_less)
  then have "length (dec_of_nat (unat port)) \<le> 5" by (intro length_dec_of_nat) auto
  then have "read_digits 10 5 0 0 (dec_of_nat (unat port)) = Some (unat port, length (dec_of_nat (unat port)), [])"
    using read_digits_10 [of "dec_of_nat (unat port)" "[]" 0 5 0] dec_of_nat_digits
    by (simp add: foldl_dec_of_nat)
  with port show ?thesis by (simp add: read_number_def)
qed

lemma parse_sockaddr_v4:
  assumes "sa_ip a = V4 ip"
  shows "parse_sockaddr (sockaddr_to_string a) = Some a"
proof -
  have "read_ipv4_addr (ipv4_to_string ip @ '':'' @ dec_of_nat (unat (sa_port a)))
      = Some (ip, '':'' @ dec_of_nat (unat (sa_port a)))"
    by (rule read_ipv4_to_string) simp
  with assms show ?thesis
    by (simp add: parse_sockaddr_def sockaddr_to_string_def read_socket_v4_def read_port_def
        read_given_char_def read_number_port)
qed

text \<open>
  A WebSocket client of an IPv4 server knows it by the configured address, where the URL is split
  as it was put together.
\<close>

lemma ws_connect_peer:
  assumes "sa_ip (cc_server_addr config) = V4 ip"
    and "url_parse url = Inr \<lparr>pu_host = Some (ipv4_to_string ip), pu_port = Some (sa_port (cc_server_addr config)), pu_scheme = scheme\<rparr>"
    and "ws_connect url_parse connect_tcp env client_handshake url ca_cert_path = Inr t"
  shows "wt_peer_addr t = cc_server_addr config"
  using assms parse_sockaddr_v4 [OF assms(1)]
  by (auto simp: ws_connect_def parse_url_def ws_transport_of_def ws_server_addr_def sockaddr_to_string_def
      split: sum.splits if_splits)

text \<open>A failing client does not keep the server from accepting the others.\<close>

lemma accept_loop_append: "accept_loop (xs @ ys) = accept_loop xs @ accept_loop ys"
  by (induction xs rule: accept_loop.induct) simp_all

end
