(* ===== verification/Proxy_Sessions.thy ===== *)
theory Proxy_Sessions
  imports Net_Addr Channel "HOL-Library.AList"
begin

text \<open>
  The session tables of the transparent proxy: \<open>transparent_proxy/mod.rs\<close>, \<open>filter.rs\<close>,
  \<open>tcp_proxy.rs\<close>, \<open>udp_proxy.rs\<close> and the part \<open>icmp_proxy.rs\<close> shares with it.  A session is a
  spawned task with a channel of its own; the table maps keys to channels.  The user-space
  network stack and the sockets are parameters: what they deliver comes with each step.
\<close>

section \<open>Filters and upstream (filter.rs, mod.rs)\<close>

type_synonym ip_filter = "ipaddr \<Rightarrow> ipaddr \<Rightarrow> bool"

type_synonym ip_filters = "ip_filter list"

definition filters_new :: ip_filters where
  "filters_new = []"

fun non_broadcast :: "ipaddr \<Rightarrow> bool" where
  "non_broadcast (V4 a) = (\<not> (v4_is_broadcast a \<or> v4_is_multicast a \<or> v4_is_unspecified a))"
| "non_broadcast (V6 a) = (\<not> (v6_is_multicast a \<or> v6_is_unspecified a))"

definition with_non_broadcast :: ip_filters where
  "with_non_broadcast = [\<lambda>src dst. non_broadcast src \<and> non_broadcast dst]"

definition filters_add :: "ip_filter \<Rightarrow> ip_filters \<Rightarrow> ip_filters" where
  "filters_add f filters = filters @ [f]"

definition filters_add_all :: "ip_filter list \<Rightarrow> ip_filters \<Rightarrow> ip_filters" where
  "filters_add_all fs filters = filters @ fs"

definition is_allowed :: "ip_filters \<Rightarrow> ipaddr \<Rightarrow> ipaddr \<Rightarrow> bool" where
  "is_allowed filters src dst = list_all (\<lambda>f. f src dst) filters"

record upstream_server =
  us_ip :: "ipaddr option"

definition upstream_new :: "ipaddr option \<Rightarrow> upstream_server" where
  "upstream_new ip = \<lparr>us_ip = ip\<rparr>"

definition translate_socket :: "upstream_server \<Rightarrow> sockaddr \<Rightarrow> sockaddr" where
  "translate_socket us addr =
     (case us_ip us of
        Some ip \<Rightarrow> \<lparr>sa_ip = ip, sa_port = sa_port addr\<rparr>
      | None \<Rightarrow> addr)"

definition translate_ipv4 :: "upstream_server \<Rightarrow> ipv4addr \<Rightarrow> ipaddr + ipv4addr" where
  "translate_ipv4 us addr =
     (case us_ip us of
        Some (V4 ip) \<Rightarrow> Inr ip
      | Some (V6 ip) \<Rightarrow> Inl (V6 ip)
      | None \<Rightarrow> Inr addr)"

section \<open>Sockets towards the target\<close>

text \<open>The calls that prepare a socket, in order; each may fail and ends the preparation.\<close>

datatype domain = Ipv4_domain | Ipv6_domain

datatype socket_call =
  New_stream domain | New_dgram domain | New_icmp
| Bind_device_v4 string | Bind_device_v6 string
| Set_keepalive | Set_nodelay | Set_nonblocking
| Connect sockaddr

fun domain_of :: "ipaddr \<Rightarrow> domain" where
  "domain_of (V4 _) = Ipv4_domain"
| "domain_of (V6 _) = Ipv6_domain"

definition bind_calls :: "string \<Rightarrow> ipaddr \<Rightarrow> socket_call list" where
  "bind_calls interface ip =
     (if interface \<noteq> [] \<and> \<not> ip_is_loopback ip
      then [case ip of V4 _ \<Rightarrow> Bind_device_v4 interface | V6 _ \<Rightarrow> Bind_device_v6 interface]
      else [])"

definition new_tcp_stream :: "sockaddr \<Rightarrow> string \<Rightarrow> socket_call list" where
  "new_tcp_stream addr interface =
     [New_stream (domain_of (sa_ip addr))] @ bind_calls interface (sa_ip addr)
     @ [Set_keepalive, Set_nodelay, Set_nonblocking, Connect addr]"

definition new_udp_packet :: "sockaddr \<Rightarrow> string \<Rightarrow> socket_call list" where
  "new_udp_packet addr interface =
     [New_dgram (domain_of (sa_ip addr))] @ bind_calls interface (sa_ip addr)
     @ [Set_nonblocking, Connect addr]"

definition new_icmp_socket :: "ipv4addr \<Rightarrow> string \<Rightarrow> socket_call list" where
  "new_icmp_socket addr interface =
     [New_icmp] @ bind_calls interface (V4 addr) @ [Connect \<lparr>sa_ip = V4 addr, sa_port = 0\<rparr>]"

section \<open>The session table (udp\_proxy.rs, icmp\_proxy.rs)\<close>

text \<open>
  A task is spawned, then counted as active, then it removes its key from the table, then it is
  uncounted and its receiver dropped.
\<close>

datatype phase = Spawned | Running | Removed

record 'k task =
  tk_id :: nat
  tk_key :: 'k
  tk_phase :: phase

text \<open>
  The table names channels by numbers; \<open>px_inflight\<close> is what the inbound loop holds between
  releasing the lock of the table and sending.
\<close>

record 'k proxy_state =
  px_sessions :: "('k \<times> nat) list"
  px_chans :: "nat \<Rightarrow> bytes chan"
  px_next :: nat
  px_tasks :: "'k task list"
  px_active :: u64
  px_inflight :: "('k \<times> nat \<times> bytes) option"

definition proxy_start :: "'k proxy_state" where
  "proxy_start = \<lparr>px_sessions = [], px_chans = (\<lambda>_. chan_new), px_next = 0, px_tasks = [],
     px_active = 0, px_inflight = None\<rparr>"

text \<open>The inbound loop: finding or making the session of a key, then sending to it.\<close>

definition session_for :: "'k \<Rightarrow> bytes \<Rightarrow> 'k proxy_state \<Rightarrow> 'k proxy_state" where
  "session_for key payload st =
     (case map_of (px_sessions st) key of
        Some tx \<Rightarrow> st\<lparr>px_inflight := Some (key, tx, payload)\<rparr>
      | None \<Rightarrow>
          (let tx = px_next st in
           st\<lparr>px_sessions := AList.update key tx (px_sessions st),
              px_chans := (px_chans st)(tx := chan_new),
              px_next := Suc tx,
              px_tasks := px_tasks st @ [\<lparr>tk_id = tx, tk_key = key, tk_phase = Spawned\<rparr>],
              px_inflight := Some (key, tx, payload)\<rparr>))"

definition send_to_session :: "'k proxy_state \<Rightarrow> 'k proxy_state" where
  "send_to_session st =
     (case px_inflight st of
        None \<Rightarrow> st
      | Some (key, tx, payload) \<Rightarrow>
          (case chan_send payload (px_chans st tx) of
             (Inl _, _) \<Rightarrow> st\<lparr>px_sessions := AList.delete key (px_sessions st), px_inflight := None\<rparr>
           | (Inr _, ch) \<Rightarrow> st\<lparr>px_chans := (px_chans st)(tx := ch), px_inflight := None\<rparr>))"

definition dispatch :: "'k \<Rightarrow> bytes \<Rightarrow> 'k proxy_state \<Rightarrow> 'k proxy_state" where
  "dispatch key payload st = send_to_session (session_for key payload st)"

text \<open>
  One round of \<open>handle_inbound_datagram\<close>: what was received is filtered, then dispatched.  The code
  releases the lock of the table between the two halves of \<open>dispatch\<close>; rounds taken whole are one of
  the interleavings of \<open>proxy_step\<close>, which splits them.
\<close>

definition handle_inbound_datagram ::
  "ip_filters \<Rightarrow> string + bytes \<times> sockaddr \<times> sockaddr \<Rightarrow> (sockaddr \<times> sockaddr) proxy_state
     \<Rightarrow> (sockaddr \<times> sockaddr) proxy_state" where
  "handle_inbound_datagram filters received st =
     (case received of
        Inl _ \<Rightarrow> st
      | Inr (payload, local, remote) \<Rightarrow>
          if \<not> is_allowed filters (sa_ip remote) (sa_ip local) then st
          else dispatch (remote, local) payload st)"

text \<open>The life of a task, apart from the packets it relays.\<close>

definition set_phase :: "nat \<Rightarrow> phase \<Rightarrow> 'k proxy_state \<Rightarrow> 'k proxy_state" where
  "set_phase i p st =
     st\<lparr>px_tasks := map (\<lambda>t. if tk_id t = i then t\<lparr>tk_phase := p\<rparr> else t) (px_tasks st)\<rparr>"

definition drop_task :: "nat \<Rightarrow> 'k proxy_state \<Rightarrow> 'k proxy_state" where
  "drop_task i st =
     st\<lparr>px_tasks := filter (\<lambda>t. tk_id t \<noteq> i) (px_tasks st),
        px_chans := (px_chans st)(i := (px_chans st i)\<lparr>ch_receiver := False\<rparr>)\<rparr>"

definition session_begin :: "nat \<Rightarrow> 'k proxy_state \<Rightarrow> 'k proxy_state" where
  "session_begin i st = (set_phase i Running st)\<lparr>px_active := px_active st + 1\<rparr>"

definition session_remove :: "nat \<Rightarrow> 'k \<Rightarrow> 'k proxy_state \<Rightarrow> 'k proxy_state" where
  "session_remove i key st =
     (set_phase i Removed st)\<lparr>px_sessions := AList.delete key (px_sessions st)\<rparr>"

definition session_finish :: "nat \<Rightarrow> 'k proxy_state \<Rightarrow> 'k proxy_state" where
  "session_finish i st = (drop_task i st)\<lparr>px_active := px_active st - 1\<rparr>"

text \<open>
  The interleaving of the inbound loop with the tasks; \<open>early\<close> says whether a task may give up
  before it starts, as an ICMP session does when the upstream address is not IPv4.
\<close>

inductive proxy_step :: "bool \<Rightarrow> 'k proxy_state \<Rightarrow> 'k proxy_state \<Rightarrow> bool" for early where
  takes: "px_inflight st = None \<Longrightarrow> proxy_step early st (session_for key payload st)"
| sends: "proxy_step early st (send_to_session st)"
| begins: "t \<in> set (px_tasks st) \<Longrightarrow> tk_phase t = Spawned
    \<Longrightarrow> proxy_step early st (session_begin (tk_id t) st)"
| gives_up: "t \<in> set (px_tasks st) \<Longrightarrow> tk_phase t = Spawned \<Longrightarrow> early
    \<Longrightarrow> proxy_step early st (drop_task (tk_id t) st)"
| removes: "t \<in> set (px_tasks st) \<Longrightarrow> tk_phase t = Running
    \<Longrightarrow> proxy_step early st (session_remove (tk_id t) (tk_key t) st)"
| finishes: "t \<in> set (px_tasks st) \<Longrightarrow> tk_phase t = Removed
    \<Longrightarrow> proxy_step early st (session_finish (tk_id t) st)"
| receives: "chan_recv (px_chans st i) = (r, ch)
    \<Longrightarrow> proxy_step early st (st\<lparr>px_chans := (px_chans st)(i := ch)\<rparr>)"

inductive proxy_reach :: "bool \<Rightarrow> 'k proxy_state \<Rightarrow> bool" for early where
  start: "proxy_reach early proxy_start"
| step: "proxy_reach early st \<Longrightarrow> proxy_step early st st' \<Longrightarrow> proxy_reach early st'"

section \<open>The relay of a UDP session (udp\_proxy.rs)\<close>

text \<open>
  What a round of the select sees: data or the end of the channel, with the result of sending it
  on; a datagram of the target, with what sending it to the TUN side within 100ms came to; or
  nothing for the 30 seconds of the session timeout.
\<close>

datatype tun_send = Sent | Send_failed string | Send_timed_out

datatype udp_session_event =
  Client_data bytes "string + unit"
| Client_closed
| Target_data bytes tun_send
| Target_failed string
| Session_idle

text \<open>The packets passed on to the target and back to the client, and how the session ended.\<close>

fun udp_session_loop ::
  "udp_session_event list \<Rightarrow> bytes list \<Rightarrow> bytes list \<Rightarrow> (string + unit) option \<times> bytes list \<times> bytes list" where
  "udp_session_loop [] up down = (None, up, down)"
| "udp_session_loop (Client_data data (Inr _) # es) up down = udp_session_loop es (up @ [data]) down"
| "udp_session_loop (Client_data data (Inl e) # es) up down = (Some (Inl e), up, down)"
| "udp_session_loop (Client_closed # es) up down = (Some (Inr ()), up, down)"
| "udp_session_loop (Target_failed e # es) up down = (Some (Inl e), up, down)"
| "udp_session_loop (Target_data data Sent # es) up down = udp_session_loop es up (down @ [data])"
| "udp_session_loop (Target_data data (Send_failed e) # es) up down = (Some (Inl e), up, down)"
| "udp_session_loop (Target_data data Send_timed_out # es) up down = udp_session_loop es up down"
| "udp_session_loop (Session_idle # es) up down = (Some (Inr ()), up, down)"

text \<open>The work of a session task, between its stages: its socket, then the relay.\<close>

definition handle_udp_session ::
  "upstream_server \<Rightarrow> (socket_call list \<Rightarrow> string + unit) \<Rightarrow> string \<Rightarrow> sockaddr \<times> sockaddr \<Rightarrow> udp_session_event list
     \<Rightarrow> (string + unit) option \<times> bytes list \<times> bytes list" where
  "handle_udp_session upstream open_socket interface = (\<lambda>(client, target) events.
     let outbound_target = translate_socket upstream target in
     case open_socket (new_udp_packet outbound_target interface) of
       Inl e \<Rightarrow> (Some (Inl e), [], [])
     | Inr _ \<Rightarrow> udp_session_loop events [] [])"

section \<open>TCP connections (tcp\_proxy.rs)\<close>

text \<open>The listener and the relays it has spawned; a relay runs once it is counted.  Connections are numbered.\<close>

record tcp_proxy =
  tp_next :: nat
  tp_spawned :: "(nat \<times> sockaddr) list"
  tp_relays :: "(nat \<times> sockaddr) list"
  tp_active :: u64
  tp_stopped :: "string option"

definition tcp_proxy_start :: tcp_proxy where
  "tcp_proxy_start = \<lparr>tp_next = 0, tp_spawned = [], tp_relays = [], tp_active = 0, tp_stopped = None\<rparr>"

datatype relay_end = Connect_failed string | Relay_finished | Relay_failed string

datatype tcp_proxy_event =
  Accept_failed string
| Accepted sockaddr "string + sockaddr"
| Relay_begins nat
| Relay_ends nat relay_end

text \<open>
  An accepted connection is filtered or relayed to the translated target; a relay that ends,
  whichever way, is uncounted.  A failing listener stops accepting; the relays go on.
\<close>

fun handle_inbound_stream ::
  "ip_filters \<Rightarrow> upstream_server \<Rightarrow> tcp_proxy_event \<Rightarrow> tcp_proxy \<Rightarrow> tcp_proxy" where
  "handle_inbound_stream filters us (Accept_failed e) st =
     (if tp_stopped st = None then st\<lparr>tp_stopped := Some e\<rparr> else st)"
| "handle_inbound_stream filters us (Accepted peer_addr (Inl e)) st =
     (if tp_stopped st = None then st\<lparr>tp_stopped := Some e\<rparr> else st)"
| "handle_inbound_stream filters us (Accepted peer_addr (Inr local_addr)) st =
     (if tp_stopped st \<noteq> None then st
      else if \<not> is_allowed filters (sa_ip peer_addr) (sa_ip local_addr) then st
      else st\<lparr>tp_spawned := tp_spawned st @ [(tp_next st, local_addr)], tp_next := Suc (tp_next st)\<rparr>)"
| "handle_inbound_stream filters us (Relay_begins i) st =
     (case map_of (tp_spawned st) i of
        None \<Rightarrow> st
      | Some local_addr \<Rightarrow>
          st\<lparr>tp_spawned := AList.delete i (tp_spawned st),
             tp_relays := tp_relays st @ [(i, translate_socket us local_addr)],
             tp_active := tp_active st + 1\<rparr>)"
| "handle_inbound_stream filters us (Relay_ends i result) st =
     (case map_of (tp_relays st) i of
        None \<Rightarrow> st
      | Some outbound_addr \<Rightarrow>
          (let uncounted = st\<lparr>tp_relays := AList.delete i (tp_relays st), tp_active := tp_active st - 1\<rparr>
           in case result of
                Connect_failed e \<Rightarrow> uncounted
              | Relay_finished \<Rightarrow> uncounted
              | Relay_failed e \<Rightarrow> uncounted))"

section \<open>The invariant of a session table\<close>

text \<open>
  Tasks have numbers of their own, a task that has not removed its key is the one the table names
  for it, the table names no other task, and the counter counts the tasks that run.  Only where
  tasks may give up can the table name a channel whose receiver is gone.
\<close>

definition live :: "'k task \<Rightarrow> bool" where
  "live t = (tk_phase t \<noteq> Removed)"

definition started :: "'k task \<Rightarrow> bool" where
  "started t = (tk_phase t \<noteq> Spawned)"

definition stale :: "'k proxy_state \<Rightarrow> nat \<Rightarrow> bool" where
  "stale st i = (\<not> ch_receiver (px_chans st i) \<and> i < px_next st)"

definition task_for :: "'k task set \<Rightarrow> 'k \<Rightarrow> nat \<Rightarrow> bool" where
  "task_for ts k i = (\<exists>t \<in> ts. tk_id t = i \<and> tk_key t = k \<and> live t)"

definition tasks_ok :: "'k proxy_state \<Rightarrow> bool" where
  "tasks_ok st =
     (distinct (map tk_id (px_tasks st))
      \<and> (\<forall>t \<in> set (px_tasks st). tk_id t < px_next st \<and> ch_receiver (px_chans st (tk_id t)))
      \<and> px_active st = of_nat (length (filter started (px_tasks st))))"

definition table_ok :: "bool \<Rightarrow> 'k proxy_state \<Rightarrow> bool" where
  "table_ok early st =
     ((\<forall>t \<in> set (px_tasks st). live t \<longrightarrow> map_of (px_sessions st) (tk_key t) = Some (tk_id t))
      \<and> (\<forall>k i. map_of (px_sessions st) k = Some i \<longrightarrow>
           task_for (set (px_tasks st)) k i \<or> early \<and> stale st i))"

definition inflight_ok :: "'k proxy_state \<Rightarrow> bool" where
  "inflight_ok st =
     (\<forall>k i p. px_inflight st = Some (k, i, p) \<longrightarrow>
        i < px_next st \<and> map_of (px_sessions st) k \<in> {None, Some i})"

definition proxy_inv :: "bool \<Rightarrow> 'k proxy_state \<Rightarrow> bool" where
  "proxy_inv early st = (tasks_ok st \<and> table_ok early st \<and> inflight_ok st)"

lemmas inv_defs = proxy_inv_def tasks_ok_def table_ok_def inflight_ok_def

lemma live_phase [simp]: "live (t\<lparr>tk_phase := p\<rparr>) = (p \<noteq> Removed)"
  and started_phase [simp]: "started (t\<lparr>tk_phase := p\<rparr>) = (p \<noteq> Spawned)"
  by (simp_all add: live_def started_def)

lemma task_unique:
  assumes "distinct (map tk_id ts)" "t \<in> set ts" "u \<in> set ts" "tk_id t = tk_id u"
  shows "t = u"
  using assms by (metis inj_on_def distinct_map)

lemma task_for_insert:
  "task_for ts k i \<Longrightarrow> tk_key t \<noteq> k \<or> tk_id u = tk_id t \<and> tk_key u = tk_key t \<and> live u
     \<Longrightarrow> task_for (insert u (ts - {t})) k i"
  unfolding task_for_def by auto

lemma map_of_delete [simp]: "map_of (AList.delete k al) k' = (if k' = k then None else map_of al k')"
  by (simp add: delete_conv')

lemma map_of_update [simp]: "map_of (AList.update k v al) k' = (if k' = k then Some v else map_of al k')"
  by (simp add: update_conv')

lemma proxy_inv_start: "proxy_inv early proxy_start"
  by (simp add: inv_defs proxy_start_def)

lemma session_for_inv:
  assumes "proxy_inv early st"
  shows "proxy_inv early (session_for key payload st)"
proof (cases "map_of (px_sessions st) key")
  case None
  have fresh: "tk_id t \<noteq> px_next st" if "t \<in> set (px_tasks st)" for t
    using assms that by (auto simp: inv_defs)
  have tk: "tk_key t \<noteq> key" if "t \<in> set (px_tasks st)" "live t" for t
    using assms None that by (auto simp: inv_defs)
  have "tasks_ok (session_for key payload st)"
    using assms None fresh by (auto simp: session_for_def inv_defs Let_def chan_new_def started_def less_Suc_eq)
  moreover have "table_ok early (session_for key payload st)"
    using assms None tk
    by (auto simp: session_for_def inv_defs Let_def stale_def live_def task_for_def less_Suc_eq split: if_splits)
  moreover have "inflight_ok (session_for key payload st)"
    using None by (simp add: session_for_def inflight_ok_def Let_def)
  ultimately show ?thesis by (simp add: proxy_inv_def)
next
  case (Some tx)
  then have "tx < px_next st"
    using assms by (fastforce simp: inv_defs stale_def task_for_def)
  with Some assms show ?thesis
    by (auto simp: session_for_def inv_defs stale_def)
qed

lemma send_to_session_inv:
  assumes "proxy_inv early st"
  shows "proxy_inv early (send_to_session st)"
proof (cases "px_inflight st")
  case None
  with assms show ?thesis by (simp add: send_to_session_def)
next
  case (Some f)
  obtain key tx payload where f: "f = (key, tx, payload)" by (cases f)
  show ?thesis
  proof (cases "ch_receiver (px_chans st tx)")
    case True
    with assms Some f show ?thesis
      by (auto simp: send_to_session_def chan_send_def inv_defs stale_def)
  next
    case False
    have other: "tk_key t \<noteq> key" if "t \<in> set (px_tasks st)" "live t" for t
    proof
      assume "tk_key t = key"
      with that assms Some f have "tk_id t = tx" by (auto simp: inv_defs)
      with that assms False show False by (auto simp: inv_defs)
    qed
    from False Some f have "send_to_session st = st\<lparr>px_sessions := AList.delete key (px_sessions st), px_inflight := None\<rparr>"
      by (simp add: send_to_session_def chan_send_def)
    with assms other show ?thesis by (auto simp: inv_defs stale_def)
  qed
qed

text \<open>The steps of a task change its own entry in the list of tasks only.\<close>

lemma distinct_id_tail:
  assumes "distinct (map tk_id (t # us))" "v \<in> set us"
  shows "tk_id v \<noteq> tk_id t"
proof
  assume eq: "tk_id v = tk_id t"
  have "tk_id t \<in> tk_id ` set us" using imageI [OF assms(2), of tk_id] unfolding eq .
  with assms(1) show False by simp
qed

lemma count_phase:
  assumes "distinct (map tk_id ts)" "t \<in> set ts"
  shows "length (filter started (map (\<lambda>u. if tk_id u = tk_id t then u\<lparr>tk_phase := p\<rparr> else u) ts))
    + (if started t then 1 else 0) = length (filter started ts) + (if p = Spawned then 0 else 1)"
  using assms
proof (induction ts)
  case (Cons u us)
  show ?case
  proof (cases "u = t")
    case True
    have "tk_id v \<noteq> tk_id t" if "v \<in> set us" for v
      using distinct_id_tail [OF Cons.prems(1) that] True by simp
    then have "map (\<lambda>u. if tk_id u = tk_id t then u\<lparr>tk_phase := p\<rparr> else u) us = us"
      by (auto intro: map_idI)
    with True show ?thesis by simp
  next
    case False
    with Cons.prems have "tk_id u \<noteq> tk_id t" "t \<in> set us" by auto
    with Cons show ?thesis by (auto split: if_splits)
  qed
qed simp

lemma count_drop:
  assumes "distinct (map tk_id ts)" "t \<in> set ts"
  shows "length (filter started (filter (\<lambda>u. tk_id u \<noteq> tk_id t) ts)) + (if started t then 1 else 0)
    = length (filter started ts)"
  using assms
proof (induction ts)
  case (Cons u us)
  show ?case
  proof (cases "u = t")
    case True
    have "tk_id v \<noteq> tk_id t" if "v \<in> set us" for v
      using distinct_id_tail [OF Cons.prems(1) that] True by simp
    then have "filter (\<lambda>u. tk_id u \<noteq> tk_id t) us = us" by (auto intro: filter_True)
    with True show ?thesis by simp
  next
    case False
    with Cons.prems have "tk_id u \<noteq> tk_id t" "t \<in> set us" by auto
    with Cons show ?thesis by auto
  qed
qed simp

lemma map_id_set_phase [simp]: "map tk_id (px_tasks (set_phase i p st)) = map tk_id (px_tasks st)"
  by (simp add: set_phase_def)

lemma set_phase_simps [simp]:
  "px_sessions (set_phase i p st) = px_sessions st" "px_chans (set_phase i p st) = px_chans st"
  "px_next (set_phase i p st) = px_next st" "px_inflight (set_phase i p st) = px_inflight st"
  "px_active (set_phase i p st) = px_active st"
  by (simp_all add: set_phase_def)

lemma set_set_phase:
  assumes "distinct (map tk_id (px_tasks st))" "t \<in> set (px_tasks st)"
  shows "set (px_tasks (set_phase (tk_id t) p st)) = insert (t\<lparr>tk_phase := p\<rparr>) (set (px_tasks st) - {t})"
proof -
  let ?f = "\<lambda>u. if tk_id u = tk_id t then u\<lparr>tk_phase := p\<rparr> else u"
  have "?f ` (set (px_tasks st) - {t}) = (\<lambda>u. u) ` (set (px_tasks st) - {t})"
    using task_unique [OF assms(1) _ assms(2)] by (intro image_cong) auto
  moreover have "?f ` set (px_tasks st) = insert (?f t) (?f ` (set (px_tasks st) - {t}))"
    using image_insert [of ?f t "set (px_tasks st) - {t}"] unfolding insert_Diff [OF assms(2)] .
  ultimately show ?thesis by (simp add: set_phase_def)
qed

lemma set_drop_task:
  assumes "distinct (map tk_id (px_tasks st))" "t \<in> set (px_tasks st)"
  shows "set (px_tasks (drop_task (tk_id t) st)) = set (px_tasks st) - {t}"
proof -
  have "tk_id u \<noteq> tk_id t \<longleftrightarrow> u \<noteq> t" if "u \<in> set (px_tasks st)" for u
    using task_unique [OF assms(1) that assms(2)] by auto
  then show ?thesis by (auto simp: drop_task_def)
qed

lemma session_begin_inv:
  assumes "proxy_inv early st" "t \<in> set (px_tasks st)" "tk_phase t = Spawned"
  shows "proxy_inv early (session_begin (tk_id t) st)"
proof -
  have d: "distinct (map tk_id (px_tasks st))" using assms(1) by (simp add: inv_defs)
  note tasks = set_set_phase [OF d assms(2), of Running]
  have live: "live t" using assms(3) by (simp add: live_def)
  have "length (filter started (px_tasks (set_phase (tk_id t) Running st)))
      = Suc (length (filter started (px_tasks st)))"
    using count_phase [OF d assms(2), of Running] assms(3) by (simp add: set_phase_def started_def)
  then have "tasks_ok (session_begin (tk_id t) st)"
    using assms(1,2) by (auto simp: session_begin_def inv_defs tasks)
  moreover have "table_ok early (session_begin (tk_id t) st)"
    unfolding table_ok_def
  proof (intro conjI ballI allI impI)
    fix k i
    assume "map_of (px_sessions (session_begin (tk_id t) st)) k = Some i"
    then have "task_for (set (px_tasks st)) k i \<or> early \<and> stale st i"
      using assms(1) by (simp add: session_begin_def inv_defs)
    then show "task_for (set (px_tasks (session_begin (tk_id t) st))) k i
        \<or> early \<and> stale (session_begin (tk_id t) st) i"
      using task_for_insert [of _ k i t "t\<lparr>tk_phase := Running\<rparr>"]
      by (auto simp: session_begin_def tasks stale_def)
  qed (use assms(1,2) live in \<open>auto simp: session_begin_def inv_defs tasks\<close>)
  ultimately show ?thesis
    using assms(1) by (simp add: proxy_inv_def inflight_ok_def session_begin_def)
qed

lemma session_remove_inv:
  assumes "proxy_inv early st" "t \<in> set (px_tasks st)" "tk_phase t = Running"
  shows "proxy_inv early (session_remove (tk_id t) (tk_key t) st)"
proof -
  have d: "distinct (map tk_id (px_tasks st))" using assms(1) by (simp add: inv_defs)
  note tasks = set_set_phase [OF d assms(2), of Removed]
  have mine: "map_of (px_sessions st) (tk_key t) = Some (tk_id t)"
    using assms by (simp add: inv_defs live_def)
  have other: "tk_key u \<noteq> tk_key t" if "u \<in> set (px_tasks st)" "live u" "u \<noteq> t" for u
    using that assms(1,2) mine task_unique [OF d that(1) assms(2)] by (auto simp: inv_defs)
  have "length (filter started (px_tasks (set_phase (tk_id t) Removed st)))
      = length (filter started (px_tasks st))"
    using count_phase [OF d assms(2), of Removed] assms(3) by (simp add: set_phase_def started_def)
  then have "tasks_ok (session_remove (tk_id t) (tk_key t) st)"
    using assms(1,2) by (auto simp: session_remove_def inv_defs tasks)
  moreover have "table_ok early (session_remove (tk_id t) (tk_key t) st)"
    unfolding table_ok_def
  proof (intro conjI ballI allI impI)
    fix k i
    assume "map_of (px_sessions (session_remove (tk_id t) (tk_key t) st)) k = Some i"
    then have "k \<noteq> tk_key t" "task_for (set (px_tasks st)) k i \<or> early \<and> stale st i"
      using assms(1) by (auto simp: session_remove_def inv_defs split: if_splits)
    then show "task_for (set (px_tasks (session_remove (tk_id t) (tk_key t) st))) k i
        \<or> early \<and> stale (session_remove (tk_id t) (tk_key t) st) i"
      using task_for_insert [of _ k i t "t\<lparr>tk_phase := Removed\<rparr>"]
      by (auto simp: session_remove_def tasks stale_def)
  qed (use assms(1,2) other in \<open>auto simp: session_remove_def inv_defs tasks\<close>)
  ultimately show ?thesis
    using assms(1) by (auto simp: proxy_inv_def inflight_ok_def session_remove_def)
qed

lemma drop_task_inv:
  assumes "proxy_inv early st" "t \<in> set (px_tasks st)" "live t \<Longrightarrow> early"
  shows "table_ok early (drop_task (tk_id t) st)" and "inflight_ok (drop_task (tk_id t) st)"
    and "distinct (map tk_id (px_tasks (drop_task (tk_id t) st)))"
    and "\<forall>u \<in> set (px_tasks (drop_task (tk_id t) st)).
      tk_id u < px_next st \<and> ch_receiver (px_chans (drop_task (tk_id t) st) (tk_id u))"
proof -
  have d: "distinct (map tk_id (px_tasks st))" using assms(1) by (simp add: inv_defs)
  note tasks = set_drop_task [OF d assms(2)]
  have own: "tk_id u \<noteq> tk_id t" if "u \<in> set (px_tasks st)" "u \<noteq> t" for u
    using that task_unique [OF d that(1) assms(2)] by auto
  show "table_ok early (drop_task (tk_id t) st)"
    unfolding table_ok_def
  proof (intro conjI ballI allI impI)
    fix k i
    assume "map_of (px_sessions (drop_task (tk_id t) st)) k = Some i"
    then have old: "task_for (set (px_tasks st)) k i \<or> early \<and> stale st i"
      using assms(1) by (simp add: drop_task_def inv_defs)
    show "task_for (set (px_tasks (drop_task (tk_id t) st))) k i \<or> early \<and> stale (drop_task (tk_id t) st) i"
    proof (cases "i = tk_id t \<and> early")
      case True
      with assms(1,2) show ?thesis by (simp add: stale_def drop_task_def inv_defs)
    next
      case False
      from old consider u where "u \<in> set (px_tasks st)" "tk_id u = i" "tk_key u = k" "live u"
        | "early \<and> stale st i" by (auto simp: task_for_def)
      then show ?thesis
      proof cases
        case 1
        with False assms(3) have "u \<noteq> t" by auto
        with 1 show ?thesis unfolding tasks task_for_def by blast
      qed (simp add: stale_def drop_task_def)
    qed
  qed (use assms(1) tasks in \<open>auto simp: inv_defs drop_task_def\<close>)
  show "inflight_ok (drop_task (tk_id t) st)"
    using assms(1) by (simp add: inv_defs drop_task_def)
  show "distinct (map tk_id (px_tasks (drop_task (tk_id t) st)))"
    using d by (simp add: drop_task_def distinct_map_filter)
  show "\<forall>u \<in> set (px_tasks (drop_task (tk_id t) st)).
      tk_id u < px_next st \<and> ch_receiver (px_chans (drop_task (tk_id t) st) (tk_id u))"
    unfolding tasks using assms(1) own by (auto simp: inv_defs drop_task_def)
qed

lemma gives_up_inv:
  assumes "proxy_inv early st" "t \<in> set (px_tasks st)" "tk_phase t = Spawned" early
  shows "proxy_inv early (drop_task (tk_id t) st)"
proof -
  have d: "distinct (map tk_id (px_tasks st))" using assms(1) by (simp add: inv_defs)
  have "tasks_ok (drop_task (tk_id t) st)"
    using drop_task_inv(3,4) [OF assms(1,2)] assms count_drop [OF d assms(2)]
    by (simp add: tasks_ok_def proxy_inv_def started_def drop_task_def)
  then show ?thesis using drop_task_inv(1,2) [OF assms(1,2)] assms(4) by (simp add: proxy_inv_def)
qed

lemma session_finish_inv:
  assumes "proxy_inv early st" "t \<in> set (px_tasks st)" "tk_phase t = Removed"
  shows "proxy_inv early (session_finish (tk_id t) st)"
proof -
  have d: "distinct (map tk_id (px_tasks st))" using assms(1) by (simp add: inv_defs)
  have early: "live t \<Longrightarrow> early" using assms(3) by (simp add: live_def)
  have "Suc (length (filter started (px_tasks (drop_task (tk_id t) st)))) = length (filter started (px_tasks st))"
    using count_drop [OF d assms(2)] assms(3) by (simp add: started_def drop_task_def)
  then have "px_active st - 1 = of_nat (length (filter started (px_tasks (drop_task (tk_id t) st))))"
    using assms(1) by (simp add: inv_defs flip: \<open>Suc _ = _\<close>)
  then have "tasks_ok (session_finish (tk_id t) st)"
    using drop_task_inv(3,4) [OF assms(1,2) early]
    by (simp add: tasks_ok_def session_finish_def) (simp add: drop_task_def)
  moreover have "table_ok early (session_finish (tk_id t) st)" "inflight_ok (session_finish (tk_id t) st)"
    using drop_task_inv(1,2) [OF assms(1,2) early]
    by (simp_all add: table_ok_def inflight_ok_def session_finish_def stale_def)
  ultimately show ?thesis by (simp add: proxy_inv_def)
qed

lemma receives_inv:
  assumes "proxy_inv early st" "chan_recv (px_chans st i) = (r, ch)"
  shows "proxy_inv early (st\<lparr>px_chans := (px_chans st)(i := ch)\<rparr>)"
proof -
  have "ch_receiver ch = ch_receiver (px_chans st i)"
    using assms(2) by (auto simp: chan_recv_def split: list.splits if_splits)
  then have "ch_receiver (((px_chans st)(i := ch)) j) = ch_receiver (px_chans st j)" for j by simp
  with assms(1) show ?thesis by (simp add: inv_defs stale_def)
qed

lemma proxy_step_inv: "proxy_step early st st' \<Longrightarrow> proxy_inv early st \<Longrightarrow> proxy_inv early st'"
  by (induction rule: proxy_step.induct)
    (auto intro: session_for_inv send_to_session_inv session_begin_inv gives_up_inv session_remove_inv
      session_finish_inv receives_inv)

lemma proxy_reach_inv: "proxy_reach early st \<Longrightarrow> proxy_inv early st"
  by (induction rule: proxy_reach.induct) (auto intro: proxy_inv_start proxy_step_inv)

lemma table_names_live:
  "proxy_inv early st \<Longrightarrow> t \<in> set (px_tasks st) \<Longrightarrow> live t
     \<Longrightarrow> map_of (px_sessions st) (tk_key t) = Some (tk_id t)"
  unfolding proxy_inv_def table_ok_def by blast

lemma table_entry:
  "proxy_inv early st \<Longrightarrow> map_of (px_sessions st) k = Some i
     \<Longrightarrow> (\<exists>t \<in> set (px_tasks st). tk_id t = i \<and> tk_key t = k \<and> live t) \<or> early \<and> stale st i"
  unfolding proxy_inv_def table_ok_def task_for_def by blast

lemma live_keys_distinct:
  assumes "proxy_inv early st"
  shows "distinct (map tk_key (filter live (px_tasks st)))"
proof -
  have d: "distinct (map tk_id (px_tasks st))" using assms by (simp add: inv_defs)
  have "inj_on tk_key (set (filter live (px_tasks st)))"
  proof (rule inj_onI)
    fix t u
    assume tu: "t \<in> set (filter live (px_tasks st))" "u \<in> set (filter live (px_tasks st))" "tk_key t = tk_key u"
    from tu(1,2) have "map_of (px_sessions st) (tk_key t) = Some (tk_id t)" "map_of (px_sessions st) (tk_key u) = Some (tk_id u)"
      using table_names_live [OF assms] by simp_all
    with tu(3) have "tk_id t = tk_id u" by simp
    with tu show "t = u" using task_unique [OF d] by simp
  qed
  moreover have "distinct (px_tasks st)" using d by (simp add: distinct_map)
  ultimately show ?thesis by (simp add: distinct_map)
qed

section \<open>The contract of an inbound loop\<close>

text \<open>What has been sent to a session and not yet received by it.\<close>

definition queued :: "'k proxy_state \<Rightarrow> nat \<Rightarrow> bytes list" where
  "queued st i = (if i < px_next st then ch_queue (px_chans st i) else [])"

definition delivered :: "'k \<Rightarrow> bytes \<Rightarrow> 'k proxy_state \<Rightarrow> 'k proxy_state \<Rightarrow> bool" where
  "delivered k p st st' =
     (\<exists>t \<in> set (px_tasks st'). tk_key t = k \<and> live t
        \<and> queued st' = (queued st)(tk_id t := queued st (tk_id t) @ [p]))"

lemma dispatch_delivers:
  assumes inv: "proxy_inv early st"
  shows "delivered k p st (dispatch k p st)
    \<or> early \<and> map_of (px_sessions (dispatch k p st)) k = None \<and> queued (dispatch k p st) = queued st"
proof (cases "map_of (px_sessions st) k")
  case None
  then have st': "dispatch k p st =
      st\<lparr>px_sessions := AList.update k (px_next st) (px_sessions st),
         px_chans := (px_chans st)(px_next st := chan_new\<lparr>ch_queue := [p]\<rparr>), px_next := Suc (px_next st),
         px_tasks := px_tasks st @ [\<lparr>tk_id = px_next st, tk_key = k, tk_phase = Spawned\<rparr>], px_inflight := None\<rparr>"
    by (simp add: dispatch_def session_for_def send_to_session_def chan_send_def chan_new_def Let_def)
  have "queued (dispatch k p st) = (queued st)(px_next st := queued st (px_next st) @ [p])"
    unfolding st' by (rule ext) (simp add: queued_def chan_new_def)
  then show ?thesis unfolding delivered_def by (simp add: st' live_def)
next
  case (Some i)
  then consider t where "t \<in> set (px_tasks st)" "tk_id t = i" "tk_key t = k" "live t" | "early" "stale st i"
    using table_entry [OF inv] by blast
  then show ?thesis
  proof cases
    case 1
    then have i: "i < px_next st" "ch_receiver (px_chans st i)" using inv by (auto simp: inv_defs)
    with Some have st': "dispatch k p st = st\<lparr>px_inflight := None,
        px_chans := (px_chans st)(i := (px_chans st i)\<lparr>ch_queue := ch_queue (px_chans st i) @ [p]\<rparr>)\<rparr>"
      by (simp add: dispatch_def session_for_def send_to_session_def chan_send_def)
    have "queued (dispatch k p st) = (queued st)(i := queued st i @ [p])"
      unfolding st' using i by (intro ext) (simp add: queued_def)
    with 1 show ?thesis unfolding delivered_def by (auto simp: st')
  next
    case 2
    with Some have "dispatch k p st = st\<lparr>px_sessions := AList.delete k (px_sessions st), px_inflight := None\<rparr>"
      by (simp add: dispatch_def session_for_def send_to_session_def chan_send_def stale_def)
    with 2 show ?thesis by (simp add: queued_def fun_eq_iff)
  qed
qed

lemma dispatch_reach:
  assumes "proxy_reach early st" "px_inflight st = None"
  shows "proxy_reach early (dispatch k p st)"
  unfolding dispatch_def using assms proxy_step.takes proxy_step.sends proxy_reach.step by metis

text \<open>
  A loop that reads packets, drops some and hands each other to the session of its key: the
  client of a session table.
\<close>

locale inbound_loop =
  fixes inbound :: "'r \<Rightarrow> 'k proxy_state \<Rightarrow> 'k proxy_state"
    and classify :: "'r \<Rightarrow> ('k \<times> bytes) option"
  assumes inbound_classify:
    "inbound r st = (case classify r of None \<Rightarrow> st | Some (k, p) \<Rightarrow> dispatch k p st)"
begin

lemma inbound_reach:
  "proxy_reach early st \<Longrightarrow> px_inflight st = None \<Longrightarrow> proxy_reach early (inbound r st)"
  by (auto simp: inbound_classify dispatch_reach split: option.split)

lemma inbound_delivers:
  assumes "proxy_reach early st" "classify r = Some (k, p)"
  shows "delivered k p st (inbound r st)
    \<or> early \<and> map_of (px_sessions (inbound r st)) k = None \<and> queued (inbound r st) = queued st"
  using dispatch_delivers [OF proxy_reach_inv [OF assms(1)]] assms(2) by (simp add: inbound_classify)

lemma inbound_ignores: "classify r = None \<Longrightarrow> inbound r st = st"
  by (simp add: inbound_classify)

end

definition classify_datagram ::
  "ip_filters \<Rightarrow> string + bytes \<times> sockaddr \<times> sockaddr \<Rightarrow> ((sockaddr \<times> sockaddr) \<times> bytes) option" where
  "classify_datagram filters received =
     (case received of
        Inl _ \<Rightarrow> None
      | Inr (payload, local, remote) \<Rightarrow>
          if is_allowed filters (sa_ip remote) (sa_ip local) then Some ((remote, local), payload) else None)"

interpretation udp_in: inbound_loop "handle_inbound_datagram filters" "classify_datagram filters"
  for filters
  by unfold_locales (auto simp: handle_inbound_datagram_def classify_datagram_def split: sum.split)

section \<open>Relays\<close>

text \<open>Which events end a UDP session.\<close>

fun ends_session :: "udp_session_event \<Rightarrow> bool" where
  "ends_session (Client_data _ r) = (\<not> is_ok r)"
| "ends_session (Target_data _ (Send_failed _)) = True"
| "ends_session (Target_data _ _) = False"
| "ends_session _ = True"

fun to_target :: "udp_session_event \<Rightarrow> bytes option" where
  "to_target (Client_data data (Inr _)) = Some data"
| "to_target _ = None"

fun to_client :: "udp_session_event \<Rightarrow> bytes option" where
  "to_client (Target_data data Sent) = Some data"
| "to_client _ = None"

lemma udp_session_relays_from:
  "fst (snd (udp_session_loop es up down)) = up @ List.map_filter to_target (takeWhile (Not \<circ> ends_session) es)"
  "snd (snd (udp_session_loop es up down)) = down @ List.map_filter to_client (takeWhile (Not \<circ> ends_session) es)"
  by (induction es up down rule: udp_session_loop.induct) (auto simp: List.map_filter_simps)

text \<open>A session relays, in order, what came before the event that ended it, and nothing if it got no socket.\<close>

lemma handle_udp_session_relays:
  "snd (handle_udp_session upstream open_socket interface key events) =
     (if is_ok (open_socket (new_udp_packet (translate_socket upstream (snd key)) interface))
      then (List.map_filter to_target (takeWhile (Not \<circ> ends_session) events),
            List.map_filter to_client (takeWhile (Not \<circ> ends_session) events))
      else ([], []))"
  using udp_session_relays_from [of events "[]" "[]"]
  by (cases "open_socket (new_udp_packet (translate_socket upstream (snd key)) interface)")
    (simp_all add: handle_udp_session_def case_prod_unfold Let_def prod_eq_iff)

text \<open>The counter of TCP relays.\<close>

definition tcp_inv :: "tcp_proxy \<Rightarrow> bool" where
  "tcp_inv st =
     (distinct (map fst (tp_spawned st) @ map fst (tp_relays st))
      \<and> (\<forall>i \<in> set (map fst (tp_spawned st) @ map fst (tp_relays st)). i < tp_next st)
      \<and> tp_active st = of_nat (length (tp_relays st)))"

lemma length_delete:
  "distinct (map fst al) \<Longrightarrow> map_of al k = Some v \<Longrightarrow> Suc (length (AList.delete k al)) = length al"
proof (induction al)
  case (Cons e al)
  show ?case
  proof (cases "fst e = k")
    case True
    with Cons.prems(1) have "k \<notin> fst ` set al" by auto
    then have "AList.delete k al = al" by simp
    with True show ?thesis by (cases e) simp
  next
    case False
    with Cons show ?thesis by (cases e) simp
  qed
qed simp

lemma map_fst_delete: "map fst (AList.delete k al) = filter (\<lambda>i. i \<noteq> k) (map fst al)"
  by (induction al) auto

lemma fst_set_delete: "fst ` set (AList.delete k al) = fst ` set al - {k}"
  using arg_cong [OF map_fst_delete, of set k al] by auto

lemma handle_inbound_stream_inv:
  assumes "tcp_inv st"
  shows "tcp_inv (handle_inbound_stream filters us ev st)"
proof (cases ev)
  case (Accepted peer local)
  with assms show ?thesis by (cases local) (auto simp: tcp_inv_def less_Suc_eq)
next
  case (Relay_begins i)
  have "i \<in> fst ` set (tp_spawned st)" if "map_of (tp_spawned st) i = Some a" for a
    using that by (metis domI dom_map_of_conv_image_fst)
  with assms Relay_begins show ?thesis
    by (cases "map_of (tp_spawned st) i")
      (simp_all add: tcp_inv_def map_fst_delete fst_set_delete, blast)
next
  case (Relay_ends i res)
  have "tp_active st - 1 = of_nat (length (AList.delete i (tp_relays st)))" if "map_of (tp_relays st) i = Some a" for a
    using assms length_delete [OF _ that] by (simp add: tcp_inv_def flip: length_delete [OF _ that])
  with assms Relay_ends show ?thesis
    by (cases res; cases "map_of (tp_relays st) i")
      (simp_all add: tcp_inv_def map_fst_delete fst_set_delete Let_def, blast+)
qed (use assms in \<open>auto simp: tcp_inv_def\<close>)

definition allowed_targets :: "ip_filters \<Rightarrow> sockaddr set" where
  "allowed_targets filters = {target. \<exists>peer :: sockaddr. is_allowed filters (sa_ip peer) (sa_ip target)}"

definition targets_ok :: "ip_filters \<Rightarrow> upstream_server \<Rightarrow> tcp_proxy \<Rightarrow> bool" where
  "targets_ok filters us st =
     (snd ` set (tp_spawned st) \<subseteq> allowed_targets filters
      \<and> snd ` set (tp_relays st) \<subseteq> translate_socket us ` allowed_targets filters)"

lemma snd_delete_subset: "snd ` set al \<subseteq> A \<Longrightarrow> snd ` set (AList.delete i al) \<subseteq> A"
  by (auto simp: AList.delete_eq)

lemma handle_inbound_stream_targets:
  assumes "targets_ok filters us st"
  shows "targets_ok filters us (handle_inbound_stream filters us ev st)"
proof (cases ev)
  case (Accepted peer local)
  with assms show ?thesis by (cases local) (auto simp: targets_ok_def allowed_targets_def)
next
  case (Relay_begins i)
  have "a \<in> allowed_targets filters" if "map_of (tp_spawned st) i = Some a" for a
    using assms map_of_SomeD [OF that] by (force simp: targets_ok_def)
  with assms Relay_begins show ?thesis
    by (cases "map_of (tp_spawned st) i") (simp_all add: targets_ok_def snd_delete_subset)
next
  case (Relay_ends i res)
  with assms show ?thesis
    by (cases res; cases "map_of (tp_relays st) i") (simp_all add: targets_ok_def snd_delete_subset Let_def)
qed (use assms in \<open>auto simp: targets_ok_def\<close>)

section \<open>Properties\<close>

text \<open>C15: In every reachable state of a session table, under every interleaving of the inbound loop
  with the session tasks, the counter of active sessions is the number of sessions that have begun
  and not finished, and no key has two sessions that still hold their place in the table.  Where
  no session gives up before it begins, every entry of the table is the channel of a session of
  its key.\<close>

theorem session_table_consistent:
  assumes "proxy_reach early st"
  shows "px_active st = of_nat (length (filter started (px_tasks st)))
    \<and> distinct (map tk_key (filter live (px_tasks st)))
    \<and> (\<not> early \<longrightarrow> (\<forall>k i. map_of (px_sessions st) k = Some i \<longrightarrow>
          (\<exists>t \<in> set (px_tasks st). tk_id t = i \<and> tk_key t = k \<and> live t)))"
  using proxy_reach_inv [OF assms] live_keys_distinct [OF proxy_reach_inv [OF assms]]
    table_entry [OF proxy_reach_inv [OF assms]]
  unfolding proxy_inv_def tasks_ok_def by blast

definition example_proxy :: "nat proxy_state" where
  "example_proxy = session_begin 0 (session_for 7 [1, 2] proxy_start)"

lemma example_proxy_reach: "proxy_reach early example_proxy"
proof -
  have "proxy_reach early (session_for 7 [1, 2] (proxy_start :: nat proxy_state))"
    by (rule proxy_reach.step [OF proxy_reach.start], rule proxy_step.takes) (simp add: proxy_start_def)
  moreover have "\<lparr>tk_id = 0, tk_key = 7, tk_phase = Spawned\<rparr>
      \<in> set (px_tasks (session_for 7 [1, 2] (proxy_start :: nat proxy_state)))"
    by (simp add: session_for_def proxy_start_def Let_def)
  ultimately show ?thesis
    unfolding example_proxy_def using proxy_reach.step proxy_step.begins by (metis task.select_convs(1,3))
qed

theorem session_table_consistent_witness:
  "px_active example_proxy = of_nat (length (filter started (px_tasks example_proxy)))
    \<and> px_active example_proxy = 1"
  using session_table_consistent [OF example_proxy_reach [of False]]
  by (simp add: example_proxy_def session_begin_def session_for_def proxy_start_def Let_def)

text \<open>C18: A datagram the filters allow is queued behind what waits for the UDP session of its own
  client and target, and no other session sees it; a datagram they refuse, or a failed read,
  changes nothing.\<close>

theorem datagram_to_own_session:
  assumes "proxy_reach False st"
  shows "case received of
      Inl e \<Rightarrow> handle_inbound_datagram filters received st = st
    | Inr (payload, local, remote) \<Rightarrow>
        if is_allowed filters (sa_ip remote) (sa_ip local)
        then delivered (remote, local) payload st (handle_inbound_datagram filters received st)
        else handle_inbound_datagram filters received st = st"
  using udp_in.inbound_delivers [OF assms, of filters received] udp_in.inbound_ignores [of filters received st]
  by (auto simp: classify_datagram_def split: sum.split)

theorem datagram_to_own_session_witness:
  "let client = \<lparr>sa_ip = V4 (Ipv4Addr 10 0 0 2), sa_port = 4000\<rparr>;
       target = \<lparr>sa_ip = V4 (Ipv4Addr 8 8 8 8), sa_port = 53\<rparr>
   in delivered (client, target) [1, 2] proxy_start
        (handle_inbound_datagram with_non_broadcast (Inr ([1, 2], target, client)) proxy_start)"
  using datagram_to_own_session [OF proxy_reach.start, of with_non_broadcast "Inr ([1, 2], \<lparr>sa_ip = V4 (Ipv4Addr 8 8 8 8), sa_port = 53\<rparr>,
      \<lparr>sa_ip = V4 (Ipv4Addr 10 0 0 2), sa_port = 4000\<rparr>)"]
  by (simp add: is_allowed_def with_non_broadcast_def)

end
