(* ===== verification/Icmp_Proxy.thy ===== *)
theory Icmp_Proxy
  imports Proxy_Sessions
begin

text \<open>
  The ICMP proxy: \<open>transparent_proxy/icmp_proxy.rs\<close>.  Reading and writing IPv4 and ICMP headers is
  done by smoltcp, which is a parameter; the laws the proxy relies on are the locale \<open>icmp_laws\<close>.
\<close>

unbundle bit_operations_syntax

section \<open>Headers as smoltcp reads them\<close>

datatype icmp_message = Echo_reply | Echo_request | Other_message u8

record ipv4_view =
  iv_src :: ipv4addr
  iv_dst :: ipv4addr
  iv_icmp :: bool
  iv_hop_limit :: u8
  iv_payload :: bytes

record ipv4_repr =
  rp_src :: ipv4addr
  rp_dst :: ipv4addr
  rp_hop_limit :: u8

record icmp_wire =
  ipv4_new_checked :: "bytes \<Rightarrow> string + ipv4_view"
  ipv4_emit :: "ipv4_repr \<Rightarrow> bytes \<Rightarrow> bytes"
  icmp_new_checked :: "bytes \<Rightarrow> string + unit"
  icmp_msg_type :: "bytes \<Rightarrow> icmp_message"
  icmp_echo_ident :: "bytes \<Rightarrow> u16"
  icmp_set_echo_ident :: "u16 \<Rightarrow> bytes \<Rightarrow> bytes"
  icmp_fill_checksum :: "bytes \<Rightarrow> bytes"

section \<open>Inbound packets\<close>

definition DEFAULT_IP_TTL :: u8 where
  "DEFAULT_IP_TTL = 64"

record icmp_session_key =
  ik_client :: ipv4addr
  ik_target :: ipv4addr
  ik_kind :: u8
  ik_code :: u8
  ik_identifier :: "u16 option"

record inbound_icmp_packet =
  ip_key :: icmp_session_key
  ip_client :: ipv4addr
  ip_target :: ipv4addr
  ip_kind :: u8
  ip_code :: u8
  ip_icmp_payload :: bytes

definition u16_from_be_bytes :: "u8 \<Rightarrow> u8 \<Rightarrow> u16" where
  "u16_from_be_bytes hi lo = push_bit 8 (ucast hi) OR ucast lo"

definition extract_icmp_identifier :: "bytes \<Rightarrow> u16 option" where
  "extract_icmp_identifier payload =
     (if length payload < 8 then None
      else if payload ! 0 \<in> {0, 8} then Some (u16_from_be_bytes (payload ! 4) (payload ! 5))
      else None)"

definition parse_inbound_icmp_packet :: "icmp_wire \<Rightarrow> bytes \<Rightarrow> string + inbound_icmp_packet" where
  "parse_inbound_icmp_packet w packet =
     (case ipv4_new_checked w packet of
        Inl e \<Rightarrow> Inl e
      | Inr ipv4 \<Rightarrow>
          if \<not> iv_icmp ipv4 then Inl ''raw packet is not icmp''
          else (let payload = iv_payload ipv4 in
            if length payload < 4 then Inl ''icmp payload too short''
            else (let client = iv_src ipv4; target = iv_dst ipv4;
                      kind = payload ! 0; code = payload ! 1
                  in Inr \<lparr>ip_key = \<lparr>ik_client = client, ik_target = target, ik_kind = kind, ik_code = code,
                                     ik_identifier = extract_icmp_identifier payload\<rparr>,
                          ip_client = client, ip_target = target, ip_kind = kind, ip_code = code,
                          ip_icmp_payload = payload\<rparr>)))"

text \<open>One round of \<open>handle_inbound_icmp\<close>, its two halves taken together as in the UDP loop.\<close>

definition handle_inbound_icmp ::
  "icmp_wire \<Rightarrow> ip_filters \<Rightarrow> string + bytes \<Rightarrow> icmp_session_key proxy_state \<Rightarrow> icmp_session_key proxy_state" where
  "handle_inbound_icmp w filters received st =
     (case received of
        Inl _ \<Rightarrow> st
      | Inr packet \<Rightarrow>
          (case parse_inbound_icmp_packet w packet of
             Inl _ \<Rightarrow> st
           | Inr inbound \<Rightarrow>
               if \<not> is_allowed filters (V4 (ip_client inbound)) (V4 (ip_target inbound)) then st
               else dispatch (ip_key inbound) packet st))"

section \<open>Rewriting the identifier\<close>

text \<open>
  The payload is rewritten in place: the result is the payload afterwards.  The original
  identifier of a request only appears in the log.
\<close>

text \<open>The counter of the proxy's own identifiers; an atomic addition wraps around.\<close>

definition NEXT_ICMP_PROXY_IDENT :: u16 where
  "NEXT_ICMP_PROXY_IDENT = 0x4000"

definition next_icmp_proxy_ident :: "u16 \<Rightarrow> u16 \<times> u16" where
  "next_icmp_proxy_ident counter = (counter, counter + 1)"

definition rewrite_icmp_echo_request :: "icmp_wire \<Rightarrow> bytes \<Rightarrow> u16 option \<Rightarrow> u16 \<Rightarrow> string + bytes" where
  "rewrite_icmp_echo_request w payload original_ident proxy_ident =
     (case icmp_new_checked w payload of
        Inl e \<Rightarrow> Inl e
      | Inr _ \<Rightarrow>
          if icmp_msg_type w payload \<noteq> Echo_request then Inr payload
          else Inr (icmp_fill_checksum w (icmp_set_echo_ident w proxy_ident payload)))"

definition rewrite_icmp_echo_reply :: "icmp_wire \<Rightarrow> bytes \<Rightarrow> u16 option \<Rightarrow> u16 \<Rightarrow> string + bytes" where
  "rewrite_icmp_echo_reply w payload original_ident proxy_ident =
     (case icmp_new_checked w payload of
        Inl e \<Rightarrow> Inl e
      | Inr _ \<Rightarrow>
          if icmp_msg_type w payload \<noteq> Echo_reply then Inr payload
          else if icmp_echo_ident w payload \<noteq> proxy_ident
          then Inl ''icmp echo reply proxy ident mismatch''
          else (let original_ident = (case original_ident of Some i \<Rightarrow> i | None \<Rightarrow> proxy_ident)
                in Inr (icmp_fill_checksum w (icmp_set_echo_ident w original_ident payload))))"

text \<open>A request goes out without its IP header; \<open>outbound\<close> is the sending of the socket.\<close>

definition forward_icmp_request ::
  "icmp_wire \<Rightarrow> (bytes \<Rightarrow> string + nat) \<Rightarrow> bytes \<Rightarrow> u16 option \<Rightarrow> u16 \<Rightarrow> string + bytes" where
  "forward_icmp_request w outbound packet original_ident proxy_ident =
     (case ipv4_new_checked w packet of
        Inl e \<Rightarrow> Inl e
      | Inr ipv4 \<Rightarrow>
          if \<not> iv_icmp ipv4 then Inl ''outbound packet is not icmp''
          else (case rewrite_icmp_echo_request w (iv_payload ipv4) original_ident proxy_ident of
             Inl e \<Rightarrow> Inl e
           | Inr payload \<Rightarrow>
               (case outbound payload of
                  Inl e \<Rightarrow> Inl e
                | Inr sent \<Rightarrow>
                    if sent \<noteq> length payload then Inl ''failed to send full icmp payload''
                    else Inr payload)))"

definition build_icmp_reply_packet ::
  "icmp_wire \<Rightarrow> ipv4addr \<Rightarrow> ipv4addr \<Rightarrow> bytes \<Rightarrow> u16 option \<Rightarrow> u16 \<Rightarrow> string + bytes" where
  "build_icmp_reply_packet w client target reply original_ident proxy_ident =
     (let (hop_limit, payload) =
        (case ipv4_new_checked w reply of
           Inr ipv4 \<Rightarrow> if iv_icmp ipv4 then (iv_hop_limit ipv4, iv_payload ipv4) else (DEFAULT_IP_TTL, reply)
         | Inl _ \<Rightarrow> (DEFAULT_IP_TTL, reply))
      in case rewrite_icmp_echo_reply w payload original_ident proxy_ident of
           Inl e \<Rightarrow> Inl e
         | Inr payload \<Rightarrow>
             Inr (ipv4_emit w \<lparr>rp_src = target, rp_dst = client, rp_hop_limit = hop_limit\<rparr> payload))"

section \<open>A session\<close>

datatype icmp_session_event =
  Request bytes "bytes \<Rightarrow> string + nat"
| Requests_closed
| Reply bytes "string + unit"
| Replies_closed
| Icmp_idle

text \<open>The loop of a session: what went out, what came back, and how it ended.\<close>

fun icmp_session_loop ::
  "icmp_wire \<Rightarrow> icmp_session_key \<Rightarrow> u16 \<Rightarrow> icmp_session_event list \<Rightarrow> bytes list \<Rightarrow> bytes list
     \<Rightarrow> (string + unit) option \<times> bytes list \<times> bytes list" where
  "icmp_session_loop w key proxy_ident [] up down = (None, up, down)"
| "icmp_session_loop w key proxy_ident (Request packet outbound # es) up down =
     (case forward_icmp_request w outbound packet (ik_identifier key) proxy_ident of
        Inl e \<Rightarrow> (Some (Inl e), up, down)
      | Inr payload \<Rightarrow> icmp_session_loop w key proxy_ident es (up @ [payload]) down)"
| "icmp_session_loop w key proxy_ident (Requests_closed # es) up down = (Some (Inr ()), up, down)"
| "icmp_session_loop w key proxy_ident (Reply reply tun_send # es) up down =
     (case build_icmp_reply_packet w (ik_client key) (ik_target key) reply (ik_identifier key) proxy_ident of
        Inl e \<Rightarrow> (Some (Inl e), up, down)
      | Inr packet \<Rightarrow>
          (case tun_send of
             Inl e \<Rightarrow> (Some (Inl e), up, down)
           | Inr _ \<Rightarrow> icmp_session_loop w key proxy_ident es up (down @ [packet])))"
| "icmp_session_loop w key proxy_ident (Replies_closed # es) up down = (Some (Inr ()), up, down)"
| "icmp_session_loop w key proxy_ident (Icmp_idle # es) up down = (Some (Inr ()), up, down)"

text \<open>
  A session task: it gives up where the upstream address is not IPv4, otherwise it opens its
  socket and a second handle to it, draws its identifier and loops.
\<close>

datatype icmp_session_result =
  Gave_up ipaddr
| Session_ended "(string + unit) option" "bytes list" "bytes list"

definition handle_icmp_session ::
  "icmp_wire \<Rightarrow> upstream_server \<Rightarrow> (socket_call list \<Rightarrow> string + unit) \<Rightarrow> string \<Rightarrow> icmp_session_key
     \<Rightarrow> icmp_session_event list \<Rightarrow> u16 \<Rightarrow> icmp_session_result \<times> u16" where
  "handle_icmp_session w upstream open_socket interface key events counter =
     (case translate_ipv4 upstream (ik_target key) of
        Inl addr \<Rightarrow> (Gave_up addr, counter)
      | Inr outbound_target \<Rightarrow>
          (case open_socket (new_icmp_socket outbound_target interface) of
             Inl e \<Rightarrow> (Session_ended (Some (Inl e)) [] [], counter)
           | Inr _ \<Rightarrow>
               (let (proxy_ident, counter) = next_icmp_proxy_ident counter;
                    (result, up, down) = icmp_session_loop w key proxy_ident events [] []
                in (Session_ended result up down, counter))))"

section \<open>What the proxy relies on\<close>

text \<open>
  An echo message keeps its kind and its length check when its identifier is set and its checksum
  filled in, and is then read with that identifier; the identifier stands in the fifth and sixth
  byte; an emitted IPv4 packet is read back as what it was made from.
\<close>

locale icmp_laws =
  fixes w :: icmp_wire
  assumes set_checked: "is_ok (icmp_new_checked w p)
      \<Longrightarrow> is_ok (icmp_new_checked w (icmp_fill_checksum w (icmp_set_echo_ident w i p)))"
    and set_type: "is_ok (icmp_new_checked w p)
      \<Longrightarrow> icmp_msg_type w (icmp_fill_checksum w (icmp_set_echo_ident w i p)) = icmp_msg_type w p"
    and set_ident: "is_ok (icmp_new_checked w p)
      \<Longrightarrow> icmp_echo_ident w (icmp_fill_checksum w (icmp_set_echo_ident w i p)) = i"
    and set_length: "is_ok (icmp_new_checked w p)
      \<Longrightarrow> length (icmp_fill_checksum w (icmp_set_echo_ident w i p)) = length p"
    and ident_bytes: "is_ok (icmp_new_checked w p) \<Longrightarrow> icmp_msg_type w p = Echo_request
      \<Longrightarrow> extract_icmp_identifier p = Some (icmp_echo_ident w p)"
    and emit_checked: "length p \<le> 65515 \<Longrightarrow> ipv4_new_checked w (ipv4_emit w r p) =
      Inr \<lparr>iv_src = rp_src r, iv_dst = rp_dst r, iv_icmp = True, iv_hop_limit = rp_hop_limit r, iv_payload = p\<rparr>"
begin

lemma request_rewritten:
  assumes "rewrite_icmp_echo_request w p orig proxy_ident = Inr p'" "icmp_msg_type w p = Echo_request"
  shows "icmp_msg_type w p' = Echo_request \<and> icmp_echo_ident w p' = proxy_ident \<and> length p' = length p"
  using assms set_type [of p] set_ident [of p] set_length [of p proxy_ident]
  by (auto simp: rewrite_icmp_echo_request_def split: sum.splits)

lemma reply_restored:
  assumes "is_ok (icmp_new_checked w r)" "icmp_msg_type w r = Echo_reply" "icmp_echo_ident w r = proxy_ident"
  shows "\<exists>r'. rewrite_icmp_echo_reply w r (Some i) proxy_ident = Inr r'
    \<and> icmp_msg_type w r' = Echo_reply \<and> icmp_echo_ident w r' = i \<and> length r' = length r"
  using assms set_type [of r i] set_ident [of r i] set_length [of r i]
  by (auto simp: rewrite_icmp_echo_reply_def split: sum.splits)

lemma request_forwarded:
  assumes "parse_inbound_icmp_packet w packet = Inr inbound"
    and "icmp_msg_type w (ip_icmp_payload inbound) = Echo_request"
    and "forward_icmp_request w outbound packet orig proxy_ident = Inr out"
  shows "icmp_echo_ident w out = proxy_ident"
    and "ik_identifier (ip_key inbound) = Some (icmp_echo_ident w (ip_icmp_payload inbound))"
proof -
  obtain v where v: "ipv4_new_checked w packet = Inr v" "ip_icmp_payload inbound = iv_payload v"
    "ik_identifier (ip_key inbound) = extract_icmp_identifier (iv_payload v)"
    using assms(1) by (auto simp: parse_inbound_icmp_packet_def Let_def split: sum.splits if_splits)
  have out: "rewrite_icmp_echo_request w (iv_payload v) orig proxy_ident = Inr out"
    using assms(3) v(1) by (auto simp: forward_icmp_request_def split: sum.splits if_splits)
  then have "is_ok (icmp_new_checked w (iv_payload v))"
    by (auto simp: rewrite_icmp_echo_request_def split: sum.splits)
  with v assms(2) ident_bytes show "ik_identifier (ip_key inbound) = Some (icmp_echo_ident w (ip_icmp_payload inbound))"
    by simp
  show "icmp_echo_ident w out = proxy_ident" using request_rewritten [OF out] v assms(2) by simp
qed

lemma answer_returned:
  assumes "ipv4_new_checked w reply = Inr v" "iv_icmp v" "is_ok (icmp_new_checked w (iv_payload v))"
    and "icmp_msg_type w (iv_payload v) = Echo_reply" "icmp_echo_ident w (iv_payload v) = proxy_ident"
    and "length (iv_payload v) \<le> 65515"
  shows "\<exists>back p. build_icmp_reply_packet w client target reply (Some i) proxy_ident = Inr back
    \<and> ipv4_new_checked w back = Inr \<lparr>iv_src = target, iv_dst = client, iv_icmp = True,
          iv_hop_limit = iv_hop_limit v, iv_payload = p\<rparr>
    \<and> icmp_msg_type w p = Echo_reply \<and> icmp_echo_ident w p = i \<and> length p = length (iv_payload v)"
proof -
  obtain p where "rewrite_icmp_echo_reply w (iv_payload v) (Some i) proxy_ident = Inr p"
    "icmp_msg_type w p = Echo_reply" "icmp_echo_ident w p = i" "length p = length (iv_payload v)"
    using reply_restored [OF assms(3-5), of i] by blast
  with assms(1,2,6) show ?thesis by (simp add: build_icmp_reply_packet_def emit_checked)
qed

end

section \<open>Headers as the RFCs lay them out\<close>

text \<open>An instance of the parameter: RFC 791 and RFC 792, with the checksum of RFC 1071.\<close>

fun ones_sum :: "bytes \<Rightarrow> nat" where
  "ones_sum (hi # lo # bs) = unat hi * 256 + unat lo + ones_sum bs"
| "ones_sum [hi] = unat hi * 256"
| "ones_sum [] = 0"

definition rfc_checksum :: "bytes \<Rightarrow> u16" where
  "rfc_checksum bs = of_nat (65535 - (if ones_sum bs = 0 then 0 else (ones_sum bs - 1) mod 65535 + 1))"

definition put_u16 :: "nat \<Rightarrow> u16 \<Rightarrow> bytes \<Rightarrow> bytes" where
  "put_u16 n x bs = bs[n := ucast (drop_bit 8 x), Suc n := ucast x]"

definition rfc_fill :: "nat \<Rightarrow> bytes \<Rightarrow> bytes" where
  "rfc_fill n bs = put_u16 n (rfc_checksum (put_u16 n 0 bs)) bs"

fun rfc_message :: "bytes \<Rightarrow> icmp_message" where
  "rfc_message (b # _) = (if b = 0 then Echo_reply else if b = 8 then Echo_request else Other_message b)"
| "rfc_message [] = Other_message 255"

definition rfc_ipv4 :: "bytes \<Rightarrow> string + ipv4_view" where
  "rfc_ipv4 p =
     (if length p < 20 \<or> drop_bit 4 (p ! 0) \<noteq> 4 then Inl ''malformed''
      else Inr \<lparr>iv_src = Ipv4Addr (p ! 12) (p ! 13) (p ! 14) (p ! 15),
                iv_dst = Ipv4Addr (p ! 16) (p ! 17) (p ! 18) (p ! 19),
                iv_icmp = (p ! 9 = 1), iv_hop_limit = p ! 8,
                iv_payload = drop (4 * unat (p ! 0 AND 15))
                  (take (unat (u16_from_be_bytes (p ! 2) (p ! 3))) p)\<rparr>)"

definition rfc_emit :: "ipv4_repr \<Rightarrow> bytes \<Rightarrow> bytes" where
  "rfc_emit r p =
     rfc_fill 10 ([0x45, 0] @ put_u16 0 (of_nat (20 + length p)) [0, 0]
       @ [0, 0, 0x40, 0, rp_hop_limit r, 1, 0, 0] @ octets (rp_src r) @ octets (rp_dst r)) @ p"

definition rfc_wire :: icmp_wire where
  "rfc_wire = \<lparr>ipv4_new_checked = rfc_ipv4, ipv4_emit = rfc_emit,
     icmp_new_checked = (\<lambda>p. if length p < 8 then Inl ''truncated'' else Inr ()),
     icmp_msg_type = rfc_message, icmp_echo_ident = (\<lambda>p. u16_from_be_bytes (p ! 4) (p ! 5)),
     icmp_set_echo_ident = put_u16 4, icmp_fill_checksum = rfc_fill 2\<rparr>"

lemma u16_be_bytes [simp]: "u16_from_be_bytes (ucast (drop_bit 8 x)) (ucast x) = x"
  unfolding u16_from_be_bytes_def
  by (rule bit_word_eqI) (auto simp: bit_simps)

lemma length_put_u16 [simp]: "length (put_u16 n x bs) = length bs"
  by (simp add: put_u16_def)

lemma length_rfc_fill [simp]: "length (rfc_fill n bs) = length bs"
  by (simp add: rfc_fill_def)

lemma nth_put_u16:
  "Suc n < length bs \<Longrightarrow> put_u16 n x bs ! k =
     (if k = n then ucast (drop_bit 8 x) else if k = Suc n then ucast x else bs ! k)"
  by (simp add: put_u16_def nth_list_update)

lemma nth_rfc_fill: "k \<noteq> n \<Longrightarrow> k \<noteq> Suc n \<Longrightarrow> rfc_fill n bs ! k = bs ! k"
  by (simp add: rfc_fill_def put_u16_def)

lemma rfc_message_nth: "rfc_message p = (if p = [] then Other_message 255 else
    if p ! 0 = 0 then Echo_reply else if p ! 0 = 8 then Echo_request else Other_message (p ! 0))"
  by (cases p) auto

lemma rfc_message_set [simp]: "rfc_message (rfc_fill 2 (put_u16 4 i p)) = rfc_message p"
  by (cases p) (auto simp: rfc_fill_def put_u16_def)

lemma rfc_emit_header:
  obtains c d where "rfc_emit r p = [0x45, 0, ucast (drop_bit 8 (of_nat (20 + length p) :: u16)),
     ucast (of_nat (20 + length p) :: u16), 0, 0, 0x40, 0, rp_hop_limit r, 1, c, d]
     @ octets (rp_src r) @ octets (rp_dst r) @ p"
  by (cases "rp_src r"; cases "rp_dst r")
    (simp add: rfc_emit_def rfc_fill_def put_u16_def)

lemma rfc_emit_checked:
  assumes "length p \<le> 65515"
  shows "rfc_ipv4 (rfc_emit r p) =
    Inr \<lparr>iv_src = rp_src r, iv_dst = rp_dst r, iv_icmp = True, iv_hop_limit = rp_hop_limit r, iv_payload = p\<rparr>"
proof -
  define n where "n = (of_nat (20 + length p) :: u16)"
  have len: "unat n = 20 + length p"
    unfolding n_def unsigned_of_nat of_nat_id using assms by (intro take_bit_nat_eq_self) simp
  obtain c d where e: "rfc_emit r p = [0x45, 0, ucast (drop_bit 8 n), ucast n, 0, 0, 0x40, 0, rp_hop_limit r, 1, c, d]
     @ octets (rp_src r) @ octets (rp_dst r) @ p"
    unfolding n_def by (rule rfc_emit_header)
  have "unat (0x45 AND 15 :: u8) = 5" "drop_bit 4 (0x45 :: u8) = 4" by (simp_all)
  with len e show ?thesis
    by (cases "rp_src r"; cases "rp_dst r") (simp add: rfc_ipv4_def)
qed

interpretation rfc: icmp_laws rfc_wire
proof
  show "extract_icmp_identifier p = Some (icmp_echo_ident rfc_wire p)"
    if "is_ok (icmp_new_checked rfc_wire p)" "icmp_msg_type rfc_wire p = Echo_request" for p
    using that by (auto simp: rfc_wire_def extract_icmp_identifier_def rfc_message_nth split: if_splits)
qed (auto simp: rfc_wire_def nth_rfc_fill nth_put_u16 rfc_emit_checked split: if_splits)

section \<open>The inbound loop and the identifiers\<close>

definition classify_icmp ::
  "icmp_wire \<Rightarrow> ip_filters \<Rightarrow> string + bytes \<Rightarrow> (icmp_session_key \<times> bytes) option" where
  "classify_icmp w filters received =
     (case received of
        Inl _ \<Rightarrow> None
      | Inr packet \<Rightarrow>
          (case parse_inbound_icmp_packet w packet of
             Inl _ \<Rightarrow> None
           | Inr inbound \<Rightarrow>
               if is_allowed filters (V4 (ip_client inbound)) (V4 (ip_target inbound))
               then Some (ip_key inbound, packet) else None))"

interpretation icmp_in: inbound_loop "handle_inbound_icmp w filters" "classify_icmp w filters"
  for w filters
  by unfold_locales (auto simp: handle_inbound_icmp_def classify_icmp_def split: sum.split)

fun draw_idents :: "nat \<Rightarrow> u16 \<Rightarrow> u16 list" where
  "draw_idents 0 counter = []"
| "draw_idents (Suc n) counter =
     (case next_icmp_proxy_ident counter of (ident, counter) \<Rightarrow> ident # draw_idents n counter)"

lemma draw_idents_eq: "draw_idents n counter = map (\<lambda>i. counter + of_nat i) [0..<n]"
proof (induction n arbitrary: counter)
  case (Suc n)
  then show ?case
    by (simp add: next_icmp_proxy_ident_def upt_conv_Cons map_Suc_upt [symmetric] add.assoc del: upt_Suc)
qed simp

lemma u16_add_inj: "a + of_nat i = a + (of_nat j :: u16) \<longleftrightarrow> i mod 65536 = j mod 65536"
  unfolding add_left_cancel by (simp add: word_unat_eq_iff unsigned_of_nat take_bit_eq_mod)

section \<open>Properties\<close>

text \<open>C16: An echo request that a client sends through the ICMP proxy leaves it with the proxy's own
  identifier, and when the target (or the upstream server standing in for it) answers with that
  identifier, the client gets an ICMP echo reply from the address it pinged, addressed to it, with
  the identifier of its request and the hop limit and length of the answer.\<close>

theorem echo_answer_returns:
  assumes "icmp_laws w"
    and "parse_inbound_icmp_packet w packet = Inr inbound"
    and "icmp_msg_type w (ip_icmp_payload inbound) = Echo_request"
    and "forward_icmp_request w outbound packet (ik_identifier (ip_key inbound)) proxy_ident = Inr out"
    and "ipv4_new_checked w reply = Inr v" "iv_icmp v" "is_ok (icmp_new_checked w (iv_payload v))"
    and "icmp_msg_type w (iv_payload v) = Echo_reply"
    and "icmp_echo_ident w (iv_payload v) = icmp_echo_ident w out"
    and "length (iv_payload v) \<le> 65515"
  shows "\<exists>back p. build_icmp_reply_packet w (ik_client (ip_key inbound)) (ik_target (ip_key inbound)) reply
            (ik_identifier (ip_key inbound)) proxy_ident = Inr back
    \<and> icmp_echo_ident w out = proxy_ident
    \<and> ipv4_new_checked w back = Inr \<lparr>iv_src = ip_target inbound, iv_dst = ip_client inbound,
          iv_icmp = True, iv_hop_limit = iv_hop_limit v, iv_payload = p\<rparr>
    \<and> icmp_msg_type w p = Echo_reply
    \<and> icmp_echo_ident w p = icmp_echo_ident w (ip_icmp_payload inbound)
    \<and> length p = length (iv_payload v)"
proof -
  have addrs: "ik_client (ip_key inbound) = ip_client inbound" "ik_target (ip_key inbound) = ip_target inbound"
    using assms(2) by (auto simp: parse_inbound_icmp_packet_def Let_def split: sum.splits if_splits)
  note out = icmp_laws.request_forwarded [OF assms(1-4)]
  show ?thesis
    using icmp_laws.answer_returned [OF assms(1,5-8) _ assms(10)] assms(9) unfolding addrs out by simp
qed

definition example_ping :: bytes where
  "example_ping = rfc_emit \<lparr>rp_src = Ipv4Addr 10 0 0 2, rp_dst = Ipv4Addr 1 1 1 1, rp_hop_limit = 64\<rparr>
     (rfc_fill 2 [8, 0, 0, 0, 0x12, 0x34, 0, 1])"

definition example_pong :: bytes where
  "example_pong = rfc_emit \<lparr>rp_src = Ipv4Addr 1 1 1 1, rp_dst = Ipv4Addr 192 168 1 5, rp_hop_limit = 57\<rparr>
     (rfc_fill 2 [0, 0, 0, 0, 0x40, 0, 0, 1])"

definition example_icmp :: inbound_icmp_packet where
  "example_icmp =
     \<lparr>ip_key = \<lparr>ik_client = Ipv4Addr 10 0 0 2, ik_target = Ipv4Addr 1 1 1 1, ik_kind = 8, ik_code = 0,
        ik_identifier = Some 0x1234\<rparr>,
      ip_client = Ipv4Addr 10 0 0 2, ip_target = Ipv4Addr 1 1 1 1, ip_kind = 8, ip_code = 0,
      ip_icmp_payload = rfc_fill 2 [8, 0, 0, 0, 0x12, 0x34, 0, 1]\<rparr>"

lemma example_ping_checked: "ipv4_new_checked rfc_wire example_ping =
    Inr \<lparr>iv_src = Ipv4Addr 10 0 0 2, iv_dst = Ipv4Addr 1 1 1 1, iv_icmp = True, iv_hop_limit = 64,
         iv_payload = ip_icmp_payload example_icmp\<rparr>"
  by (simp add: example_ping_def example_icmp_def rfc_wire_def rfc_emit_checked)

lemma example_ping_parsed: "parse_inbound_icmp_packet rfc_wire example_ping = Inr example_icmp"
  unfolding parse_inbound_icmp_packet_def example_ping_checked
  by (simp add: Let_def example_icmp_def extract_icmp_identifier_def nth_rfc_fill u16_from_be_bytes_def)

lemma example_ping_request:
  "icmp_msg_type rfc_wire (ip_icmp_payload example_icmp) = Echo_request"
  "is_ok (icmp_new_checked rfc_wire (ip_icmp_payload example_icmp))"
  "icmp_echo_ident rfc_wire (ip_icmp_payload example_icmp) = 0x1234"
  by (simp_all add: example_icmp_def rfc_wire_def rfc_message_nth nth_rfc_fill u16_from_be_bytes_def flip: length_0_conv)

definition example_out :: bytes where
  "example_out = rfc_fill 2 (put_u16 4 0x4000 (ip_icmp_payload example_icmp))"

lemma example_ping_forwarded:
  "forward_icmp_request rfc_wire (\<lambda>b. Inr (length b)) example_ping (Some 0x1234) 0x4000 = Inr example_out"
proof -
  have "rewrite_icmp_echo_request rfc_wire (ip_icmp_payload example_icmp) (Some 0x1234) 0x4000 = Inr example_out"
    using example_ping_request(1,2)
    by (auto simp: rewrite_icmp_echo_request_def example_out_def rfc_wire_def split: if_splits)
  then show ?thesis by (simp add: forward_icmp_request_def example_ping_checked)
qed

lemma example_pong_checked: "ipv4_new_checked rfc_wire example_pong =
    Inr \<lparr>iv_src = Ipv4Addr 1 1 1 1, iv_dst = Ipv4Addr 192 168 1 5, iv_icmp = True, iv_hop_limit = 57,
         iv_payload = rfc_fill 2 [0, 0, 0, 0, 0x40, 0, 0, 1]\<rparr>"
  by (simp add: example_pong_def rfc_wire_def rfc_emit_checked)

lemma example_pong_reply:
  "icmp_msg_type rfc_wire (rfc_fill 2 [0, 0, 0, 0, 0x40, 0, 0, 1]) = Echo_reply"
  "is_ok (icmp_new_checked rfc_wire (rfc_fill 2 [0, 0, 0, 0, 0x40, 0, 0, 1]))"
  "icmp_echo_ident rfc_wire (rfc_fill 2 [0, 0, 0, 0, 0x40, 0, 0, 1]) = icmp_echo_ident rfc_wire example_out"
  by (simp_all add: example_out_def example_icmp_def rfc_wire_def rfc_message_nth nth_rfc_fill nth_put_u16
      u16_from_be_bytes_def flip: length_0_conv)

theorem echo_answer_returns_witness:
  "\<exists>back p. build_icmp_reply_packet rfc_wire (Ipv4Addr 10 0 0 2) (Ipv4Addr 1 1 1 1) example_pong (Some 0x1234) 0x4000
        = Inr back
     \<and> ipv4_new_checked rfc_wire back = Inr \<lparr>iv_src = Ipv4Addr 1 1 1 1, iv_dst = Ipv4Addr 10 0 0 2,
          iv_icmp = True, iv_hop_limit = 57, iv_payload = p\<rparr>
     \<and> icmp_echo_ident rfc_wire p = 0x1234"
proof -
  have key: "ip_key example_icmp = \<lparr>ik_client = Ipv4Addr 10 0 0 2, ik_target = Ipv4Addr 1 1 1 1, ik_kind = 8,
      ik_code = 0, ik_identifier = Some 0x1234\<rparr>"
    "ip_client example_icmp = Ipv4Addr 10 0 0 2" "ip_target example_icmp = Ipv4Addr 1 1 1 1"
    by (simp_all add: example_icmp_def)
  show ?thesis
    using echo_answer_returns [OF rfc.icmp_laws_axioms example_ping_parsed example_ping_request(1),
        of "\<lambda>b. Inr (length b)" "0x4000" example_out example_pong] example_ping_forwarded
      example_pong_checked example_pong_reply
    by (simp add: key example_ping_request(3)) blast
qed

text \<open>C38: An echo reply that carries another identifier than the session's ends the session with an
  error, and nothing the session would have relayed afterwards arrives.  A raw socket sees every
  ICMP packet its peer sends, so this includes the answers to other sessions with that peer.\<close>

theorem foreign_reply_ends_session:
  assumes "ipv4_new_checked w reply = Inr v" "iv_icmp v" "is_ok (icmp_new_checked w (iv_payload v))"
    and "icmp_msg_type w (iv_payload v) = Echo_reply" "icmp_echo_ident w (iv_payload v) \<noteq> proxy_ident"
  shows "icmp_session_loop w key proxy_ident (Reply reply sent # events) up down
    = (Some (Inl ''icmp echo reply proxy ident mismatch''), up, down)"
  using assms by (auto simp: build_icmp_reply_packet_def rewrite_icmp_echo_reply_def split: sum.splits)

theorem foreign_reply_ends_session_witness:
  "icmp_session_loop rfc_wire (ip_key example_icmp) 0x4001 [Reply example_pong (Inr ()), Request example_ping (\<lambda>b. Inr (length b))] [] []
    = (Some (Inl ''icmp echo reply proxy ident mismatch''), [], [])"
proof -
  have "icmp_echo_ident rfc_wire (rfc_fill 2 [0, 0, 0, 0, 0x40, 0, 0, 1]) \<noteq> 0x4001"
    by (simp add: rfc_wire_def nth_rfc_fill u16_from_be_bytes_def)
  then show ?thesis
    by (intro foreign_reply_ends_session [OF example_pong_checked]) (simp_all add: example_pong_reply)
qed

text \<open>The identifiers the ICMP proxy draws, starting from any value of its 16-bit counter, are
  different from each other for exactly as long as no more than 65536 have been drawn.\<close>

lemma proxy_idents_distinct:
  "distinct (draw_idents n counter) \<longleftrightarrow> n \<le> 65536"
proof
  assume "distinct (draw_idents n counter)"
  then have "card ((\<lambda>i. counter + of_nat i) ` {0..<n}) = n"
    by (simp add: draw_idents_eq distinct_map card_image)
  moreover have "card ((\<lambda>i. counter + of_nat i) ` {0..<n}) \<le> card (UNIV :: u16 set)"
    by (rule card_mono) simp_all
  ultimately show "n \<le> 65536" by (simp add: card_word)
next
  assume "n \<le> 65536"
  then show "distinct (draw_idents n counter)"
    by (auto simp: draw_idents_eq distinct_map inj_on_def u16_add_inj simp del: add_left_cancel)
qed

end
