(* ===== verification/Transparent_Proxy.thy ===== *)
theory Transparent_Proxy
  imports Icmp_Proxy Config
begin

text \<open>
  The transparent proxy as a whole (\<open>transparent_proxy/mod.rs\<close>) and its stand-alone program
  (\<open>bin/transparent-proxy.rs\<close>).  The user-space network stack, the TUN device and the processes the
  program starts are parameters.
\<close>

section \<open>Between the channels and the network stack (mod.rs)\<close>

text \<open>
  The two closures of \<open>create_net_with_channels\<close>: packets are moved from one channel to another
  until the first is closed and empty or the second has lost its receiver.  \<open>Waiting\<close> is a
  closure blocked on an empty channel.
\<close>

datatype pump_state = Waiting | Ended

function pump :: "('a \<Rightarrow> 'b) \<Rightarrow> 'a chan \<Rightarrow> 'b chan \<Rightarrow> pump_state \<times> 'a chan \<times> 'b chan" where
  "pump f rx tx =
     (case chan_recv rx of
        (None, rx) \<Rightarrow> (Waiting, rx, tx)
      | (Some None, rx) \<Rightarrow> (Ended, rx, tx)
      | (Some (Some pkt), rx) \<Rightarrow>
          (case chan_send (f pkt) tx of
             (Inl _, tx) \<Rightarrow> (Ended, rx, tx)
           | (Inr _, tx) \<Rightarrow> pump f rx tx))"
  by pat_completeness auto
termination
  by (relation "measure (\<lambda>(f, rx, tx). length (ch_queue rx))")
    (auto simp: chan_recv_def split: list.splits if_splits)

declare pump.simps [simp del]

definition inbound_pump :: "bytes chan \<Rightarrow> (string + bytes) chan \<Rightarrow> pump_state \<times> bytes chan \<times> (string + bytes) chan" where
  "inbound_pump = pump Inr"

definition outbound_pump :: "bytes chan \<Rightarrow> bytes chan \<Rightarrow> pump_state \<times> bytes chan \<times> bytes chan" where
  "outbound_pump = pump (\<lambda>pkt. pkt)"

definition count_ones :: "'a::len word \<Rightarrow> nat" where
  "count_ones x = length (filter (bit x) [0..<LENGTH('a)])"

fun netmask_ones :: "ipaddr \<Rightarrow> u8" where
  "netmask_ones (V4 m) = of_nat (count_ones (ipv4_to_u32 m))"
| "netmask_ones (V6 m) = of_nat (sum_list (map count_ones (segments m)))"

record net_config =
  nc_address :: ipaddr
  nc_prefix_len :: u8
  nc_gateways :: "ipaddr list"
  nc_mtu :: nat
  nc_tcp_buffer :: nat
  nc_udp_buffer :: nat
  nc_raw_buffer :: nat
  nc_meta :: nat

definition net_with_channels :: "ipaddr \<Rightarrow> ipaddr \<Rightarrow> ipaddr \<Rightarrow> net_config" where
  "net_with_channels smoltcp_addr smoltcp_netmask smoltcp_gateway =
     \<lparr>nc_address = smoltcp_addr, nc_prefix_len = netmask_ones smoltcp_netmask,
      nc_gateways = [smoltcp_gateway], nc_mtu = 1500, nc_tcp_buffer = 4 * 1024 * 1024,
      nc_udp_buffer = 128 * 1024, nc_raw_buffer = 128 * 1024, nc_meta = 128\<rparr>"

section \<open>Running the three proxies (mod.rs)\<close>

record transparent_proxy =
  pr_tcp :: tcp_proxy
  pr_udp :: "(sockaddr \<times> sockaddr) proxy_state"
  pr_icmp :: "icmp_session_key proxy_state"

definition transparent_proxy_start :: transparent_proxy where
  "transparent_proxy_start = \<lparr>pr_tcp = tcp_proxy_start, pr_udp = proxy_start, pr_icmp = proxy_start\<rparr>"

text \<open>A step of a session task, by its number; \<open>early\<close> as in \<open>proxy_step\<close>.\<close>

datatype task_event = Task_begins nat | Task_gives_up nat | Task_removes nat | Task_finishes nat | Task_receives nat

definition with_task ::
  "nat \<Rightarrow> ('k task \<Rightarrow> bool) \<Rightarrow> ('k task \<Rightarrow> 'k proxy_state \<Rightarrow> 'k proxy_state) \<Rightarrow> 'k proxy_state \<Rightarrow> 'k proxy_state" where
  "with_task i ready act st =
     (case find (\<lambda>t. tk_id t = i) (px_tasks st) of
        Some t \<Rightarrow> if ready t then act t st else st
      | None \<Rightarrow> st)"

fun task_step :: "bool \<Rightarrow> task_event \<Rightarrow> 'k proxy_state \<Rightarrow> 'k proxy_state" where
  "task_step early (Task_begins i) st = with_task i (\<lambda>t. tk_phase t = Spawned) (\<lambda>t. session_begin (tk_id t)) st"
| "task_step early (Task_gives_up i) st = with_task i (\<lambda>t. tk_phase t = Spawned \<and> early) (\<lambda>t. drop_task (tk_id t)) st"
| "task_step early (Task_removes i) st = with_task i (\<lambda>t. tk_phase t = Running) (\<lambda>t. session_remove (tk_id t) (tk_key t)) st"
| "task_step early (Task_finishes i) st = with_task i (\<lambda>t. tk_phase t = Removed) (\<lambda>t. session_finish (tk_id t)) st"
| "task_step early (Task_receives i) st = st\<lparr>px_chans := (px_chans st)(i := snd (chan_recv (px_chans st i)))\<rparr>"

text \<open>An ICMP session gives up exactly when the upstream server is an IPv6 address.\<close>

definition icmp_gives_up :: "upstream_server \<Rightarrow> bool" where
  "icmp_gives_up us = (case translate_ipv4 us (Ipv4Addr 0 0 0 0) of Inl _ \<Rightarrow> True | Inr _ \<Rightarrow> False)"

datatype proxy_event =
  Tcp_event tcp_proxy_event
| Udp_received "string + bytes \<times> sockaddr \<times> sockaddr"
| Udp_task task_event
| Icmp_received "string + bytes"
| Icmp_task task_event

fun transparent_proxy_step ::
  "icmp_wire \<Rightarrow> ip_filters \<Rightarrow> upstream_server \<Rightarrow> proxy_event \<Rightarrow> transparent_proxy \<Rightarrow> transparent_proxy" where
  "transparent_proxy_step w filters us (Tcp_event ev) st =
     st\<lparr>pr_tcp := handle_inbound_stream filters us ev (pr_tcp st)\<rparr>"
| "transparent_proxy_step w filters us (Udp_received r) st =
     st\<lparr>pr_udp := handle_inbound_datagram filters r (pr_udp st)\<rparr>"
| "transparent_proxy_step w filters us (Udp_task ev) st = st\<lparr>pr_udp := task_step False ev (pr_udp st)\<rparr>"
| "transparent_proxy_step w filters us (Icmp_received r) st =
     st\<lparr>pr_icmp := handle_inbound_icmp w filters r (pr_icmp st)\<rparr>"
| "transparent_proxy_step w filters us (Icmp_task ev) st =
     st\<lparr>pr_icmp := task_step (icmp_gives_up us) ev (pr_icmp st)\<rparr>"

text \<open>The select ends when the TCP listener fails; the other two loops never end.\<close>

fun proxy_select ::
  "icmp_wire \<Rightarrow> ip_filters \<Rightarrow> upstream_server \<Rightarrow> proxy_event list \<Rightarrow> transparent_proxy \<Rightarrow> bool \<times> transparent_proxy" where
  "proxy_select w filters us evs st =
     (if tp_stopped (pr_tcp st) \<noteq> None then (True, st)
      else case evs of
             [] \<Rightarrow> (False, st)
           | ev # evs \<Rightarrow> proxy_select w filters us evs (transparent_proxy_step w filters us ev st))"

declare proxy_select.simps [simp del]

definition run_transparent_proxy ::
  "icmp_wire \<Rightarrow> string + unit \<Rightarrow> string + unit \<Rightarrow> string + unit \<Rightarrow> ipaddr option \<Rightarrow> proxy_event list
     \<Rightarrow> string + bool \<times> transparent_proxy" where
  "run_transparent_proxy w tcp_bind udp_bind raw_socket upstream_server evs =
     (case tcp_bind of
        Inl e \<Rightarrow> Inl e
      | Inr _ \<Rightarrow>
          (case udp_bind of
             Inl e \<Rightarrow> Inl e
           | Inr _ \<Rightarrow>
               (case raw_socket of
                  Inl e \<Rightarrow> Inl e
                | Inr _ \<Rightarrow> Inr (proxy_select w with_non_broadcast (upstream_new upstream_server) evs transparent_proxy_start))))"

text \<open>Starting the proxy from its configuration: the network it makes, and what its task comes to.\<close>

definition start_transparent_proxy ::
  "icmp_wire \<Rightarrow> string + unit \<Rightarrow> string + unit \<Rightarrow> string + unit \<Rightarrow> transparent_proxy_config \<Rightarrow> proxy_event list
     \<Rightarrow> net_config \<times> (string + bool \<times> transparent_proxy)" where
  "start_transparent_proxy w tcp_bind udp_bind raw_socket config evs =
     (net_with_channels (tp_smoltcp_addr config) (tp_smoltcp_netmask config) (tp_smoltcp_gateway config),
      run_transparent_proxy w tcp_bind udp_bind raw_socket (tp_upstream_server config) evs)"

text \<open>What the reporter logs: the active TCP, UDP and ICMP sessions.\<close>

definition report_proxy_stats :: "transparent_proxy \<Rightarrow> u64 \<times> u64 \<times> u64" where
  "report_proxy_stats st = (tp_active (pr_tcp st), px_active (pr_udp st), px_active (pr_icmp st))"

section \<open>The stand-alone program (bin/transparent-proxy.rs)\<close>

record proxy_cli =
  cl_interface :: string
  cl_name :: string
  cl_tun_addr :: ipv4addr
  cl_tun_gateway :: ipv4addr
  cl_tun_netmask :: ipv4addr
  cl_tun_route :: "ipv4addr \<times> u8"
  cl_mtu :: u16
  cl_upstream_server :: "ipaddr option"

text \<open>The value parser of \<open>--tun-route\<close>; the parser of networks is the library's.\<close>

definition parse_ipv4_cidr :: "(string \<Rightarrow> string + ipv4addr \<times> u8) \<Rightarrow> string \<Rightarrow> string + ipv4addr \<times> u8" where
  "parse_ipv4_cidr parse src = map_err (\<lambda>_. ''failed to parse IPv4 CIDR: '' @ src) (parse src)"

definition leading_ones :: "u32 \<Rightarrow> nat" where
  "leading_ones x = length (takeWhile (bit x) (rev [0..<32]))"

definition prefix_mask :: "u8 \<Rightarrow> u32" where
  "prefix_mask prefix_len = (if prefix_len = 0 then 0 else push_bit (unat (32 - prefix_len)) (- 1))"

definition netmask_to_prefix_len :: "ipv4addr \<Rightarrow> string + u8" where
  "netmask_to_prefix_len netmask =
     (let bits = ipv4_to_u32 netmask;
          prefix_len = of_nat (leading_ones bits);
          expected = prefix_mask prefix_len
      in if bits \<noteq> expected then Inl (''invalid ipv4 netmask: '' @ ipv4_to_string netmask)
         else Inr prefix_len)"

definition prefix_to_netmask :: "u8 \<Rightarrow> string + ipv4addr" where
  "prefix_to_netmask prefix_len =
     (if prefix_len > 32 then Inl (''invalid ipv4 prefix length: '' @ dec_of_nat (unat prefix_len))
      else Inr (ipv4_from_u32 (prefix_mask prefix_len)))"

text \<open>
  What the TUN device is created with and what the network stack is configured with;
  \<open>configure_route\<close> is \<open>configure_wintun_route\<close> on Windows and does nothing elsewhere.
\<close>

record proxy_device =
  pd_name :: string
  pd_address :: ipv4addr
  pd_destination :: ipv4addr
  pd_netmask :: ipv4addr
  pd_mtu :: u16

definition proxy_create_tun_device ::
  "(proxy_device \<Rightarrow> string + 'dev) \<Rightarrow> ('dev \<Rightarrow> proxy_cli \<Rightarrow> string + unit) \<Rightarrow> proxy_cli \<Rightarrow> string + 'dev \<times> net_config" where
  "proxy_create_tun_device create configure_route cli =
     (case create \<lparr>pd_name = cl_name cli, pd_address = cl_tun_addr cli, pd_destination = cl_tun_gateway cli,
                   pd_netmask = cl_tun_netmask cli, pd_mtu = cl_mtu cli\<rparr> of
        Inl e \<Rightarrow> Inl e
      | Inr device \<Rightarrow>
          (case configure_route device cli of
             Inl e \<Rightarrow> Inl e
           | Inr _ \<Rightarrow>
               (case netmask_to_prefix_len (cl_tun_netmask cli) of
                  Inl e \<Rightarrow> Inl e
                | Inr tun_prefix_len \<Rightarrow>
                    Inr (device,
                      \<lparr>nc_address = V4 (cl_tun_gateway cli), nc_prefix_len = tun_prefix_len,
                       nc_gateways = [V4 (cl_tun_addr cli)], nc_mtu = unat (cl_mtu cli),
                       nc_tcp_buffer = 4 * 1024 * 1024, nc_udp_buffer = 128 * 1024,
                       nc_raw_buffer = 128 * 1024, nc_meta = 128\<rparr>))))"

text \<open>The capture threads: reading the device until it fails, writing until a write fails.\<close>

fun tun_reader :: "(string + bytes) list \<Rightarrow> (string + bytes) chan \<Rightarrow> pump_state \<times> (string + bytes) chan" where
  "tun_reader [] tx = (Waiting, tx)"
| "tun_reader (Inr data # rs) tx =
     (case chan_send (Inr data) tx of
        (Inl _, tx) \<Rightarrow> (Ended, tx)
      | (Inr _, tx) \<Rightarrow> tun_reader rs tx)"
| "tun_reader (Inl e # rs) tx = (Ended, snd (chan_send (Inl e) tx))"

fun tun_writer :: "(bytes \<times> (string + unit)) list \<Rightarrow> bytes list \<Rightarrow> pump_state \<times> bytes list" where
  "tun_writer [] written = (Waiting, written)"
| "tun_writer ((pkt, Inr _) # rs) written = tun_writer rs (written @ [pkt])"
| "tun_writer ((pkt, Inl e) # rs) written = (Ended, written)"

text \<open>A command and what its process gave: the exit status, the standard output and the errors.\<close>

record process_output =
  po_success :: bool
  po_stdout :: string
  po_stderr :: string

definition run_command :: "(string \<Rightarrow> string list \<Rightarrow> string + process_output) \<Rightarrow> string \<Rightarrow> string list \<Rightarrow> string + string" where
  "run_command process command args =
     (let full_cmd = command @ '' '' @ join_with '' '' args in
      case process command args of
        Inl e \<Rightarrow> Inl e
      | Inr out \<Rightarrow>
          if \<not> po_success out
          then (let err = (if po_stderr out = [] then po_stdout out else po_stderr out)
                in Inl (''Run command: '' @ [CHR 0x22] @ full_cmd @ [CHR 0x22] @ '' failed with '' @ err))
          else Inr (po_stdout out))"

text \<open>\<open>network\<close> is the network address of a CIDR, \<open>tun_index\<close> the index of the adapter.\<close>

definition route_args :: "string \<Rightarrow> ipv4addr \<Rightarrow> ipv4addr \<Rightarrow> ipv4addr \<Rightarrow> nat \<Rightarrow> string list" where
  "route_args verb destination netmask gateway index =
     [verb, ipv4_to_string destination, ''MASK'', ipv4_to_string netmask, ipv4_to_string gateway,
      ''IF'', dec_of_nat index]"

definition configure_wintun_route ::
  "(string \<Rightarrow> string list \<Rightarrow> string + process_output) \<Rightarrow> (ipv4addr \<times> u8 \<Rightarrow> ipv4addr) \<Rightarrow> string + nat \<Rightarrow> proxy_cli
     \<Rightarrow> string + unit" where
  "configure_wintun_route process network tun_index cli =
     (let destination = network (cl_tun_route cli) in
      case prefix_to_netmask (snd (cl_tun_route cli)) of
        Inl e \<Rightarrow> Inl e
      | Inr netmask \<Rightarrow>
          (case tun_index of
             Inl e \<Rightarrow> Inl ''failed to query wintun adapter index''
           | Inr index \<Rightarrow>
               if is_ok (run_command process ''route'' (route_args ''ADD'' destination netmask (cl_tun_gateway cli) index))
                 \<or> is_ok (run_command process ''route'' (route_args ''CHANGE'' destination netmask (cl_tun_gateway cli) index))
               then Inr ()
               else Inl (''failed to configure wintun route '' @ ipv4_to_string destination @ ''/''
                 @ dec_of_nat (unat (snd (cl_tun_route cli))) @ '' via '' @ ipv4_to_string (cl_tun_gateway cli)
                 @ '' on ifindex '' @ dec_of_nat index)))"

text \<open>The program: the logger, the device, the three sockets, then the same select.\<close>

definition proxy_main ::
  "icmp_wire \<Rightarrow> string + unit \<Rightarrow> (proxy_device \<Rightarrow> string + 'dev) \<Rightarrow> ('dev \<Rightarrow> proxy_cli \<Rightarrow> string + unit)
     \<Rightarrow> string + unit \<Rightarrow> string + unit \<Rightarrow> string + unit \<Rightarrow> proxy_cli \<Rightarrow> proxy_event list
     \<Rightarrow> string + bool \<times> transparent_proxy" where
  "proxy_main w logger create configure_route tcp_bind udp_bind raw_socket cli evs =
     (case logger of
        Inl e \<Rightarrow> Inl ''failed to install env logger''
      | Inr _ \<Rightarrow>
          (case proxy_create_tun_device create configure_route cli of
             Inl e \<Rightarrow> Inl ''failed to create proxy net''
           | Inr (device, net) \<Rightarrow>
               run_transparent_proxy w
                 (map_err (\<lambda>_. ''failed to create wildcard tcp listener'') tcp_bind)
                 (map_err (\<lambda>_. ''failed to create wildcard udp socket'') udp_bind)
                 (map_err (\<lambda>_. ''failed to create wildcard icmp socket'') raw_socket)
                 (cl_upstream_server cli) evs))"

section \<open>Lemmas\<close>

lemma pump_open:
  assumes "ch_receiver tx"
  shows "pump f rx tx = (if ch_senders rx then Waiting else Ended, rx\<lparr>ch_queue := []\<rparr>,
    tx\<lparr>ch_queue := ch_queue tx @ map f (ch_queue rx)\<rparr>)"
  using assms
proof (induction "ch_queue rx" arbitrary: rx tx)
  case Nil
  then show ?case by (subst pump.simps) (simp add: chan_recv_def)
next
  case (Cons x xs)
  from Cons.hyps(1) [of "rx\<lparr>ch_queue := xs\<rparr>" "tx\<lparr>ch_queue := ch_queue tx @ [f x]\<rparr>"] Cons.prems Cons.hyps(2) [symmetric]
  show ?case by (subst pump.simps) (simp add: chan_recv_def chan_send_def)
qed

lemma pump_closed:
  assumes "\<not> ch_receiver tx"
  shows "pump f rx tx = (if ch_queue rx = [] \<and> ch_senders rx then Waiting else Ended,
    rx\<lparr>ch_queue := tl (ch_queue rx)\<rparr>, tx)"
  using assms by (subst pump.simps) (simp add: chan_recv_def chan_send_def split: list.split)

lemma find_task: "find (\<lambda>t. tk_id t = i) ts = Some t \<Longrightarrow> t \<in> set ts \<and> tk_id t = i"
  by (induction ts) (auto split: if_splits)

lemma task_step_reach:
  assumes "proxy_reach early st"
  shows "proxy_reach early (task_step early ev st)"
proof -
  have step: "proxy_step early st st' \<Longrightarrow> proxy_reach early st'" for st'
    using assms proxy_reach.step by blast
  show ?thesis
  proof (cases ev)
    case (Task_receives i)
    show ?thesis unfolding Task_receives task_step.simps
      by (rule step, rule proxy_step.receives [of _ _ "fst (chan_recv (px_chans st i))"]) simp
  next
    case (Task_gives_up i)
    show ?thesis
    proof (cases "find (\<lambda>t. tk_id t = i) (px_tasks st)")
      case (Some t)
      have "tk_phase t = Spawned \<and> early \<Longrightarrow> proxy_reach early (drop_task (tk_id t) st)"
        using find_task [OF Some] by (blast intro: step proxy_step.gives_up)
      with assms show ?thesis
        unfolding Task_gives_up task_step.simps with_task_def Some option.case by metis
    qed (simp add: Task_gives_up with_task_def assms)
  qed (auto simp: with_task_def assms dest!: find_task split: option.split
      intro!: step proxy_step.begins proxy_step.removes proxy_step.finishes)
qed

lemma task_step_inflight: "px_inflight (task_step early ev st) = px_inflight st"
  by (cases ev) (auto simp: with_task_def session_begin_def session_remove_def session_finish_def drop_task_def
      split: option.split)

lemma dispatch_inflight: "px_inflight (dispatch k p st) = None"
  by (auto simp: dispatch_def send_to_session_def session_for_def Let_def split: option.split prod.split sum.split)

definition whole_inv :: "ip_filters \<Rightarrow> upstream_server \<Rightarrow> transparent_proxy \<Rightarrow> bool" where
  "whole_inv filters us st =
     (tcp_inv (pr_tcp st) \<and> targets_ok filters us (pr_tcp st)
      \<and> proxy_reach False (pr_udp st) \<and> px_inflight (pr_udp st) = None
      \<and> proxy_reach (icmp_gives_up us) (pr_icmp st) \<and> px_inflight (pr_icmp st) = None)"

lemma whole_inv_step:
  assumes "whole_inv filters us st"
  shows "whole_inv filters us (transparent_proxy_step w filters us ev st)"
proof (cases ev)
  case (Tcp_event e)
  with assms show ?thesis by (simp add: whole_inv_def handle_inbound_stream_inv handle_inbound_stream_targets)
next
  case (Udp_received r)
  have "px_inflight (handle_inbound_datagram filters r (pr_udp st)) = None"
    using assms by (auto simp: whole_inv_def handle_inbound_datagram_def dispatch_inflight split: sum.split)
  with assms Udp_received show ?thesis by (simp add: whole_inv_def udp_in.inbound_reach)
next
  case (Icmp_received r)
  have "px_inflight (handle_inbound_icmp w filters r (pr_icmp st)) = None"
    using assms by (auto simp: whole_inv_def handle_inbound_icmp_def dispatch_inflight split: sum.split)
  with assms Icmp_received show ?thesis by (simp add: whole_inv_def icmp_in.inbound_reach)
qed (use assms in \<open>simp_all add: whole_inv_def task_step_reach task_step_inflight\<close>)

lemma whole_inv_select:
  "whole_inv filters us st \<Longrightarrow> whole_inv filters us (snd (proxy_select w filters us evs st))"
proof (induction evs arbitrary: st)
  case Nil
  then show ?case by (subst proxy_select.simps) simp
next
  case (Cons ev evs)
  then show ?case using whole_inv_step by (subst proxy_select.simps) simp
qed

lemma proxy_select_stopped:
  "fst (proxy_select w filters us evs st) \<longleftrightarrow> tp_stopped (pr_tcp (snd (proxy_select w filters us evs st))) \<noteq> None"
proof (induction evs arbitrary: st)
  case Nil
  show ?case by (subst (1 2) proxy_select.simps) simp
next
  case (Cons ev evs)
  then show ?case by (subst (1 2) proxy_select.simps) simp
qed

lemma whole_inv_start: "whole_inv filters us transparent_proxy_start"
  by (simp add: whole_inv_def transparent_proxy_start_def proxy_reach.start tcp_inv_def targets_ok_def
      tcp_proxy_start_def) (simp add: proxy_start_def)

text \<open>Prefix lengths and netmasks.\<close>

lemma bit_prefix_mask:
  assumes "n \<le> 32"
  shows "bit (prefix_mask (of_nat n)) i \<longleftrightarrow> 32 - n \<le> i \<and> i < 32"
proof (cases "n = 0")
  case False
  have "unat (32 - of_nat n :: u8) = 32 - n"
    using assms by (simp add: unat_sub_if' unat_of_nat word_le_nat_alt)
  moreover have "(of_nat n :: u8) \<noteq> 0" using assms False by (simp add: word_unat_eq_iff unat_of_nat)
  ultimately show ?thesis by (auto simp: prefix_mask_def bit_simps)
qed (simp add: prefix_mask_def)

lemma leading_ones_prefix_mask:
  assumes "n \<le> 32"
  shows "leading_ones (prefix_mask (of_nat n)) = n"
proof -
  have "rev [0..<32] = rev [32 - n..<32] @ rev [0..<32 - n]"
    using upt_add_eq_append [of 0 "32 - n" n] assms by (simp flip: rev_append)
  moreover have "takeWhile (bit (prefix_mask (of_nat n))) (rev [32 - n..<32] @ rev [0..<32 - n]) =
      rev [32 - n..<32] @ takeWhile (bit (prefix_mask (of_nat n))) (rev [0..<32 - n])"
    by (rule takeWhile_append2) (use assms in \<open>auto simp: bit_prefix_mask\<close>)
  moreover have "takeWhile (bit (prefix_mask (of_nat n))) (rev [0..<32 - n]) = []"
    using assms by (cases "32 - n") (auto simp: bit_prefix_mask takeWhile_eq_Nil_iff)
  ultimately show ?thesis using assms by (simp only: leading_ones_def) simp
qed

lemma ipv4_to_from_u32: "ipv4_to_u32 (ipv4_from_u32 x) = x"
proof -
  define x0 where "x0 = unat x"
  define x1 where "x1 = x0 div 256"
  define x2 where "x2 = x1 div 256"
  define x3 where "x3 = x2 div 256"
  have divs: "x0 div 65536 = x2" "x0 div 16777216 = x3"
    unfolding x3_def x2_def x1_def by (simp_all flip: div_mult2_eq)
  have "x0 < 256 * 256 * 256 * 256" using unsigned_less [of x, where ?'a = nat] by (simp add: x0_def)
  then have "x3 < 256" unfolding x3_def x2_def x1_def by (simp add: less_mult_imp_div_less)
  have "ipv4_nat (ipv4_from_u32 x) = ((x3 mod 256 * 256 + x2 mod 256) * 256 + x1 mod 256) * 256 + x0 mod 256"
    using divs by (simp add: ipv4_from_u32_def unsigned_of_nat unsigned_ucast_eq take_bit_eq_mod x0_def x1_def)
  also have "x3 mod 256 = x3" using \<open>x3 < 256\<close> by simp
  also have "x3 * 256 + x2 mod 256 = x2" unfolding x3_def by (rule div_mult_mod_eq)
  also have "x2 * 256 + x1 mod 256 = x1" unfolding x2_def by (rule div_mult_mod_eq)
  also have "x1 * 256 + x0 mod 256 = x0" unfolding x1_def by (rule div_mult_mod_eq)
  finally show ?thesis by (simp add: ipv4_to_u32_def x0_def)
qed

lemma leading_ones_le: "leading_ones x \<le> 32"
  unfolding leading_ones_def using length_takeWhile_le [of "bit x" "rev [0..<32]"] by simp

section \<open>Properties\<close>

text \<open>C17: However the events of the TCP, UDP and ICMP proxies are interleaved, the three numbers the
  reporter logs are the numbers of TCP relays, UDP sessions and ICMP sessions that have begun and
  not finished, and every TCP relay goes to the translation of a target that is no broadcast,
  multicast or unspecified address.\<close>

theorem proxy_stats_exact:
  "case run_transparent_proxy w tcp_bind udp_bind raw_socket upstream_server evs of
     Inl e \<Rightarrow> Inl e \<in> {tcp_bind, udp_bind, raw_socket}
   | Inr (stopped, st) \<Rightarrow>
       report_proxy_stats st =
         (of_nat (length (tp_relays (pr_tcp st))),
          of_nat (length (filter started (px_tasks (pr_udp st)))),
          of_nat (length (filter started (px_tasks (pr_icmp st)))))
       \<and> snd ` set (tp_relays (pr_tcp st)) \<subseteq>
           translate_socket (upstream_new upstream_server) ` {target. non_broadcast (sa_ip target)}
       \<and> (stopped \<longleftrightarrow> tp_stopped (pr_tcp st) \<noteq> None)"
proof -
  let ?us = "upstream_new upstream_server"
  let ?r = "proxy_select w with_non_broadcast ?us evs transparent_proxy_start"
  have inv: "whole_inv with_non_broadcast ?us (snd ?r)"
    by (rule whole_inv_select [OF whole_inv_start])
  have "px_active (pr_udp (snd ?r)) = of_nat (length (filter started (px_tasks (pr_udp (snd ?r)))))"
    "px_active (pr_icmp (snd ?r)) = of_nat (length (filter started (px_tasks (pr_icmp (snd ?r)))))"
    using inv proxy_reach_inv unfolding whole_inv_def proxy_inv_def tasks_ok_def by blast+
  moreover have "tp_active (pr_tcp (snd ?r)) = of_nat (length (tp_relays (pr_tcp (snd ?r))))"
    using inv by (simp add: whole_inv_def tcp_inv_def)
  moreover have "allowed_targets with_non_broadcast \<subseteq> {target. non_broadcast (sa_ip target)}"
    by (auto simp: allowed_targets_def is_allowed_def with_non_broadcast_def)
  then have "snd ` set (tp_relays (pr_tcp (snd ?r))) \<subseteq> translate_socket ?us ` {target. non_broadcast (sa_ip target)}"
    using inv unfolding whole_inv_def targets_ok_def by (meson image_mono order.trans)
  ultimately show ?thesis
    using proxy_select_stopped [of w with_non_broadcast ?us evs transparent_proxy_start]
    by (cases ?r; cases tcp_bind; cases udp_bind; cases raw_socket)
      (simp_all add: run_transparent_proxy_def report_proxy_stats_def)
qed

text \<open>C39: A netmask is read as a prefix length exactly when it is the netmask of that prefix length;
  every other netmask is refused.\<close>

theorem netmask_prefix_roundtrip:
  "netmask_to_prefix_len m = Inr n \<longleftrightarrow> prefix_to_netmask n = Inr m"
proof
  assume "netmask_to_prefix_len m = Inr n"
  then have n: "n = of_nat (leading_ones (ipv4_to_u32 m))" "ipv4_to_u32 m = prefix_mask n"
    by (auto simp: netmask_to_prefix_len_def Let_def split: if_splits)
  have "unat n \<le> 32"
    unfolding n(1) unsigned_of_nat of_nat_id
    using take_bit_nat_less_eq_self leading_ones_le by (rule order.trans)
  then have "\<not> n > 32" by (simp add: word_less_nat_alt)
  with n(2) show "prefix_to_netmask n = Inr m"
    by (simp add: prefix_to_netmask_def flip: n(2))
next
  assume "prefix_to_netmask n = Inr m"
  then have n: "n \<le> 32" "ipv4_to_u32 m = prefix_mask n"
    by (auto simp: prefix_to_netmask_def ipv4_to_from_u32 split: if_splits)
  then have "leading_ones (prefix_mask n) = unat n"
    using leading_ones_prefix_mask [of "unat n"] by (simp add: word_le_nat_alt)
  with n show "netmask_to_prefix_len m = Inr n"
    by (simp add: netmask_to_prefix_len_def Let_def)
qed

text \<open>A channel pump always returns.  While its target has a receiver it moves every queued packet,
  in order, and then waits or, when the source is closed, ends; without a receiver it ends at the
  first packet, which is lost.\<close>

lemma pump_moves_all:
  "pump f rx tx =
     (if ch_receiver tx
      then (if ch_senders rx then Waiting else Ended, rx\<lparr>ch_queue := []\<rparr>,
            tx\<lparr>ch_queue := ch_queue tx @ map f (ch_queue rx)\<rparr>)
      else (if ch_queue rx = [] \<and> ch_senders rx then Waiting else Ended,
            rx\<lparr>ch_queue := tl (ch_queue rx)\<rparr>, tx))"
  by (simp add: pump_open pump_closed)

end
