(* ===== verification/Build_Script.thy ===== *)
theory Build_Script
  imports Prelude
begin

text \<open>
  The build script \<open>build.rs\<close>: which \<open>wintun.dll\<close> is copied next to the program on Windows.  The
  environment variables and the file system are parameters; compiling the protocol buffers is
  done by prost-build and comes as its result.
\<close>

section \<open>Paths and the environment\<close>

text \<open>A path is whether it is rooted, with its components.\<close>

type_synonym path = "bool \<times> string list"

definition path_join :: "path \<Rightarrow> string \<Rightarrow> path" where
  "path_join p c = (fst p, snd p @ [c])"

definition path_ancestor :: "nat \<Rightarrow> path \<Rightarrow> path option" where
  "path_ancestor n p =
     (if length (snd p) < n then None else Some (fst p, take (length (snd p) - n) (snd p)))"

text \<open>\<open>be_copy\<close> gives its result and whether the target exists afterwards.\<close>

record build_env =
  be_var :: "string \<Rightarrow> string option"
  be_path :: "string \<Rightarrow> path"
  be_read :: "path \<Rightarrow> string + string"
  be_read_dir :: "path \<Rightarrow> string + (string + path) list"
  be_exists :: "path \<Rightarrow> bool"
  be_copy :: "path \<Rightarrow> path \<Rightarrow> (string + unit) \<times> bool"
  be_protos :: "string + unit"

definition env_var :: "build_env \<Rightarrow> string \<Rightarrow> string + string" where
  "env_var env name =
     (case be_var env name of None \<Rightarrow> Inl ''environment variable not found'' | Some v \<Rightarrow> Inr v)"

definition quote :: string where
  "quote = [CHR 0x22]"

text \<open>\<open>str::lines\<close>: a last empty line is none, and a carriage return before the line feed is dropped.\<close>

definition drop_cr :: "string \<Rightarrow> string" where
  "drop_cr l = (if l \<noteq> [] \<and> last l = CHR 0x0D then butlast l else l)"

definition str_lines :: "string \<Rightarrow> string list" where
  "str_lines s =
     (let ps = split_on (CHR 0x0A) s in
      map drop_cr (butlast ps) @ (if last ps = [] then [] else [last ps]))"

fun strip_prefix :: "string \<Rightarrow> string \<Rightarrow> string option" where
  "strip_prefix [] s = Some s"
| "strip_prefix (c # cs) [] = None"
| "strip_prefix (c # cs) (x # xs) = (if c = x then strip_prefix cs xs else None)"

section \<open>The script\<close>

definition wintun_arch :: "string \<Rightarrow> string option" where
  "wintun_arch target =
     (if target = ''x86_64-pc-windows-msvc'' \<or> target = ''x86_64-pc-windows-gnu'' then Some ''amd64''
      else if target = ''i686-pc-windows-msvc'' \<or> target = ''i686-pc-windows-gnu'' then Some ''x86''
      else if target = ''aarch64-pc-windows-msvc'' \<or> target = ''aarch64-pc-windows-gnullvm'' then Some ''arm64''
      else if target = ''armv7-pc-windows-msvc'' then Some ''arm''
      else None)"

definition package_line :: string where
  "package_line = ''[[package]]''"

definition name_line :: string where
  "name_line = ''name = '' @ quote @ ''wintun-bindings'' @ quote"

definition version_prefix :: string where
  "version_prefix = ''version = '' @ quote"

definition missing_error :: string where
  "missing_error = ''wintun-bindings is missing from Cargo.lock''"

fun version_in :: "bool \<Rightarrow> string list \<Rightarrow> string + string" where
  "version_in in_package [] = Inl missing_error"
| "version_in in_package (l # ls) =
     (if l = package_line then version_in False ls
      else if l = name_line then version_in True ls
      else if in_package
      then (case strip_prefix version_prefix l of
              Some version \<Rightarrow> Inr (trim_end_matches (CHR 0x22) version)
            | None \<Rightarrow> version_in in_package ls)
      else version_in in_package ls)"

definition locked_wintun_bindings_version :: "build_env \<Rightarrow> path \<Rightarrow> string + string" where
  "locked_wintun_bindings_version env lockfile =
     (case be_read env lockfile of
        Inl e \<Rightarrow> Inl e
      | Inr text \<Rightarrow> version_in False (str_lines text))"

definition cargo_home :: "build_env \<Rightarrow> path option" where
  "cargo_home env =
     (case be_var env ''CARGO_HOME'' of
        Some home \<Rightarrow> Some (be_path env home)
      | None \<Rightarrow>
          (case be_var env ''USERPROFILE'' of
             Some home \<Rightarrow> Some (path_join (be_path env home) ''.cargo'')
           | None \<Rightarrow> map_option (\<lambda>home. path_join (be_path env home) ''.cargo'') (be_var env ''HOME'')))"

definition dll_in :: "string \<Rightarrow> string \<Rightarrow> path \<Rightarrow> path" where
  "dll_in version arch registry =
     path_join (path_join (path_join (path_join (path_join registry
       (''wintun-bindings-'' @ version)) ''wintun'') ''bin'') arch) ''wintun.dll''"

fun first_dll :: "build_env \<Rightarrow> string \<Rightarrow> string \<Rightarrow> (string + path) list \<Rightarrow> string + path" where
  "first_dll env version arch [] =
     Inl (''wintun.dll not found for wintun-bindings '' @ version @ '' and arch '' @ arch)"
| "first_dll env version arch (Inl e # rs) = Inl e"
| "first_dll env version arch (Inr registry # rs) =
     (let dll = dll_in version arch registry in
      if be_exists env dll then Inr dll else first_dll env version arch rs)"

definition find_wintun_dll :: "build_env \<Rightarrow> string \<Rightarrow> string \<Rightarrow> string + path" where
  "find_wintun_dll env version arch =
     (case cargo_home env of
        None \<Rightarrow> Inl ''CARGO_HOME, USERPROFILE, and HOME are unavailable''
      | Some home \<Rightarrow>
          (case be_read_dir env (path_join (path_join home ''registry'') ''src'') of
             Inl e \<Rightarrow> Inl e
           | Inr registries \<Rightarrow> first_dll env version arch registries))"

definition build_output_dir :: "build_env \<Rightarrow> string + path" where
  "build_output_dir env =
     (case env_var env ''OUT_DIR'' of
        Inl e \<Rightarrow> Inl e
      | Inr out_dir \<Rightarrow>
          (case path_ancestor 3 (be_path env out_dir) of
             None \<Rightarrow> Inl ''Unable to determine Cargo profile output directory''
           | Some dir \<Rightarrow> Inr dir))"

text \<open>The copy that was made, if any.\<close>

definition copy_wintun_dll :: "build_env \<Rightarrow> string + (path \<times> path) option" where
  "copy_wintun_dll env =
     (case env_var env ''TARGET'' of
        Inl e \<Rightarrow> Inl e
      | Inr target \<Rightarrow>
          (case wintun_arch target of
             None \<Rightarrow> Inr None
           | Some arch \<Rightarrow>
               (case env_var env ''CARGO_MANIFEST_DIR'' of
                  Inl e \<Rightarrow> Inl e
                | Inr manifest_dir \<Rightarrow>
                    (case locked_wintun_bindings_version env (path_join (be_path env manifest_dir) ''Cargo.lock'') of
                       Inl e \<Rightarrow> Inl e
                     | Inr version \<Rightarrow>
                         (case find_wintun_dll env version arch of
                            Inl e \<Rightarrow> Inl e
                          | Inr dll \<Rightarrow>
                              (case build_output_dir env of
                                 Inl e \<Rightarrow> Inl e
                               | Inr dir \<Rightarrow>
                                   (case be_copy env dll (path_join dir ''wintun.dll'') of
                                      (Inr _, _) \<Rightarrow> Inr (Some (dll, path_join dir ''wintun.dll''))
                                    | (Inl e, True) \<Rightarrow> Inr None
                                    | (Inl e, False) \<Rightarrow> Inl e)))))))"

definition build_main :: "build_env \<Rightarrow> string + unit" where
  "build_main env =
     (case be_protos env of
        Inl e \<Rightarrow> Inl e
      | Inr _ \<Rightarrow> map_sum (\<lambda>e. e) (\<lambda>_. ()) (copy_wintun_dll env))"

section \<open>Lemmas\<close>

lemma strip_prefix_append [simp]: "strip_prefix p (p @ s) = Some s"
  by (induction p) simp_all

lemma version_in_skip:
  "name_line \<notin> set pre \<Longrightarrow> version_in False (pre @ ls) = version_in False ls"
  by (induction pre) auto

lemma version_in_package: "version_in b (package_line # ls) = version_in False ls"
  by simp

lemma version_in_name: "version_in b (name_line # ls) = version_in True ls"
  by (simp add: package_line_def name_line_def)

lemma version_in_version:
  "version_in True ((version_prefix @ v @ quote) # ls) = Inr (trim_end_matches (CHR 0x22) (v @ quote))"
  by (simp add: package_line_def name_line_def version_prefix_def quote_def)

lemma trim_quote:
  "v = [] \<or> last v \<noteq> CHR 0x22 \<Longrightarrow> trim_end_matches (CHR 0x22) (v @ quote) = v"
  by (cases v rule: rev_cases) (auto simp: trim_end_matches_def quote_def)

lemma first_dll_prefix:
  "\<forall>r \<in> set pre. \<not> be_exists env (dll_in version arch r) \<Longrightarrow>
     first_dll env version arch (map Inr pre @ rs) = first_dll env version arch rs"
  by (induction pre) (auto simp: Let_def)

section \<open>Properties\<close>

text \<open>C40: The version the build script takes from the lock file is the one of the package
  wintun-bindings: that of the version line after the first line naming that package, whatever
  packages are listed before and after.\<close>

theorem locked_version_found:
  assumes "name_line \<notin> set pre" "v = [] \<or> last v \<noteq> CHR 0x22"
  shows "version_in False (pre @ [package_line, name_line, version_prefix @ v @ quote] @ post) = Inr v"
  by (simp only: version_in_skip [OF assms(1)] version_in_package version_in_name version_in_version
      trim_quote [OF assms(2)] append_Cons append_Nil)

theorem locked_version_found_witness:
  "version_in False ([''[[package]]'', ''version = '' @ quote @ ''1.0'' @ quote]
     @ [package_line, name_line, version_prefix @ ''0.7.31'' @ quote] @ []) = Inr ''0.7.31''"
  using locked_version_found [of "[''[[package]]'', ''version = '' @ quote @ ''1.0'' @ quote]" "''0.7.31''" "[]"]
  by (simp add: name_line_def quote_def)

end
