(* ===== verification/Spec2Isabelle.thy ===== *)
theory Spec2Isabelle
  imports Network Blocking Unit_Tests Tun_Device Connect Transparent_Proxy Build_Script
begin

text \<open>
  A verification library for easynet, a virtual network over TUN devices.  A server hands out
  virtual addresses to clients; client and server exchange IP packets as framed protobuf
  messages over TCP, UDP or WebSocket; a rules engine decides for each packet a machine sends
  whether it goes through the tunnel, to a user-space transparent proxy, or nowhere.

  \<^bold>\<open>The parts and their theories\<close> (sources are below \<open>src/src\<close> unless said otherwise).

  \<^item> \<open>Prelude\<close>: results as sums (\<open>Inl\<close> is \<open>Err\<close>), the string operations of the Rust library
    that the sources call, decimal numbers, seconds as nanoseconds, the \<open>str_eval\<close> bundle.
  \<^item> \<open>Net_Addr\<close>, \<open>Ip_Text\<close>: IP addresses of \<open>std::net\<close>, their classification, parsing and printing;
    printing followed by parsing is the identity, IPv6 compression included.
  \<^item> \<open>Rule_Model\<close> (\<open>rules/action.rs\<close>, \<open>rules/rule.rs\<close>): actions, protocols, the compact text of rules.
    Round trip of parsing and printing; a parsed rule has one condition.
  \<^item> \<open>Config\<close> (\<open>config.rs\<close>): configuration records, validation of rules, port ranges, DNS lists,
    loading and saving over a file system.  Validation is characterised exactly, with the error
    it reports.
  \<^item> \<open>Packet_Context\<close>, \<open>Geoip\<close>, \<open>Domain_Cache\<close>, \<open>Rules_Engine\<close> (\<open>rules/context.rs\<close>, \<open>geoip.rs\<close>,
    \<open>domain_cache.rs\<close>, \<open>matcher.rs\<close>, \<open>engine.rs\<close>): what a rule sees of a packet and the decision.  The
    cache refines a map from addresses and domains to expiry times; the engine refines a
    decision over rules compiled to conditions on parsed values.
  \<^item> \<open>Codec\<close> (\<open>codec/codec.rs\<close>, \<open>src/proto/message.proto\<close>): messages and length-prefixed frames.  Streams
    are decoded as sent however they are cut, the buffer is bounded, oversized frames refused.
  \<^item> \<open>Channel\<close>: the mpsc channels of tokio, with the queue contract they satisfy.
  \<^item> \<open>Packet_Route\<close> (\<open>common.rs\<close>): the task between the TUN device, the tunnel and the proxy.
  \<^item> \<open>Transport_Trait\<close>, \<open>Transport\<close> (\<open>transport/\<close>): the transport trait, its three implementations, the
    server's connection tasks and the client's relay task.
  \<^item> \<open>Server\<close> (\<open>server.rs\<close>): sessions, handshakes, delivery, clean-up, as functions on
    the shared state and as a transition system in which handshakes of different connections
    interleave at their suspension point.  Up to 256 client ids every session has an address of its own
    and is reached under it; with more sessions at once two share one.
  \<^item> \<open>Client\<close> (\<open>client.rs\<close>, \<open>main.rs\<close>, the \<open>run_\<close> functions of \<open>transport/\<close>): the client's handshake,
    connecting, the retry loop, the assembly of the tasks, the choice of the mode.
  \<^item> \<open>Connect\<close> (\<open>transport/\<close>): how transports are made by connecting and accepting, the accept loops, the
    URL and the TLS settings of a WebSocket client.
  \<^item> \<open>Proxy_Sessions\<close>, \<open>Icmp_Proxy\<close>, \<open>Transparent_Proxy\<close> (\<open>transparent_proxy/\<close>, \<open>bin/transparent-proxy.rs\<close>): filters,
    the session tables of the UDP and ICMP proxies with their tasks interleaved, TCP relays, the
    rewriting of ICMP identifiers, the three proxies together, the stand-alone program.
  \<^item> \<open>Tun_Device\<close> (\<open>tun_device.rs\<close>, \<open>main.rs\<close>): what the TUN device is created with, the program as a whole.
  \<^item> \<open>Build_Script\<close> (\<open>src/build.rs\<close>): which \<open>wintun.dll\<close> is copied.
  \<^item> \<open>Network\<close>: a client and a server at work.  The rounds of their tasks, as \<open>Packet_Route\<close>, \<open>Transport\<close>
    and \<open>Server\<close> define them, interleave in any order over the channels between them and a TCP
    connection that cuts the frames of \<open>Codec\<close> into any pieces.  At every moment the packets under
    way are those sent and not yet delivered, in order; from every moment all of them can arrive.
  \<^item> \<open>Blocking\<close>: the same tasks cut at the awaits inside their rounds, with the capacity of the channels
    and the lock of the session map.  The states from which tasks never get back to their loops, or
    the lock is never released, are characterised exactly and shown to be reachable.  A completed
    round of the TUN task is a run of the cut one.
  \<^item> \<open>Unit_Tests\<close>: the unit tests of the rules crate (\<open>rules/\<close> and \<open>config.rs\<close>), run on the model.
  \<^item> This theory: the properties that span client, codec and server.

  \<^bold>\<open>How state and effects are modelled.\<close>  A struct is a record, an enum a datatype, a machine
  integer a word of its width; a session map is an association list whose order no theorem on
  the server relies on (\<open>server_step\<close> may permute it).  A task with a \<open>select!\<close> loop is a
  step function on its state, driven by a list of the branches taken; each event carries what
  the environment answers there (the result of a read, the clock, a fresh id).  Every theorem
  quantifies over all such lists, that is over all schedules.  A send on a full channel
  waits; \<open>chan_send\<close> is its effect once there is room.  In \<open>Network\<close> a round is taken only when its
  sends have room, so no task is suspended inside one; in \<open>Blocking\<close> a task first takes its input and
  is then suspended until there is room, as the code is.

  \<^bold>\<open>Interfaces\<close> are locales: \<open>ttl_cache\<close>, \<open>first_match\<close>, \<open>streaming_decoder\<close>, \<open>fifo\<close>, \<open>transport\<close>,
  \<open>transport_stream\<close>, \<open>inbound_loop\<close> and \<open>icmp_laws\<close>, each interpreted on the definitions that provide it;
  \<open>icmp_laws\<close>, which speaks of a library, on the packet formats of the RFCs.

  \<^bold>\<open>Bounds.\<close>  No definition needs fuel: loops are structural over their events or come with a
  measure.  The retry loop may run forever and is a \<open>partial_function\<close> whose theorem says
  exactly when it returns.  Client ids and ICMP identifiers wrap at their width, and the theorems
  give the number of sessions up to which they are distinct.  The channels between the packet tasks
  hold 4096 packets (\<open>CHANNEL_CAPACITY\<close>); a read from a TUN device gives at most \<open>TUN_MTU\<close> bytes, so its
  frame is never over the limit of the codec.

  \<^bold>\<open>Parameters\<close> stand for code outside the repository: the protobuf coding of prost, the packet
  slicing of etherparse, the networks of ipnetwork, the MaxMind reader, the DNS parser, YAML
  reading and writing, the header access of smoltcp, TLS identities, the devices of tun2, processes,
  the file system.
  What a theorem assumes of them is a premise of it.

  \<^bold>\<open>Not modelled\<close>: the content of log lines; what happens inside sockets, TLS and WebSocket
  handshakes, the creation of TUN devices and \<open>copy_bidirectional\<close>, which are library calls whose
  results are inputs here; the sizes of receive buffers, since a read delivers what fits; the
  parsing of command lines by clap; the generated protobuf code; the hashing of actions; the attempt counter
  of the retry loop, which is only logged.  \<open>Network\<close>
  follows one TCP client among any others, whose connections only take packets; a server over UDP
  or WebSocket is covered by the theorems on its tasks, not by \<open>Network\<close>.  \<open>Blocking\<close> leaves out rounds
  that fail, except for the end of a connection, and takes the proxy's network stack to accept a
  packet at some time.
\<close>

section \<open>Across the components\<close>

text \<open>
  What the network starts from is what a handshake leaves behind on a connection that has no other
  session: packets for the address of the session go to the connection, packets for other
  addresses do not.
\<close>

lemma admitted_session_ok:
  assumes "reach n s" and "n < 256"
    and "handshake_lookup (Inr config) fresh_id addr tx sid tok (sy_server s) = (Hs_accept pd msg, st)"
    and "fresh_id \<notin> fst ` holdings s"
    and "\<forall>(k, c) \<in> set (sv_sessions (sy_server s)). k \<noteq> pd_session_id pd \<longrightarrow> cl_tx c \<noteq> tx"
  shows "session_ok \<lparr>cl_addr = addr, cl_virtual_ip = pd_virtual_ip pd, cl_tx = tx, cl_tun_config = pd_tun_config pd,
    cl_last_seen = now\<rparr> (handshake_commit now pd st)"
proof -
  let ?c = "\<lparr>cl_addr = addr, cl_virtual_ip = pd_virtual_ip pd, cl_tx = tx, cl_tun_config = pd_tun_config pd,
    cl_last_seen = now\<rparr>"
  let ?s1 = "s\<lparr>sy_server := st, sy_pending := pd # sy_pending s\<rparr>"
  let ?s2 = "?s1\<lparr>sy_server := handshake_commit now pd st, sy_pending := sy_pending s\<rparr>"
  have pd: "pd_addr pd = addr" "pd_tx pd = tx" "sv_sessions st = sv_sessions (sy_server s)"
    using assms(3) by (auto elim!: handshake_lookup_cases)
  obtain k where k: "server_step s k ?s1" "k \<le> 1"
    using server_step.reply [OF assms(3,4)] by (metis (full_types) le_refl zero_le_one)
  have "server_step ?s1 0 ?s2"
    using server_step.commit [of ?s1 "[]" pd "sy_pending s" now] by simp
  with reach.step [OF reach.step [OF assms(1) k(1)]] have reached: "reach (n + k) ?s2" by fastforce
  have sessions: "sv_sessions (sy_server ?s2) = AList.update (pd_session_id pd) ?c (sv_sessions (sy_server s))"
    using pd by (simp add: handshake_commit_def)
  then have "(pd_session_id pd, ?c) \<in> set (sv_sessions (sy_server ?s2))"
    by (metis map_of_SomeD map_of_update fun_upd_same update_conv')
  from find_virtual_ip_unique [OF reached _ this] assms(2) k(2)
  have "find_virtual_ip (cl_virtual_ip ?c) (sy_server ?s2) = Some ?c" by simp
  moreover have "cl_virtual_ip c = cl_virtual_ip ?c"
    if "(k', c) \<in> set (sv_sessions (sy_server ?s2))" "cl_tx c = tx" for k' c
  proof -
    have "distinct (map fst (sv_sessions (sy_server ?s2)))"
      using system_inv_reach [OF reached] by (simp add: system_inv_def)
    from eq_key_imp_eq_value [OF this _ \<open>(pd_session_id pd, ?c) \<in> set (sv_sessions (sy_server ?s2))\<close>]
    have "c = ?c" if "k' = pd_session_id pd" using that \<open>(k', c) \<in> set (sv_sessions (sy_server ?s2))\<close> by blast
    moreover have "(k', c) = (pd_session_id pd, ?c) \<or> (k', c) \<in> set (sv_sessions (sy_server s))"
      using that(1) set_update_subset [of "pd_session_id pd" ?c "sv_sessions (sy_server s)"] unfolding sessions by blast
    ultimately show ?thesis using assms(5) that(2) by (cases "k' = pd_session_id pd") auto
  qed
  ultimately show ?thesis by (auto simp: session_ok_def)
qed

lemma admitted_session_ok_example:
  "session_ok \<lparr>cl_addr = example_addr 9, cl_virtual_ip = Ipv4Addr 10 0 0 3, cl_tx = 8,
      cl_tun_config = build_tun_config example_server_config (Ipv4Addr 10 0 0 3), cl_last_seen = 6\<rparr>
    (handshake_commit 6 \<lparr>pd_session_id = ''new'', pd_virtual_ip = Ipv4Addr 10 0 0 3,
       pd_tun_config = build_tun_config example_server_config (Ipv4Addr 10 0 0 3), pd_addr = example_addr 9, pd_tx = 8\<rparr>
     (snd (handshake_lookup (Inr example_server_config) ''new'' (example_addr 9) 8 None None (sy_server example_system))))"
proof -
  have lookup: "handshake_lookup (Inr example_server_config) ''new'' (example_addr 9) 8 None None (sy_server example_system) =
      (Hs_accept \<lparr>pd_session_id = ''new'', pd_virtual_ip = Ipv4Addr 10 0 0 3,
         pd_tun_config = build_tun_config example_server_config (Ipv4Addr 10 0 0 3), pd_addr = example_addr 9, pd_tx = 8\<rparr>
       (message_handshake \<lparr>hs_token = ''admin'', hs_session_id = ''new'',
         hs_tun_config = Some (build_tun_config example_server_config (Ipv4Addr 10 0 0 3))\<rparr>),
       snd (handshake_lookup (Inr example_server_config) ''new'' (example_addr 9) 8 None None (sy_server example_system)))"
    by (simp add: handshake_lookup_def new_session_def allocate_virtual_ip_def example_system_def
        example_server_config_def Let_def)
  have "''new'' \<notin> fst ` holdings example_system" by (simp add: holdings_def example_system_def)
  from admitted_session_ok [OF example_reach _ lookup this, of 6] show ?thesis
    by (simp add: example_system_def example_client_def)
qed

text \<open>C3: A handshake makes both ends agree.  When a new client whose token is the server's sends its
  handshake, the client takes the server's answer as success, knows the session by the id under
  which the server has it, saves that id, and configures its TUN device with the virtual address
  the server will route to it.\<close>

theorem handshake_agreement:
  assumes "sc_token sconfig = cc_token config"
    and "map_of (sv_sessions (cn_server cn)) (cc_session_id config) = None"
    and "fresh_id \<noteq> cc_session_id config"
    and "tt_failing (cn_transport cn) = (\<lambda>_. None)" "tt_failing t = (\<lambda>_. None)"
    and "serve_message tcp_trait (Inr sconfig) now fresh_id peer tx peer
      (message_handshake \<lparr>hs_token = cc_token config, hs_session_id = cc_session_id config, hs_tun_config = None\<rparr>) cn
      = cn'"
    and "tt_sent (cn_transport cn') = tt_sent (cn_transport cn) @ [reply]"
    and "tt_results t = [Inr reply]"
    and "remember_session yaml fresh_id fs = (Inr (), fs')"
  shows "\<exists>tc td config' t' client. handshake_async tcp_trait yaml False server_addr (config, fs, t) = (Inr tc, config', fs', t')
    \<and> client_tun_config tc = Inr td
    \<and> map_of (sv_sessions (cn_server cn')) (cc_session_id config') = Some client
    \<and> td_address td = V4 (cl_virtual_ip client) \<and> cl_addr client = peer \<and> cl_tx client = tx"
proof -
  let ?st = "cn_server cn"
  obtain vip next_id where a: "allocate_virtual_ip (sv_next_client_id ?st) = (vip, next_id)"
    by (cases "allocate_virtual_ip (sv_next_client_id ?st)")
  let ?tc = "build_tun_config sconfig vip"
  let ?reply = "message_handshake \<lparr>hs_token = sc_token sconfig, hs_session_id = fresh_id, hs_tun_config = Some ?tc\<rparr>"
  have "handshake_lookup (Inr sconfig) fresh_id peer tx (non_empty (cc_session_id config)) (non_empty (cc_token config)) ?st
      = (Hs_accept \<lparr>pd_session_id = fresh_id, pd_virtual_ip = vip, pd_tun_config = ?tc, pd_addr = peer, pd_tx = tx\<rparr> ?reply,
         ?st\<lparr>sv_next_client_id := next_id\<rparr>)"
    using assms(1,2) a by (auto simp: handshake_lookup_def non_empty_def validate_token_def new_session_def Let_def)
  then have server: "tt_sent (cn_transport cn') = tt_sent (cn_transport cn) @ [?reply]"
    "map_of (sv_sessions (cn_server cn')) fresh_id =
       Some \<lparr>cl_addr = peer, cl_virtual_ip = vip, cl_tx = tx, cl_tun_config = ?tc, cl_last_seen = now\<rparr>"
    using assms(4,6) by (auto simp: message_handshake_def handle_handshake_def tcp_trait_def tcp_send_def handshake_commit_def)
  then have "tt_results t = [Inr ?reply]" using assms(7,8) by simp
  then have "\<exists>t'. handshake_async tcp_trait yaml False server_addr (config, fs, t)
      = (Inr ?tc, config\<lparr>cc_session_id := fresh_id\<rparr>, fs', t')"
    using assms(1,3,5,9)
    by (simp add: handshake_async_def tcp_trait_def tcp_send_def tcp_next_def message_handshake_def Let_def)
  moreover have "client_tun_config ?tc = Inr ((server_tun_config sconfig)\<lparr>td_address := V4 vip\<rparr>)"
    by (rule tun_config_read)
  ultimately show ?thesis using server(2) by fastforce
qed

theorem handshake_agreement_witness:
  "\<exists>tc td config' fs' t' client. handshake_async tcp_trait
        \<lparr>sy_read = (\<lambda>s. Inr \<lparr>cs_session_id = s\<rparr>), sy_write = (\<lambda>st. Inr (cs_session_id st))\<rparr> False (example_addr 1)
        (example_client_config\<lparr>cc_session_id := []\<rparr>,
         \<lparr>fs_files = (\<lambda>_. None), fs_mkdir_error = (\<lambda>_. None), fs_write_error = (\<lambda>_. None)\<rparr>,
         \<lparr>tt_peer_addr = example_addr 1, tt_results = [Inr (message_handshake \<lparr>hs_token = ''admin'',
            hs_session_id = ''new'', hs_tun_config = Some (build_tun_config example_server_config
              (fst (allocate_virtual_ip (sv_next_client_id (cn_server example_conn)))))\<rparr>)],
           tt_failing = (\<lambda>_. None), tt_sent = []\<rparr>) = (Inr tc, config', fs', t')
    \<and> client_tun_config tc = Inr td \<and> td_address td = V4 (cl_virtual_ip (client :: client))"
proof -
  let ?yaml = "\<lparr>sy_read = (\<lambda>s. Inr \<lparr>cs_session_id = s\<rparr>), sy_write = (\<lambda>st. Inr (cs_session_id st))\<rparr>"
  let ?fs = "\<lparr>fs_files = (\<lambda>_. None), fs_mkdir_error = (\<lambda>_. None), fs_write_error = (\<lambda>_. None)\<rparr>"
  let ?config = "example_client_config\<lparr>cc_session_id := []\<rparr>"
  let ?reply = "message_handshake \<lparr>hs_token = ''admin'', hs_session_id = ''new'',
    hs_tun_config = Some (build_tun_config example_server_config
      (fst (allocate_virtual_ip (sv_next_client_id (cn_server example_conn)))))\<rparr>"
  let ?t = "\<lparr>tt_peer_addr = example_addr 1, tt_results = [Inr ?reply], tt_failing = (\<lambda>_. None), tt_sent = []\<rparr>"
  obtain fs' where saved: "remember_session ?yaml ''new'' ?fs = (Inr (), fs')"
    by (simp add: remember_session_def load_client_state_def save_client_state_def write_config_def)
  have sent: "tt_sent (cn_transport (serve_message tcp_trait (Inr example_server_config) 5 ''new'' (example_addr 9) 3 (example_addr 9)
      (message_handshake \<lparr>hs_token = cc_token ?config, hs_session_id = cc_session_id ?config, hs_tun_config = None\<rparr>)
      example_conn)) = tt_sent (cn_transport example_conn) @ [?reply]"
    by (simp add: example_conn_def message_handshake_def handle_handshake_def handshake_lookup_def
        non_empty_def new_session_def tcp_trait_def tcp_send_def example_client_config_def example_server_config_def
        validate_token_def Let_def split: prod.split)
  have pre: "sc_token example_server_config = cc_token ?config"
    "map_of (sv_sessions (cn_server example_conn)) (cc_session_id ?config) = None" "''new'' \<noteq> cc_session_id ?config"
    "tt_failing (cn_transport example_conn) = (\<lambda>_. None)" "tt_failing ?t = (\<lambda>_. None)" "tt_results ?t = [Inr ?reply]"
    by (simp_all add: example_conn_def example_system_def example_client_config_def example_server_config_def)
  from handshake_agreement [OF pre(1-5) refl sent pre(6) saved, of "example_addr 1"] show ?thesis
    by (elim exE conjE) (intro exI conjI, assumption+)
qed

text \<open>C19: A dropped connection loses its session.  When the stream of a TCP connection ends, the
  session registered for its address is removed, so a client that comes back with that session
  id is given a new session and the next virtual address instead of the one it had.\<close>

theorem dropped_session_lost:
  assumes "tt_results (cn_transport cn) = []"
    and "map_of (sv_sessions (cn_server cn)) session_id = Some client"
    and "cl_addr client = tt_peer_addr (cn_transport cn)"
    and "\<forall>(k, v) \<in> set (sv_sessions (cn_server cn)). cl_addr v = cl_addr client \<longrightarrow> k = session_id"
    and "handle_tcp_connection tx (Transport_ready loaded now fresh # events) cn = (open, cn')"
  shows "\<not> open \<and> map_of (sv_sessions (cn_server cn')) session_id = None
    \<and> (\<exists>pd reply st. handshake_lookup (Inr config) fresh_id addr tx' (Some session_id) (Some (sc_token config)) (cn_server cn')
          = (Hs_accept pd reply, st)
        \<and> pd_session_id pd = fresh_id
        \<and> pd_virtual_ip pd = fst (allocate_virtual_ip (sv_next_client_id (cn_server cn))))"
proof -
  let ?st = "handle_disconnect (cl_addr client) (cn_server cn)"
  obtain k v where f: "List.find (\<lambda>(k, v). cl_addr v = cl_addr client) (sv_sessions (cn_server cn)) = Some (k, v)"
    using assms(2) by (cases "List.find (\<lambda>(k, v). cl_addr v = cl_addr client) (sv_sessions (cn_server cn))")
      (auto simp: find_None_iff dest: map_of_SomeD)
  then have "k = session_id" using find_SomeD [OF f] assms(4) by auto
  then have "map_of (sv_sessions ?st) session_id = None" "sv_next_client_id ?st = sv_next_client_id (cn_server cn)"
    using f by (simp_all add: handle_disconnect_def AList.map_of_delete)
  moreover have "\<not> open" "sv_sessions (cn_server cn') = sv_sessions ?st" "sv_next_client_id (cn_server cn') = sv_next_client_id ?st"
    using assms(1,3,5)
    by (auto simp: handle_tcp_connection_def handle_connection_def tcp_trait_def tcp_next_def Let_def)
  ultimately show ?thesis
    by (auto simp: handshake_lookup_def new_session_def validate_token_def Let_def split: prod.split)
qed

theorem dropped_session_lost_witness:
  "let cn = example_conn\<lparr>cn_transport := (cn_transport example_conn)\<lparr>tt_results := []\<rparr>\<rparr>
   in map_of (sv_sessions (cn_server (snd (handle_tcp_connection 7 [Transport_ready (Inl ''none'') 0 []] cn)))) ''abc'' = None"
proof -
  let ?cn = "example_conn\<lparr>cn_transport := (cn_transport example_conn)\<lparr>tt_results := []\<rparr>\<rparr>"
  have "handle_tcp_connection 7 [Transport_ready (Inl ''none'') 0 []] ?cn =
      (fst (handle_tcp_connection 7 [Transport_ready (Inl ''none'') 0 []] ?cn),
       snd (handle_tcp_connection 7 [Transport_ready (Inl ''none'') 0 []] ?cn))" by simp
  from dropped_session_lost [OF _ _ _ _ this, of "''abc''" example_client] show ?thesis
    by (simp add: example_conn_def example_system_def example_client_def)
qed

end
